(* ===== verification/Prelude.thy ===== *)
theory Prelude
  imports Main
begin

text \<open>
  Shared vocabulary of the development: instants and durations, Go's saturating time
  subtraction and narrowing integer conversions, and the reading of SQL statements as
  operations on lists of rows.  \<open>upd_where\<close> is \<^verbatim>\<open>UPDATE ... SET ... WHERE\<close>,
  \<open>row_by\<close> is a lookup by primary key, \<open>returning\<close> is \<^verbatim>\<open>... RETURNING\<close>.
  The lemmas collected in \<open>table_simps\<close> say how lookups, key lists and counts behave
  under those statements.
\<close>

named_theorems table_simps \<open>lookups, keys and counts under the SQL-style list operations\<close>
named_theorems legal_intros \<open>database operations that only make legal row transitions\<close>
named_theorems wf_intros \<open>database operations that keep the database well formed\<close>

subsection \<open>Time\<close>

text \<open>Instants and durations are integers counting nanoseconds, as Go's \<^verbatim>\<open>time.Duration\<close>.\<close>

type_synonym time = int
type_synonym duration = int

abbreviation (input) nanosecond :: duration where "nanosecond \<equiv> 1"

definition second :: duration where
  "second = 1000000000"

definition minute :: duration where
  "minute = 60 * second"

definition millisecond :: duration where
  "millisecond = 1000000"

text \<open>Go's zero \<^verbatim>\<open>time.Time\<close>: January 1, year 1, UTC, counted from the Unix epoch.\<close>

definition zero_time :: time where
  "zero_time = - 62135596800 * second"

definition int64_max :: int where "int64_max = 9223372036854775807"
definition int64_min :: int where "int64_min = - 9223372036854775808"

text \<open>\<^verbatim>\<open>Time.Sub\<close> saturates at the ends of the 64-bit range.\<close>

definition time_sub :: "time \<Rightarrow> time \<Rightarrow> duration" where
  "time_sub a b = max int64_min (min int64_max (a - b))"

lemma time_sub_exact:
  "int64_min \<le> a - b \<Longrightarrow> a - b \<le> int64_max \<Longrightarrow> time_sub a b = a - b"
  by (simp add: time_sub_def)

lemma time_sub_gt:
  "t < int64_max \<Longrightarrow> int64_min \<le> t \<Longrightarrow> (t < time_sub a b) = (t < a - b)"
  by (auto simp: time_sub_def)

subsection \<open>Narrowing conversions\<close>

text \<open>\<^verbatim>\<open>int32(x)\<close> keeps the low 32 bits, read as two's complement.\<close>

definition to_int32 :: "int \<Rightarrow> int" where
  "to_int32 x = (x + 2147483648) mod 4294967296 - 2147483648"

lemma to_int32_id: "- 2147483648 \<le> x \<Longrightarrow> x < 2147483648 \<Longrightarrow> to_int32 x = x"
  by (simp add: to_int32_def)

lemma to_int32_range: "- 2147483648 \<le> to_int32 x \<and> to_int32 x < 2147483648"
  unfolding to_int32_def by simp

text \<open>\<^verbatim>\<open>int64\<close> arithmetic wraps around.\<close>

definition wrap64 :: "int \<Rightarrow> int" where
  "wrap64 x = (x + 9223372036854775808) mod 18446744073709551616 - 9223372036854775808"

lemma wrap64_id: "int64_min \<le> x \<Longrightarrow> x \<le> int64_max \<Longrightarrow> wrap64 x = x"
  by (simp add: wrap64_def int64_min_def int64_max_def)

text \<open>Integer division truncates towards zero; the remainder has the sign of the dividend.\<close>

definition go_quot :: "int \<Rightarrow> int \<Rightarrow> int" where
  "go_quot a b = sgn a * sgn b * (\<bar>a\<bar> div \<bar>b\<bar>)"

definition go_rem :: "int \<Rightarrow> int \<Rightarrow> int" where
  "go_rem a b = sgn a * (\<bar>a\<bar> mod \<bar>b\<bar>)"

lemma go_quot_nonneg: "0 \<le> a \<Longrightarrow> 0 < b \<Longrightarrow> go_quot a b = a div b"
  by (cases "a = 0") (simp_all add: go_quot_def sgn_if)

lemma go_quot_neg: "a \<le> 0 \<Longrightarrow> 0 < b \<Longrightarrow> go_quot a b \<le> 0"
  by (cases "a = 0") (simp_all add: go_quot_def sgn_if pos_imp_zdiv_nonneg_iff)

subsection \<open>SQL statements on tables\<close>

definition upd_where :: "('r \<Rightarrow> bool) \<Rightarrow> ('r \<Rightarrow> 'r) \<Rightarrow> 'r list \<Rightarrow> 'r list" where
  "upd_where P f t = map (\<lambda>r. if P r then f r else r) t"

definition row_by :: "('r \<Rightarrow> 'k) \<Rightarrow> 'k \<Rightarrow> 'r list \<Rightarrow> 'r option" where
  "row_by key k t = List.find (\<lambda>r. key r = k) t"

definition returning :: "('r \<Rightarrow> bool) \<Rightarrow> ('r \<Rightarrow> 'a) \<Rightarrow> 'r list \<Rightarrow> 'a list" where
  "returning P f t = map f (filter P t)"

definition count_where :: "('r \<Rightarrow> bool) \<Rightarrow> 'r list \<Rightarrow> nat" where
  "count_where P t = length (filter P t)"

lemma row_by_Nil [simp]: "row_by key k [] = None"
  by (simp add: row_by_def)

lemma row_by_Cons [simp]:
  "row_by key k (r # t) = (if key r = k then Some r else row_by key k t)"
  by (simp add: row_by_def)

lemma row_by_append [table_simps]:
  "row_by key k (t @ u) = (case row_by key k t of None \<Rightarrow> row_by key k u | Some r \<Rightarrow> Some r)"
  by (induction t) auto

lemma row_by_SomeD: "row_by key k t = Some r \<Longrightarrow> r \<in> set t \<and> key r = k"
  by (induction t) (auto split: if_splits)

lemma row_by_None_iff: "row_by key k t = None \<longleftrightarrow> k \<notin> key ` set t"
  by (induction t) auto

lemma row_by_of_mem: "distinct (map key t) \<Longrightarrow> r \<in> set t \<Longrightarrow> row_by key (key r) t = Some r"
  by (induction t) (auto simp: image_iff)

lemma row_by_eq_iff:
  "distinct (map key t) \<Longrightarrow> row_by key k t = Some r \<longleftrightarrow> r \<in> set t \<and> key r = k"
  by (auto dest: row_by_SomeD intro: row_by_of_mem)

lemma upd_where_Nil [simp]: "upd_where P f [] = []"
  by (simp add: upd_where_def)

lemma upd_where_Cons [simp]:
  "upd_where P f (r # t) = (if P r then f r else r) # upd_where P f t"
  by (simp add: upd_where_def)

lemma row_by_upd_where [table_simps]:
  assumes "\<And>r. key (f r) = key r"
  shows "row_by key k (upd_where P f t) =
           map_option (\<lambda>r. if P r then f r else r) (row_by key k t)"
  using assms by (induction t) auto

lemma keys_upd_where [table_simps]:
  assumes "\<And>r. key (f r) = key r"
  shows "map key (upd_where P f t) = map key t"
  using assms by (induction t) auto

lemma set_upd_where: "set (upd_where P f t) = (\<lambda>r. if P r then f r else r) ` set t"
  by (simp add: upd_where_def)

lemma upd_where_id: "(\<And>r. r \<in> set t \<Longrightarrow> P r \<Longrightarrow> f r = r) \<Longrightarrow> upd_where P f t = t"
  by (induction t) auto

lemma upd_where_none: "(\<And>r. r \<in> set t \<Longrightarrow> \<not> P r) \<Longrightarrow> upd_where P f t = t"
  by (induction t) auto

lemma upd_where_cong: "(\<And>r. r \<in> set t \<Longrightarrow> P r = Q r) \<Longrightarrow> upd_where P f t = upd_where Q f t"
  by (induction t) auto

lemma row_by_unique:
  "distinct (map key t) \<Longrightarrow> row_by key k t = Some r \<Longrightarrow> x \<in> set t \<Longrightarrow> key x = k \<Longrightarrow> x = r"
  by (metis option.inject row_by_of_mem)

lemma count_upd_where_le:
  assumes "\<And>r. r \<in> set t \<Longrightarrow> P r \<Longrightarrow> Q (f r) \<Longrightarrow> Q r"
  shows "count_where Q (upd_where P f t) \<le> count_where Q t"
  using assms by (induction t) (auto simp: count_where_def le_SucI)

lemma count_upd_where_eq:
  assumes "\<And>r. r \<in> set t \<Longrightarrow> P r \<Longrightarrow> Q (f r) = Q r"
  shows "count_where Q (upd_where P f t) = count_where Q t"
  using assms by (induction t) (auto simp: count_where_def)

text \<open>An update that hits the row of one key adds at most that row to a count.\<close>

lemma count_upd_where_one:
  assumes "distinct (map key t)" and "\<And>r. P r \<Longrightarrow> key r = k"
  shows "count_where Q (upd_where P f t) \<le> Suc (count_where Q t)"
  using assms
proof (induction t)
  case Nil
  then show ?case by (simp add: count_where_def)
next
  case (Cons r t)
  show ?case
  proof (cases "P r")
    case True
    with Cons.prems have "\<And>x. x \<in> set t \<Longrightarrow> \<not> P x"
      by (metis distinct.simps(2) image_eqI list.simps(9) set_map)
    then have "upd_where P f t = t" by (rule upd_where_none)
    then show ?thesis by (simp add: count_where_def)
  next
    case False
    with Cons show ?thesis by (simp add: count_where_def)
  qed
qed

lemma count_upd_where_gain:
  assumes "distinct (map key t)" and "row_by key k t = Some r" and "\<not> Q r" and "Q (f r)"
  shows "count_where Q (upd_where (\<lambda>x. key x = k) f t) = Suc (count_where Q t)"
  using assms
proof (induction t)
  case (Cons a t)
  show ?case
  proof (cases "key a = k")
    case True
    with Cons.prems have "\<And>x. x \<in> set t \<Longrightarrow> key x \<noteq> k" by (auto simp: image_iff)
    then have "upd_where (\<lambda>x. key x = k) f t = t" by (rule upd_where_none)
    with True Cons.prems show ?thesis by (simp add: count_where_def)
  next
    case False
    with Cons show ?thesis by (simp add: count_where_def)
  qed
qed simp

lemma count_where_append [table_simps]: "count_where P (t @ u) = count_where P t + count_where P u"
  by (simp add: count_where_def)

lemma count_where_cong: "(\<And>r. r \<in> set t \<Longrightarrow> P r = Q r) \<Longrightarrow> count_where P t = count_where Q t"
  unfolding count_where_def by (metis filter_cong)

lemma mem_returning: "x \<in> set (returning P f t) \<longleftrightarrow> (\<exists>r \<in> set t. P r \<and> x = f r)"
  by (auto simp: returning_def)

lemma distinct_returning:
  "distinct (map key t) \<Longrightarrow> distinct (returning P key t)"
  unfolding returning_def by (induction t) auto

text \<open>A statement that hits the row of one key returns what the row says.\<close>

lemma returning_key:
  assumes "distinct (map key t)"
  shows "returning (\<lambda>r. key r = k \<and> P r) f t =
           (case row_by key k t of None \<Rightarrow> [] | Some r \<Rightarrow> if P r then [f r] else [])"
  using assms
proof (induction t)
  case (Cons a t)
  then have "key a = k \<Longrightarrow> row_by key k t = None"
    by (auto simp: row_by_None_iff)
  with Cons show ?case by (auto simp: returning_def)
qed (simp add: returning_def)

text \<open>One statement seen from one row; a sequence of statements is the composition.\<close>

definition on_row :: "('r \<Rightarrow> bool) \<Rightarrow> ('r \<Rightarrow> 'r) \<Rightarrow> 'r \<Rightarrow> 'r" where
  "on_row P f r = (if P r then f r else r)"

lemma upd_where_on_row: "upd_where P f t = map (on_row P f) t"
  by (simp add: upd_where_def on_row_def fun_eq_iff)

lemma on_row_hit: "P r \<Longrightarrow> on_row P f r = f r"
  and on_row_miss: "\<not> P r \<Longrightarrow> on_row P f r = r"
  by (simp_all add: on_row_def)

subsection \<open>Sums as Go's error returns\<close>

fun is_err :: "'e + 'a \<Rightarrow> bool" where
  "is_err (Inl _) = True"
| "is_err (Inr _) = False"

lemma is_err_iff: "is_err r \<longleftrightarrow> (\<exists>e. r = Inl e)"
  by (cases r) auto

lemma not_is_err_iff: "\<not> is_err r \<longleftrightarrow> (\<exists>x. r = Inr x)"
  by (cases r) auto

end
