(* ===== verification/Schema.thy ===== *)
theory Schema
  imports Prelude
begin

text \<open>
  The data the orchestrator keeps: the statuses, rows and tables of PostgreSQL
  (\<^verbatim>\<open>internal/db/migrations\<close>), the Go structs read from them
  (\<^verbatim>\<open>sandbox/model.go\<close>, \<^verbatim>\<open>worker/model.go\<close>), the job arguments handed to the
  River queue, and the errors the repositories return.  The database is one record;
  \<open>clock\<close> is its \<^verbatim>\<open>now()\<close>, and \<open>jobs\<close> is the log of every job inserted in it.
\<close>

subsection \<open>Sandbox statuses\<close>

datatype Status =
    StatusPending
  | StatusScheduling
  | StatusAssigned
  | StatusStarting
  | StatusRunning
  | StatusStopped
  | StatusFailed
  | StatusCleanupPending
  | StatusCleanedUp
  | StatusOther string

text \<open>A status is stored as text; any other text is still a value of Go's \<^verbatim>\<open>Status\<close> type.\<close>

fun status_text :: "Status \<Rightarrow> string" where
  "status_text StatusPending = ''pending''"
| "status_text StatusScheduling = ''scheduling''"
| "status_text StatusAssigned = ''assigned''"
| "status_text StatusStarting = ''starting''"
| "status_text StatusRunning = ''running''"
| "status_text StatusStopped = ''stopped''"
| "status_text StatusFailed = ''failed''"
| "status_text StatusCleanupPending = ''cleanup_pending''"
| "status_text StatusCleanedUp = ''cleaned_up''"
| "status_text (StatusOther t) = t"

definition status_of_text :: "string \<Rightarrow> Status" where
  "status_of_text t =
     (if t = ''pending'' then StatusPending
      else if t = ''scheduling'' then StatusScheduling
      else if t = ''assigned'' then StatusAssigned
      else if t = ''starting'' then StatusStarting
      else if t = ''running'' then StatusRunning
      else if t = ''stopped'' then StatusStopped
      else if t = ''failed'' then StatusFailed
      else if t = ''cleanup_pending'' then StatusCleanupPending
      else if t = ''cleaned_up'' then StatusCleanedUp
      else StatusOther t)"

lemma status_text_of_text [simp]: "status_text (status_of_text t) = t"
  by (simp add: status_of_text_def)

lemma status_of_text_literals [simp]:
  "status_of_text ''stopped'' = StatusStopped"
  "status_of_text ''failed'' = StatusFailed"
  by (simp_all add: status_of_text_def)

subsection \<open>Sandboxes\<close>

record Sandbox =
  ID :: string
  Runtime :: string
  sbx_Status :: Status
  TTL :: int
  CreatedAt :: time
  Port :: int
  PreviewURL :: string
  Image :: string
  WorkerID :: "string option"
  VcpuCount :: int
  MemSizeMib :: int
  UserID :: "string option"

text \<open>A row of \<^verbatim>\<open>sandboxes\<close> has one column the Go struct does not read.\<close>

record sandbox_row = Sandbox +
  last_seen_at :: "time option"

definition zero_Sandbox :: Sandbox where
  "zero_Sandbox = \<lparr>ID = [], Runtime = [], sbx_Status = StatusOther [], TTL = 0,
     CreatedAt = zero_time, Port = 0, PreviewURL = [], Image = [], WorkerID = None,
     VcpuCount = 0, MemSizeMib = 0, UserID = None\<rparr>"

definition scanSandbox :: "sandbox_row \<Rightarrow> Sandbox" where
  "scanSandbox r = \<lparr>ID = ID r, Runtime = Runtime r, sbx_Status = sbx_Status r, TTL = TTL r,
     CreatedAt = CreatedAt r, Port = Port r, PreviewURL = PreviewURL r, Image = Image r,
     WorkerID = WorkerID r, VcpuCount = VcpuCount r, MemSizeMib = MemSizeMib r,
     UserID = UserID r\<rparr>"

lemma scanSandbox_sel [simp]:
  "ID (scanSandbox r) = ID r" "sbx_Status (scanSandbox r) = sbx_Status r"
  "WorkerID (scanSandbox r) = WorkerID r" "UserID (scanSandbox r) = UserID r"
  "TTL (scanSandbox r) = TTL r" "CreatedAt (scanSandbox r) = CreatedAt r"
  "Runtime (scanSandbox r) = Runtime r" "VcpuCount (scanSandbox r) = VcpuCount r"
  "MemSizeMib (scanSandbox r) = MemSizeMib r"
  by (simp_all add: scanSandbox_def)

lemma zero_Sandbox_sel [simp]: "WorkerID zero_Sandbox = None"
  by (simp add: zero_Sandbox_def)

subsection \<open>Workers\<close>

type_synonym WorkerStatus = string

definition WorkerStatusActive :: WorkerStatus where "WorkerStatusActive = ''active''"
definition WorkerStatusInactive :: WorkerStatus where "WorkerStatusInactive = ''inactive''"

lemma worker_statuses_differ [simp]:
  "WorkerStatusInactive \<noteq> WorkerStatusActive" "WorkerStatusActive \<noteq> WorkerStatusInactive"
  by (simp_all add: WorkerStatusActive_def WorkerStatusInactive_def)

record Worker_Budget =
  Cpu_budget :: int
  Mem_budget :: int

record Worker =
  wID :: string
  Address :: string
  wPort :: int
  wStatus :: WorkerStatus
  Budget :: Worker_Budget
  Capacity :: int
  FencingToken :: int
  Last_heartbeat :: time
  running_sandboxes :: int
  cpu_usage :: int
  mem_usage :: int

record worker_row =
  wr_id :: string
  wr_status :: WorkerStatus
  wr_address :: string
  wr_capacity :: int
  wr_port :: "int option"
  wr_cpu_budget :: int
  wr_mem_budget :: int
  wr_cpu_usage :: int
  wr_mem_usage :: int
  wr_last_heartbeat :: time
  wr_fencing_token :: int
  wr_inventory_token :: int
  wr_registered_at :: time
  wr_inactive_since :: "time option"

subsection \<open>Events and jobs\<close>

record SandboxEvent =
  ev_ID :: string
  ev_SandboxID :: string
  ev_WorkerID :: string
  ev_State :: string
  ev_OccurredAt :: time
  ev_FencingToken :: int

datatype job_args =
    CreateSandboxArgs string
  | CleanupSandboxArgs string string
  | RemoveOrphanArgs string string
  | ReapWorkersArgs
  | ReapSandboxArgs

fun Kind :: "job_args \<Rightarrow> string" where
  "Kind (CreateSandboxArgs _) = ''create_sandbox''"
| "Kind (CleanupSandboxArgs _ _) = ''cleanup_sandbox''"
| "Kind (RemoveOrphanArgs _ _) = ''remove_orphan_sandbox''"
| "Kind ReapWorkersArgs = ''reap_workers''"
| "Kind ReapSandboxArgs = ''reap_sandbox''"

datatype JobState =
    JobStateAvailable
  | JobStateCancelled
  | JobStateCompleted
  | JobStateDiscarded
  | JobStatePending
  | JobStateRetryable
  | JobStateRunning
  | JobStateScheduled

record InsertOpts =
  Queue :: string
  ByArgs :: bool
  ByState :: "JobState list"

text \<open>One inserted job: its arguments and the options given, or \<open>None\<close> for the defaults.\<close>

type_synonym job_insert = "job_args \<times> InsertOpts option"

subsection \<open>Users and sessions\<close>

record User =
  usr_ID :: string
  Email :: string
  PasswordHash :: string
  usr_CreatedAt :: time

record Session =
  Token :: string
  ses_UserID :: string
  ses_CreatedAt :: time
  ExpiresAt :: "time option"

subsection \<open>The database\<close>

record db =
  clock :: time
  sandboxes :: "sandbox_row list"
  workers :: "worker_row list"
  sandbox_events :: "SandboxEvent list"
  users :: "User list"
  sessions :: "Session list"
  jobs :: "job_insert list"

datatype repo_error =
    ErrNotFound
  | ErrWorkerFull
  | ErrFenced
  | ErrWorkerUnknown
  | ErrEventFenced
  | ErrAllowedFromRequired
  | ErrAssignWorkerNotFound string
  | ErrTimeoutNotPositive
  | ErrUniqueViolation
  | ErrEmailTaken
  | ErrForeignKeyViolation
  | ErrOutOfRange
  | ErrDriver

text \<open>A repository call: what it returns, and the database it leaves.\<close>

type_synonym 'a dbop = "db \<Rightarrow> (repo_error + 'a) \<times> db"

abbreviation sandbox_row_of :: "string \<Rightarrow> db \<Rightarrow> sandbox_row option" where
  "sandbox_row_of i d \<equiv> row_by ID i (sandboxes d)"

abbreviation worker_row_of :: "string \<Rightarrow> db \<Rightarrow> worker_row option" where
  "worker_row_of w d \<equiv> row_by wr_id w (workers d)"

definition update_sandboxes :: "(sandbox_row \<Rightarrow> bool) \<Rightarrow> (sandbox_row \<Rightarrow> sandbox_row) \<Rightarrow> db \<Rightarrow> db" where
  "update_sandboxes P f d = d\<lparr>sandboxes := upd_where P f (sandboxes d)\<rparr>"

definition update_workers :: "(worker_row \<Rightarrow> bool) \<Rightarrow> (worker_row \<Rightarrow> worker_row) \<Rightarrow> db \<Rightarrow> db" where
  "update_workers P f d = d\<lparr>workers := upd_where P f (workers d)\<rparr>"

definition insert_jobs :: "job_insert list \<Rightarrow> db \<Rightarrow> db" where
  "insert_jobs js d = d\<lparr>jobs := jobs d @ js\<rparr>"

lemma update_sandboxes_sel [simp]:
  "clock (update_sandboxes P f d) = clock d" "workers (update_sandboxes P f d) = workers d"
  "sandbox_events (update_sandboxes P f d) = sandbox_events d" "jobs (update_sandboxes P f d) = jobs d"
  "users (update_sandboxes P f d) = users d" "sessions (update_sandboxes P f d) = sessions d"
  "sandboxes (update_sandboxes P f d) = upd_where P f (sandboxes d)"
  by (simp_all add: update_sandboxes_def)

lemma update_workers_sel [simp]:
  "clock (update_workers P f d) = clock d" "sandboxes (update_workers P f d) = sandboxes d"
  "sandbox_events (update_workers P f d) = sandbox_events d" "jobs (update_workers P f d) = jobs d"
  "users (update_workers P f d) = users d" "sessions (update_workers P f d) = sessions d"
  "workers (update_workers P f d) = upd_where P f (workers d)"
  by (simp_all add: update_workers_def)

lemma insert_jobs_sel [simp]:
  "clock (insert_jobs js d) = clock d" "sandboxes (insert_jobs js d) = sandboxes d"
  "workers (insert_jobs js d) = workers d" "sandbox_events (insert_jobs js d) = sandbox_events d"
  "users (insert_jobs js d) = users d" "sessions (insert_jobs js d) = sessions d"
  "jobs (insert_jobs js d) = jobs d @ js"
  by (simp_all add: insert_jobs_def)

end
