(* ===== verification/Transitions.thy ===== *)
theory Transitions
  imports Schema
begin

text \<open>
  The sandbox state machine and what every database operation promises about it.
  \<open>status_step\<close> has one rule per transition the code makes; \<open>row_step\<close> says how one row
  may evolve, \<open>legal_db\<close> how a whole database may, and \<open>wf_db\<close> is the well-formedness of a
  database.  The locale \<open>db_operation\<close> is the contract of an operation: from a well-formed
  database it makes legal transitions only and leaves a well-formed database.  Its
  consequences (an ended sandbox never changes status, a sandbox never changes worker, a
  fencing token never decreases) are proved once, in the locale, and hold of every
  operation interpreted below.
\<close>

subsection \<open>The state machine\<close>

abbreviation in_flight :: "Status set" where
  "in_flight \<equiv> {StatusPending, StatusScheduling, StatusAssigned, StatusStarting, StatusRunning}"

abbreviation active_statuses :: "Status set" where
  "active_statuses \<equiv> {StatusAssigned, StatusStarting, StatusRunning}"

abbreviation terminal :: "Status set" where
  "terminal \<equiv> {StatusStopped, StatusFailed, StatusCleanedUp}"

inductive status_step :: "Status \<Rightarrow> Status \<Rightarrow> bool" where
  schedule: "status_step StatusPending StatusScheduling"
| assign: "status_step StatusScheduling StatusAssigned"
| start: "status_step StatusAssigned StatusStarting"
| come_up: "status_step StatusStarting StatusRunning"
| claim: "s \<in> in_flight \<Longrightarrow> status_step s StatusCleanupPending"
| finish: "s \<in> in_flight \<or> s = StatusCleanupPending \<Longrightarrow> t \<in> {StatusStopped, StatusFailed} \<Longrightarrow>
     status_step s t"

inductive_cases status_step_from_terminal:
  "status_step StatusStopped t" "status_step StatusFailed t" "status_step StatusCleanedUp t"

abbreviation status_reach :: "Status \<Rightarrow> Status \<Rightarrow> bool" where
  "status_reach \<equiv> status_step\<^sup>*\<^sup>*"

fun status_rank :: "Status \<Rightarrow> nat" where
  "status_rank StatusPending = 0"
| "status_rank StatusScheduling = 1"
| "status_rank StatusAssigned = 2"
| "status_rank StatusStarting = 3"
| "status_rank StatusRunning = 4"
| "status_rank StatusCleanupPending = 5"
| "status_rank _ = 6"

lemma status_step_rank: "status_step s t \<Longrightarrow> status_rank s < status_rank t"
  by (induction rule: status_step.induct) auto

lemma status_reach_rank: "status_reach s t \<Longrightarrow> s = t \<or> status_rank s < status_rank t"
  by (induction rule: rtranclp_induct) (auto dest: status_step_rank)

lemma status_reach_antisym: "status_reach s t \<Longrightarrow> status_reach t s \<Longrightarrow> s = t"
  by (auto dest!: status_reach_rank)

lemma terminal_final: "s \<in> terminal \<Longrightarrow> status_reach s t \<Longrightarrow> t = s"
proof -
  assume s: "s \<in> terminal" and r: "status_reach s t"
  from r show "t = s"
  proof (cases rule: converse_rtranclpE)
    case (step u)
    with s show ?thesis by (auto elim: status_step_from_terminal)
  qed simp
qed

lemma status_reach_step: "status_step s t \<Longrightarrow> status_reach s t"
  by auto

lemma claim_reach [simp]: "s \<in> in_flight \<Longrightarrow> status_reach s StatusCleanupPending"
  by (rule status_reach_step) (rule status_step.claim)

text \<open>The statuses before a worker is chosen, and those after the sandbox is over.\<close>

definition unassigned :: "Status \<Rightarrow> bool" where
  "unassigned s \<longleftrightarrow> s = StatusPending \<or> s = StatusScheduling"

lemma reach_unassigned: "status_reach s t \<Longrightarrow> unassigned t \<Longrightarrow> unassigned s"
  using status_reach_rank [of s t] by (cases s) (auto simp: unassigned_def)

definition assigned_or_up :: "Status \<Rightarrow> bool" where
  "assigned_or_up s \<longleftrightarrow> s \<in> active_statuses"

definition ended :: "Status \<Rightarrow> bool" where
  "ended s \<longleftrightarrow> s = StatusCleanupPending \<or> s \<in> terminal"

lemma ended_not_unassigned: "ended s \<Longrightarrow> \<not> unassigned s"
  by (auto simp: ended_def unassigned_def)

lemma ended_reach:
  assumes "status_reach s t" and "ended s"
  shows "ended t"
proof (cases "s = StatusCleanupPending")
  case True
  from assms(1) [unfolded True] show ?thesis
  proof (induction rule: rtranclp_induct)
    case base
    then show ?case by (simp add: ended_def)
  next
    case (step y z)
    then show ?case
      by (auto simp: ended_def elim: status_step.cases)
  qed
next
  case False
  with assms terminal_final [of s t] show ?thesis by (auto simp: ended_def)
qed

subsection \<open>Evolution of a row\<close>

definition same_identity :: "sandbox_row \<Rightarrow> sandbox_row \<Rightarrow> bool" where
  "same_identity r r' \<longleftrightarrow>
     ID r' = ID r \<and> Runtime r' = Runtime r \<and> TTL r' = TTL r \<and> CreatedAt r' = CreatedAt r
     \<and> Port r' = Port r \<and> PreviewURL r' = PreviewURL r \<and> Image r' = Image r
     \<and> VcpuCount r' = VcpuCount r \<and> MemSizeMib r' = MemSizeMib r \<and> UserID r' = UserID r"

text \<open>The link to a worker is set once, when the sandbox leaves \<^verbatim>\<open>scheduling\<close>, and dropped at the
  end; it never goes from one worker to another.\<close>

definition worker_link_ok :: "sandbox_row \<Rightarrow> sandbox_row \<Rightarrow> bool" where
  "worker_link_ok r r' \<longleftrightarrow>
     WorkerID r' = WorkerID r
     \<or> (WorkerID r = None \<and> unassigned (sbx_Status r) \<and> \<not> unassigned (sbx_Status r'))
     \<or> (WorkerID r' = None \<and> ended (sbx_Status r'))"

definition row_step :: "sandbox_row \<Rightarrow> sandbox_row \<Rightarrow> bool" where
  "row_step r r' \<longleftrightarrow>
     same_identity r r' \<and> status_reach (sbx_Status r) (sbx_Status r') \<and> worker_link_ok r r'"

lemma same_identity_refl [simp]: "same_identity r r"
  by (simp add: same_identity_def)

lemma same_identity_trans: "same_identity a b \<Longrightarrow> same_identity b c \<Longrightarrow> same_identity a c"
  by (simp add: same_identity_def)

lemma row_step_refl [simp]: "row_step r r"
  by (simp add: row_step_def worker_link_ok_def)

lemma row_step_trans:
  assumes "row_step a b" and "row_step b c"
  shows "row_step a c"
proof -
  from assms have reach: "status_reach (sbx_Status a) (sbx_Status b)"
      "status_reach (sbx_Status b) (sbx_Status c)"
    by (simp_all add: row_step_def)
  have "worker_link_ok a c"
    using assms reach_unassigned [OF reach(1)] reach_unassigned [OF reach(2)]
      ended_reach [OF reach(2)] ended_not_unassigned [of "sbx_Status b"]
    unfolding row_step_def worker_link_ok_def by metis
  moreover have "same_identity a c"
    using assms same_identity_trans by (auto simp: row_step_def)
  moreover from reach have "status_reach (sbx_Status a) (sbx_Status c)"
    by (rule rtranclp_trans)
  ultimately show ?thesis by (simp add: row_step_def)
qed

lemma row_step_status: "status_reach (sbx_Status r) st \<Longrightarrow> row_step r (r\<lparr>sbx_Status := st\<rparr>)"
  by (simp add: row_step_def same_identity_def worker_link_ok_def)

lemma row_step_seen [simp]: "row_step r (r\<lparr>last_seen_at := t\<rparr>)"
  by (simp add: row_step_def same_identity_def worker_link_ok_def)

lemma row_step_clear: "ended (sbx_Status r) \<Longrightarrow> row_step r (r\<lparr>WorkerID := None\<rparr>)"
  by (simp add: row_step_def same_identity_def worker_link_ok_def)

lemma row_step_assign:
  "sbx_Status r = StatusScheduling \<Longrightarrow> WorkerID r = None \<Longrightarrow>
     row_step r (r\<lparr>WorkerID := Some w, sbx_Status := StatusAssigned, last_seen_at := t\<rparr>)"
  by (auto simp: row_step_def same_identity_def worker_link_ok_def unassigned_def
      intro: status_reach_step status_step.assign)

lemma row_step_ended: "row_step r r' \<Longrightarrow> ended (sbx_Status r) \<Longrightarrow> ended (sbx_Status r')"
  by (auto simp: row_step_def intro: ended_reach)

lemma row_step_same_worker:
  "row_step r r' \<Longrightarrow> WorkerID r = Some w \<Longrightarrow> WorkerID r' = Some w \<or> WorkerID r' = None"
  by (auto simp: row_step_def worker_link_ok_def)

subsection \<open>Evolution of the database\<close>

text \<open>The tokens of a worker only grow.\<close>

definition tokens_grow :: "worker_row \<Rightarrow> worker_row \<Rightarrow> bool" where
  "tokens_grow wr wr' \<longleftrightarrow>
     wr_fencing_token wr \<le> wr_fencing_token wr' \<and> wr_inventory_token wr \<le> wr_inventory_token wr'"

lemma tokens_grow_refl [simp]: "tokens_grow r r"
  by (simp add: tokens_grow_def)

lemma tokens_grow_trans: "tokens_grow a b \<Longrightarrow> tokens_grow b c \<Longrightarrow> tokens_grow a c"
  by (simp add: tokens_grow_def)

definition legal_db :: "db \<Rightarrow> db \<Rightarrow> bool" where
  "legal_db d d' \<longleftrightarrow>
     (\<forall>i r. sandbox_row_of i d = Some r \<longrightarrow>
        (\<exists>r'. sandbox_row_of i d' = Some r' \<and> row_step r r'))
     \<and> (\<forall>w wr. worker_row_of w d = Some wr \<longrightarrow>
        (\<exists>wr'. worker_row_of w d' = Some wr' \<and> tokens_grow wr wr'))
     \<and> clock d \<le> clock d' \<and> (\<exists>js. jobs d' = jobs d @ js)"

lemma legal_db_refl [simp, legal_intros]: "legal_db d d"
  by (simp add: legal_db_def)

lemma legal_db_trans:
  assumes "legal_db a b" and "legal_db b c"
  shows "legal_db a c"
  unfolding legal_db_def
proof (intro conjI allI impI)
  fix i r assume "sandbox_row_of i a = Some r"
  with assms obtain r' r'' where "row_step r r'" "sandbox_row_of i c = Some r''" "row_step r' r''"
    unfolding legal_db_def by meson
  then show "\<exists>r'. sandbox_row_of i c = Some r' \<and> row_step r r'"
    by (blast intro: row_step_trans)
next
  fix w wr assume "worker_row_of w a = Some wr"
  with assms show "\<exists>wr'. worker_row_of w c = Some wr' \<and> tokens_grow wr wr'"
    unfolding legal_db_def by (meson tokens_grow_trans)
next
  from assms show "clock a \<le> clock c" by (auto simp: legal_db_def)
  from assms show "\<exists>js. jobs c = jobs a @ js" by (force simp: legal_db_def)
qed

lemma legal_update_sandboxes:
  assumes "\<And>r. ID (f r) = ID r" and "\<And>r. r \<in> set (sandboxes d) \<Longrightarrow> P r \<Longrightarrow> row_step r (f r)"
  shows "legal_db d (update_sandboxes P f d)"
  using assms
  by (auto simp: legal_db_def row_by_upd_where dest: row_by_SomeD)

lemma legal_insert_jobs [simp, legal_intros]: "legal_db d (insert_jobs js d)"
  by (simp add: legal_db_def)

lemma legal_db_rowD:
  assumes "legal_db d d'" and "sandbox_row_of i d = Some r"
  obtains r' where "sandbox_row_of i d' = Some r'" and "row_step r r'"
  using assms unfolding legal_db_def by blast

lemma legal_db_workerD:
  assumes "legal_db d d'" and "worker_row_of w d = Some wr"
  obtains wr' where "worker_row_of w d' = Some wr'" and "tokens_grow wr wr'"
  using assms unfolding legal_db_def by blast

subsection \<open>Well-formed databases\<close>

text \<open>A status column holds one of the constants, never another text.\<close>

fun known_status :: "Status \<Rightarrow> bool" where
  "known_status (StatusOther _) = False"
| "known_status _ = True"

lemma known_ended: "known_status s \<Longrightarrow> s \<notin> in_flight \<longleftrightarrow> ended s"
  by (cases s) (auto simp: ended_def)

definition row_ok :: "string set \<Rightarrow> sandbox_row \<Rightarrow> bool" where
  "row_ok ws r \<longleftrightarrow>
     (\<forall>w. WorkerID r = Some w \<longrightarrow> w \<in> ws)
     \<and> (unassigned (sbx_Status r) \<longrightarrow> WorkerID r = None)
     \<and> (assigned_or_up (sbx_Status r) \<longrightarrow> WorkerID r \<noteq> None)
     \<and> known_status (sbx_Status r)"

definition worker_row_ok :: "worker_row \<Rightarrow> bool" where
  "worker_row_ok w \<longleftrightarrow> 0 \<le> wr_inventory_token w \<and> wr_inventory_token w \<le> wr_fencing_token w"

definition wf_db :: "db \<Rightarrow> bool" where
  "wf_db d \<longleftrightarrow>
     distinct (map ID (sandboxes d)) \<and> distinct (map wr_id (workers d))
     \<and> (\<forall>r \<in> set (sandboxes d). row_ok (wr_id ` set (workers d)) r)
     \<and> (\<forall>w \<in> set (workers d). worker_row_ok w)"

lemma wf_db_distinct: "wf_db d \<Longrightarrow> distinct (map ID (sandboxes d))"
  and wf_db_distinct_workers: "wf_db d \<Longrightarrow> distinct (map wr_id (workers d))"
  and wf_db_row: "wf_db d \<Longrightarrow> r \<in> set (sandboxes d) \<Longrightarrow> row_ok (wr_id ` set (workers d)) r"
  by (simp_all add: wf_db_def)

lemma wf_insert_jobs [simp]: "wf_db (insert_jobs js d) = wf_db d"
  by (simp add: wf_db_def)

lemma wf_update_sandboxes:
  assumes "wf_db d" and "\<And>r. ID (f r) = ID r"
    and "\<And>r. r \<in> set (sandboxes d) \<Longrightarrow> P r \<Longrightarrow> row_ok (wr_id ` set (workers d)) r \<Longrightarrow>
           row_ok (wr_id ` set (workers d)) (f r)"
  shows "wf_db (update_sandboxes P f d)"
  using assms
  by (auto simp: wf_db_def keys_upd_where set_upd_where)

lemma row_ok_seen [simp]: "row_ok ws (r\<lparr>last_seen_at := t\<rparr>) = row_ok ws r"
  by (simp add: row_ok_def)

lemma row_ok_cleanup: "row_ok ws r \<Longrightarrow> row_ok ws (r\<lparr>sbx_Status := StatusCleanupPending\<rparr>)"
  by (simp add: row_ok_def unassigned_def assigned_or_up_def)

text \<open>A status change keeps a row well formed when it stays on one side of the assignment,
  or goes to a status that puts no condition on the worker.\<close>

definition status_change_ok :: "Status \<Rightarrow> Status \<Rightarrow> bool" where
  "status_change_ok s t \<longleftrightarrow>
     (unassigned t \<longrightarrow> unassigned s)
     \<and> (assigned_or_up t \<longrightarrow> assigned_or_up s)
     \<and> (known_status s \<longrightarrow> known_status t)"

lemma row_ok_status:
  "status_change_ok (sbx_Status r) st \<Longrightarrow> row_ok ws r \<Longrightarrow> row_ok ws (r\<lparr>sbx_Status := st\<rparr>)"
  by (auto simp: row_ok_def status_change_ok_def)

lemma status_change_ok_ended [simp]: "ended t \<Longrightarrow> status_change_ok s t"
  by (auto simp: ended_def status_change_ok_def unassigned_def assigned_or_up_def)

subsection \<open>The contract of a database operation\<close>

locale db_operation =
  fixes oper :: "db \<Rightarrow> 'r \<times> db"
  assumes legal: "wf_db d \<Longrightarrow> legal_db d (snd (oper d))"
    and keeps_wf: "wf_db d \<Longrightarrow> wf_db (snd (oper d))"
begin

lemma ended_stays_ended:
  assumes "wf_db d" and "sandbox_row_of i d = Some r" and "ended (sbx_Status r)"
  shows "\<exists>r'. sandbox_row_of i (snd (oper d)) = Some r' \<and> ended (sbx_Status r')"
proof -
  obtain r' where "sandbox_row_of i (snd (oper d)) = Some r'" "row_step r r'"
    by (rule legal_db_rowD [OF legal [OF assms(1)] assms(2)])
  with assms(3) row_step_ended show ?thesis by blast
qed

lemma terminal_stays:
  assumes "wf_db d" and "sandbox_row_of i d = Some r" and "sbx_Status r \<in> terminal"
  shows "\<exists>r'. sandbox_row_of i (snd (oper d)) = Some r' \<and> sbx_Status r' = sbx_Status r"
proof -
  obtain r' where "sandbox_row_of i (snd (oper d)) = Some r'" "row_step r r'"
    by (rule legal_db_rowD [OF legal [OF assms(1)] assms(2)])
  with assms(3) terminal_final show ?thesis by (auto simp: row_step_def)
qed

lemma never_backwards:
  assumes "wf_db d" and "sandbox_row_of i d = Some r"
  shows "\<exists>r'. sandbox_row_of i (snd (oper d)) = Some r'
           \<and> (sbx_Status r' = sbx_Status r \<or> status_rank (sbx_Status r) < status_rank (sbx_Status r'))"
proof -
  obtain r' where "sandbox_row_of i (snd (oper d)) = Some r'" "row_step r r'"
    by (rule legal_db_rowD [OF legal [OF assms(1)] assms(2)])
  then show ?thesis
    using status_reach_rank [of "sbx_Status r" "sbx_Status r'"] by (auto simp: row_step_def)
qed

lemma never_swaps_worker:
  assumes "wf_db d" and "sandbox_row_of i d = Some r" and "WorkerID r = Some w"
  shows "\<exists>r'. sandbox_row_of i (snd (oper d)) = Some r' \<and> WorkerID r' \<in> {Some w, None}"
proof -
  obtain r' where "sandbox_row_of i (snd (oper d)) = Some r'" "row_step r r'"
    by (rule legal_db_rowD [OF legal [OF assms(1)] assms(2)])
  with assms(3) row_step_same_worker show ?thesis by blast
qed

lemma token_monotone:
  assumes "wf_db d" and "worker_row_of w d = Some wr"
  shows "\<exists>wr'. worker_row_of w (snd (oper d)) = Some wr'
           \<and> wr_fencing_token wr \<le> wr_fencing_token wr'"
  using legal [OF assms(1)] assms(2) by (fastforce simp: legal_db_def tokens_grow_def)

end

end
