(* ===== verification/Sandbox_Repository.thy ===== *)
theory Sandbox_Repository
  imports Transitions
begin

text \<open>
  \<^verbatim>\<open>internal/packages/sandbox\<close>: the repository of sandbox rows.  Every method is one
  database operation; the statement's \<^verbatim>\<open>WHERE\<close> clause is a predicate on rows and its
  \<^verbatim>\<open>SET\<close> clause a row update.  Rows a concurrent transaction has locked are the
  argument \<open>locked\<close> of the operations that skip them.
\<close>

subsection \<open>repository\_postgres.go\<close>

text \<open>\<^verbatim>\<open>id\<close> is the primary key; \<^verbatim>\<open>worker_id\<close> and \<^verbatim>\<open>user_id\<close> are foreign keys.\<close>

definition sbx_Create :: "Sandbox \<Rightarrow> Sandbox dbop" where
  "sbx_Create s d =
     (if ID s \<in> ID ` set (sandboxes d) then (Inl ErrUniqueViolation, d)
      else if (case WorkerID s of None \<Rightarrow> False | Some w \<Rightarrow> w \<notin> wr_id ` set (workers d))
              \<or> (case UserID s of None \<Rightarrow> False | Some u \<Rightarrow> u \<notin> usr_ID ` set (users d))
           then (Inl ErrForeignKeyViolation, d)
      else let r = Sandbox.extend s \<lparr>last_seen_at = None\<rparr>
           in (Inr (scanSandbox r), d\<lparr>sandboxes := sandboxes d @ [r]\<rparr>))"

definition GetByID :: "string \<Rightarrow> Sandbox dbop" where
  "GetByID i d =
     (case sandbox_row_of i d of
        None \<Rightarrow> (Inl ErrNotFound, d)
      | Some r \<Rightarrow> (Inr (scanSandbox r), d))"

definition order_newest_first :: "sandbox_row list \<Rightarrow> sandbox_row list" where
  "order_newest_first rs = sort_key (\<lambda>r. - CreatedAt r) rs"

definition sbx_List :: "Sandbox list dbop" where
  "sbx_List d = (Inr (map scanSandbox (order_newest_first (sandboxes d))), d)"

definition ListByUserID :: "string \<Rightarrow> Sandbox list dbop" where
  "ListByUserID u d =
     (Inr (map scanSandbox (order_newest_first (filter (\<lambda>r. UserID r = Some u) (sandboxes d)))), d)"

definition UpdateStatus :: "string \<Rightarrow> Status \<Rightarrow> Status list \<Rightarrow> (Sandbox \<times> int) dbop" where
  "UpdateStatus i st allowedFrom d =
     (if allowedFrom = [] then (Inl ErrAllowedFromRequired, d)
      else let hit = (\<lambda>r. ID r = i \<and> sbx_Status r \<in> set allowedFrom);
               upd = (\<lambda>r. r\<lparr>sbx_Status := st\<rparr>)
           in case returning hit upd (sandboxes d) of
                [] \<Rightarrow> (Inr (zero_Sandbox, 0), d)
              | r # _ \<Rightarrow> (Inr (scanSandbox r, 1), update_sandboxes hit upd d))"

text \<open>
  The rows that hold a slot of a worker: \<^verbatim>\<open>cleanup_pending\<close> still holds its VM until the
  cleanup job clears \<^verbatim>\<open>worker_id\<close>.
\<close>

definition holds_slot :: "string \<Rightarrow> sandbox_row \<Rightarrow> bool" where
  "holds_slot w r \<longleftrightarrow> WorkerID r = Some w \<and>
     sbx_Status r \<in> {StatusAssigned, StatusStarting, StatusRunning, StatusCleanupPending}"

definition occupancy :: "string \<Rightarrow> db \<Rightarrow> nat" where
  "occupancy w d = count_where (holds_slot w) (sandboxes d)"

definition assign_to :: "string \<Rightarrow> time \<Rightarrow> sandbox_row \<Rightarrow> sandbox_row" where
  "assign_to w now r = r\<lparr>WorkerID := Some w, sbx_Status := StatusAssigned, last_seen_at := Some now\<rparr>"

definition AssignWorker :: "string \<Rightarrow> string \<Rightarrow> Sandbox dbop" where
  "AssignWorker i w d =
     (case worker_row_of w d of
        None \<Rightarrow> (Inl (ErrAssignWorkerNotFound w), d)
      | Some wr \<Rightarrow>
          (let hit = (\<lambda>r. ID r = i \<and> sbx_Status r = StatusScheduling
                          \<and> int (occupancy w d) < wr_capacity wr);
               upd = assign_to w (clock d)
           in case returning hit upd (sandboxes d) of
                r # _ \<Rightarrow> (Inr (scanSandbox r), update_sandboxes hit upd d)
              | [] \<Rightarrow>
                  (case sandbox_row_of i d of
                     None \<Rightarrow> (Inl ErrNotFound, d)
                   | Some r \<Rightarrow>
                       if sbx_Status r = StatusScheduling then (Inl ErrWorkerFull, d)
                       else (Inr zero_Sandbox, d))))"

definition ClearWorker :: "string \<Rightarrow> unit dbop" where
  "ClearWorker i d =
     (Inr (), update_sandboxes (\<lambda>r. ID r = i \<and> sbx_Status r = StatusCleanupPending)
                (\<lambda>r. r\<lparr>WorkerID := None\<rparr>) d)"

definition sbx_Delete :: "string \<Rightarrow> unit dbop" where
  "sbx_Delete i d = (Inr (), d\<lparr>sandboxes := filter (\<lambda>r. ID r \<noteq> i) (sandboxes d)\<rparr>)"

subsection \<open>repository\_reconcile.go\<close>

record Inventory =
  Live :: "string list"
  Running :: "string list"
  Unknown :: "string list"
  Dead :: "string list"

definition IDs :: "Inventory \<Rightarrow> string list" where
  "IDs iv = Live iv @ Running iv @ Unknown iv @ Dead iv"

record ReconcileResult =
  Orphans :: "string list"
  Lost :: "string list"
  res_Dead :: "string list"

definition UpdateStatusFenced ::
    "string \<Rightarrow> string \<Rightarrow> int \<Rightarrow> Status \<Rightarrow> Status list \<Rightarrow> int dbop" where
  "UpdateStatusFenced i w token st allowedFrom d =
     (if allowedFrom = [] then (Inl ErrAllowedFromRequired, d)
      else let hit = (\<lambda>r. ID r = i \<and> WorkerID r = Some w
                \<and> (\<exists>wr \<in> set (workers d). wr_id wr = w \<and> wr_fencing_token wr = token)
                \<and> sbx_Status r \<in> set allowedFrom)
           in (Inr (int (count_where hit (sandboxes d))),
               update_sandboxes hit (\<lambda>r. r\<lparr>sbx_Status := st\<rparr>) d))"

text \<open>The shape of every claim: the matching unlocked rows go to \<^verbatim>\<open>cleanup_pending\<close>, and their
  identifiers are returned.\<close>

definition to_cleanup :: "sandbox_row \<Rightarrow> sandbox_row" where
  "to_cleanup r = r\<lparr>sbx_Status := StatusCleanupPending\<rparr>"

definition claim_to_cleanup ::
    "(string \<Rightarrow> bool) \<Rightarrow> (sandbox_row \<Rightarrow> bool) \<Rightarrow> string list dbop" where
  "claim_to_cleanup locked P d =
     (let hit = (\<lambda>r. P r \<and> \<not> locked (ID r))
      in (Inr (returning hit ID (sandboxes d)),
          update_sandboxes hit to_cleanup d))"

definition ttl_expired :: "time \<Rightarrow> sandbox_row \<Rightarrow> bool" where
  "ttl_expired now r \<longleftrightarrow>
     sbx_Status r \<in> {StatusPending, StatusScheduling, StatusAssigned, StatusStarting, StatusRunning}
     \<and> CreatedAt r + min (max (TTL r) 0) 3153600000 * second \<le> now"

definition ClaimTTLExpired :: "(string \<Rightarrow> bool) \<Rightarrow> string list dbop" where
  "ClaimTTLExpired locked d = claim_to_cleanup locked (ttl_expired (clock d)) d"

definition last_vouched :: "sandbox_row \<Rightarrow> time" where
  "last_vouched r = (case last_seen_at r of Some t \<Rightarrow> t | None \<Rightarrow> CreatedAt r)"

definition not_vouched_for :: "duration \<Rightarrow> duration \<Rightarrow> time \<Rightarrow> worker_row \<Rightarrow> sandbox_row \<Rightarrow> bool" where
  "not_vouched_for livenessTimeout workerLostTimeout now w r \<longleftrightarrow>
     wr_last_heartbeat w > max (last_vouched r) (wr_registered_at w) + livenessTimeout
     \<or> (wr_status w = WorkerStatusInactive
        \<and> (case wr_inactive_since w of None \<Rightarrow> False | Some t \<Rightarrow> t < now - workerLostTimeout))"

definition liveness_expired :: "duration \<Rightarrow> duration \<Rightarrow> db \<Rightarrow> sandbox_row \<Rightarrow> bool" where
  "liveness_expired livenessTimeout workerLostTimeout d r \<longleftrightarrow>
     sbx_Status r \<in> {StatusAssigned, StatusStarting, StatusRunning}
     \<and> (\<exists>w \<in> set (workers d). WorkerID r = Some (wr_id w)
          \<and> not_vouched_for livenessTimeout workerLostTimeout (clock d) w r)"

definition ClaimLivenessExpired ::
    "duration \<Rightarrow> duration \<Rightarrow> (string \<Rightarrow> bool) \<Rightarrow> string list dbop" where
  "ClaimLivenessExpired livenessTimeout workerLostTimeout locked d =
     (if workerLostTimeout \<le> 0 then (Inl ErrTimeoutNotPositive, d)
      else claim_to_cleanup locked (liveness_expired livenessTimeout workerLostTimeout d) d)"

definition creation_stalled :: "duration \<Rightarrow> time \<Rightarrow> sandbox_row \<Rightarrow> bool" where
  "creation_stalled timeout now r \<longleftrightarrow>
     sbx_Status r \<in> {StatusPending, StatusScheduling} \<and> CreatedAt r < now - timeout"

definition ClaimStalledCreation :: "duration \<Rightarrow> (string \<Rightarrow> bool) \<Rightarrow> string list dbop" where
  "ClaimStalledCreation timeout locked d =
     (if timeout \<le> 0 then (Inl ErrTimeoutNotPositive, d)
      else claim_to_cleanup locked (creation_stalled timeout (clock d)) d)"

text \<open>
  \<^verbatim>\<open>ReconcileInventory\<close> is five statements in a row, each with the guard the code puts
  around it.
\<close>

definition lost_row :: "string \<Rightarrow> string list \<Rightarrow> db \<Rightarrow> sandbox_row \<Rightarrow> bool" where
  "lost_row w ids d r \<longleftrightarrow>
     WorkerID r = Some w \<and> sbx_Status r \<in> active_statuses \<and> ID r \<notin> set ids
     \<and> (\<exists>wr \<in> set (workers d). wr_id wr = w \<and> last_vouched r < wr_registered_at wr)"

definition listed_active :: "string \<Rightarrow> string list \<Rightarrow> sandbox_row \<Rightarrow> bool" where
  "listed_active w ids r \<longleftrightarrow>
     WorkerID r = Some w \<and> ID r \<in> set ids \<and> sbx_Status r \<in> active_statuses"

definition mark_seen :: "string \<Rightarrow> string list \<Rightarrow> db \<Rightarrow> db" where
  "mark_seen w fresh d =
     update_sandboxes (listed_active w fresh) (\<lambda>r. r\<lparr>last_seen_at := Some (clock d)\<rparr>) d"

definition mark_running :: "string \<Rightarrow> string list \<Rightarrow> db \<Rightarrow> db" where
  "mark_running w running d =
     update_sandboxes
       (\<lambda>r. WorkerID r = Some w \<and> ID r \<in> set running \<and> sbx_Status r = StatusStarting)
       (\<lambda>r. r\<lparr>sbx_Status := StatusRunning\<rparr>) d"

definition attributed :: "string \<Rightarrow> string \<Rightarrow> db \<Rightarrow> bool" where
  "attributed w i d \<longleftrightarrow>
     (\<exists>r \<in> set (sandboxes d). ID r = i \<and> WorkerID r = Some w
        \<and> sbx_Status r \<notin> {StatusFailed, StatusStopped, StatusCleanedUp})"

definition ReconcileInventory ::
    "string \<Rightarrow> bool \<Rightarrow> Inventory \<Rightarrow> ReconcileResult dbop" where
  "ReconcileInventory w firstInventory iv d =
     (let ids = IDs iv;
          lost = (if firstInventory then returning (lost_row w ids d) ID (sandboxes d) else []);
          d1 = (if firstInventory then update_sandboxes (lost_row w ids d) to_cleanup d else d)
      in if ids = [] then (Inr \<lparr>Orphans = [], Lost = lost, res_Dead = []\<rparr>, d1)
         else
           (let fresh = Live iv @ Running iv;
                d2 = (if fresh \<noteq> [] then mark_seen w fresh d1 else d1);
                d3 = (if Running iv \<noteq> [] then mark_running w (Running iv) d2 else d2);
                dead = (if Dead iv \<noteq> []
                        then returning (listed_active w (Dead iv)) ID (sandboxes d3) else []);
                d4 = (if Dead iv \<noteq> []
                      then update_sandboxes (listed_active w (Dead iv)) to_cleanup d3 else d3);
                orphans = filter (\<lambda>i. \<not> attributed w i d4) ids
            in (Inr \<lparr>Orphans = orphans, Lost = lost, res_Dead = dead\<rparr>, d4)))"

subsection \<open>The repository meets the contract\<close>

lemma returning_Cons_iff:
  "(\<exists>r rs. returning P f t = r # rs) \<longleftrightarrow> (\<exists>r \<in> set t. P r)"
  by (induction t) (auto simp: returning_def)

lemma update_sandboxes_none: "returning P f (sandboxes d) = [] \<Longrightarrow> update_sandboxes P g d = d"
  by (simp add: update_sandboxes_def returning_def filter_empty_conv upd_where_none)

lemma UpdateStatus_db:
  "snd (UpdateStatus i st from d) =
     update_sandboxes (\<lambda>r. ID r = i \<and> sbx_Status r \<in> set from) (\<lambda>r. r\<lparr>sbx_Status := st\<rparr>) d"
proof (cases "returning (\<lambda>r. ID r = i \<and> sbx_Status r \<in> set from) (\<lambda>r. r\<lparr>sbx_Status := st\<rparr>) (sandboxes d)")
  case Nil
  then have "update_sandboxes (\<lambda>r. ID r = i \<and> sbx_Status r \<in> set from) (\<lambda>r. r\<lparr>sbx_Status := st\<rparr>) d = d"
    by (rule update_sandboxes_none)
  with Nil show ?thesis by (simp add: UpdateStatus_def)
next
  case (Cons r rs)
  then show ?thesis
    by (cases "from = []") (simp_all add: UpdateStatus_def, simp add: returning_def)
qed

lemma UpdateStatus_contract:
  assumes "\<And>s. s \<in> set from \<Longrightarrow> status_reach s st \<and> status_change_ok s st"
  shows "db_operation (UpdateStatus i st from)"
proof
  fix d assume wf: "wf_db d"
  show "legal_db d (snd (UpdateStatus i st from d))"
    unfolding UpdateStatus_db
    by (rule legal_update_sandboxes) (simp_all add: row_step_status assms)
  show "wf_db (snd (UpdateStatus i st from d))"
    unfolding UpdateStatus_db
    by (rule wf_update_sandboxes [OF wf]) (simp_all add: row_ok_status assms)
qed

lemma claim_to_cleanup_contract:
  assumes "\<And>r. P r \<Longrightarrow> sbx_Status r \<in> in_flight" and "wf_db d"
  shows "legal_db d (snd (claim_to_cleanup locked P d))" and "wf_db (snd (claim_to_cleanup locked P d))"
proof -
  show "legal_db d (snd (claim_to_cleanup locked P d))"
    by (auto simp: claim_to_cleanup_def Let_def to_cleanup_def
        intro!: legal_update_sandboxes row_step_status claim_reach dest!: assms(1))
  show "wf_db (snd (claim_to_cleanup locked P d))"
    by (auto simp: claim_to_cleanup_def Let_def to_cleanup_def
        intro!: wf_update_sandboxes assms(2) row_ok_cleanup)
qed

text \<open>The status updates the jobs, the handlers and the cleanup make.\<close>

abbreviation in_flight_list :: "Status list" where
  "in_flight_list \<equiv> [StatusPending, StatusScheduling, StatusAssigned, StatusStarting, StatusRunning]"

abbreviation not_terminal_list :: "Status list" where
  "not_terminal_list \<equiv> [StatusCleanupPending, StatusPending, StatusScheduling, StatusAssigned,
     StatusStarting, StatusRunning]"

lemma status_change_simps [simp]:
  "status_change_ok StatusPending StatusScheduling"
  "status_change_ok StatusAssigned StatusStarting"
  "status_change_ok StatusStarting StatusRunning"
  "status_change_ok s s"
  by (simp_all add: status_change_ok_def unassigned_def assigned_or_up_def)

lemma ended_simps [simp]:
  "ended StatusCleanupPending" "ended StatusFailed" "ended StatusStopped" "ended StatusCleanedUp"
  "\<not> ended StatusPending" "\<not> ended StatusScheduling" "\<not> ended StatusAssigned"
  "\<not> ended StatusStarting" "\<not> ended StatusRunning"
  by (simp_all add: ended_def)

lemma status_reach_simps [simp]:
  "status_reach StatusPending StatusScheduling"
  "status_reach StatusAssigned StatusStarting"
  "status_reach StatusStarting StatusRunning"
  by (blast intro: status_reach_step status_step.intros)+

lemma finish_reach:
  "s \<in> set not_terminal_list \<Longrightarrow> t \<in> {StatusStopped, StatusFailed} \<Longrightarrow> status_reach s t"
  by (rule status_reach_step, rule status_step.finish) auto

interpretation set_scheduling: db_operation "UpdateStatus i StatusScheduling [StatusPending]" for i
  by (rule UpdateStatus_contract) simp

interpretation set_starting: db_operation "UpdateStatus i StatusStarting [StatusAssigned]" for i
  by (rule UpdateStatus_contract) simp

interpretation set_running: db_operation "UpdateStatus i StatusRunning [StatusStarting]" for i
  by (rule UpdateStatus_contract) simp

interpretation set_cleanup: db_operation "UpdateStatus i StatusCleanupPending in_flight_list" for i
  by (rule UpdateStatus_contract) (auto intro: claim_reach)

lemma set_terminal_contract:
  "t \<in> {StatusStopped, StatusFailed} \<Longrightarrow> db_operation (UpdateStatus i t not_terminal_list)"
  by (rule UpdateStatus_contract) (auto intro: finish_reach)

interpretation set_stopped: db_operation "UpdateStatus i StatusStopped not_terminal_list" for i
  by (rule set_terminal_contract) simp

interpretation set_failed: db_operation "UpdateStatus i StatusFailed not_terminal_list" for i
  by (rule set_terminal_contract) simp

interpretation get_by_id: db_operation "GetByID i" for i
  by unfold_locales (auto simp: GetByID_def split: option.splits)

interpretation list_all: db_operation sbx_List
  by unfold_locales (auto simp: sbx_List_def)

interpretation list_by_user: db_operation "ListByUserID u" for u
  by unfold_locales (auto simp: ListByUserID_def)

interpretation clear_worker: db_operation "ClearWorker i" for i
proof
  fix d assume wf: "wf_db d"
  show "legal_db d (snd (ClearWorker i d))"
    by (auto simp: ClearWorker_def intro!: legal_update_sandboxes row_step_clear)
  show "wf_db (snd (ClearWorker i d))"
    by (auto simp: ClearWorker_def row_ok_def assigned_or_up_def intro!: wf_update_sandboxes wf)
qed

interpretation claim_ttl: db_operation "ClaimTTLExpired locked" for locked
  by unfold_locales (auto simp: ClaimTTLExpired_def ttl_expired_def intro!: claim_to_cleanup_contract)

interpretation claim_liveness: db_operation "ClaimLivenessExpired lt wl locked" for lt wl locked
  by unfold_locales
    (auto simp: ClaimLivenessExpired_def liveness_expired_def intro!: claim_to_cleanup_contract)

interpretation claim_stalled: db_operation "ClaimStalledCreation t locked" for t locked
  by unfold_locales
    (auto simp: ClaimStalledCreation_def creation_stalled_def intro!: claim_to_cleanup_contract)

text \<open>Creating a row is legal when the row starts the state machine.\<close>

lemma Create_contract:
  assumes "sbx_Status s = StatusPending" and "WorkerID s = None"
  shows "db_operation (sbx_Create s)"
proof
  fix d assume wf: "wf_db d"
  show "legal_db d (snd (sbx_Create s d))"
    by (auto simp: sbx_Create_def legal_db_def Let_def row_by_append split: option.splits)
  show "wf_db (snd (sbx_Create s d))"
    using wf assms
    by (auto simp: sbx_Create_def wf_db_def Let_def row_ok_def Sandbox.defs assigned_or_up_def)
qed

lemma UpdateStatusFenced_contract:
  assumes "\<And>s. s \<in> set from \<Longrightarrow> status_reach s st \<and> status_change_ok s st"
  shows "db_operation (UpdateStatusFenced i w token st from)"
proof
  fix d assume wf: "wf_db d"
  show "legal_db d (snd (UpdateStatusFenced i w token st from d))"
    by (auto simp: UpdateStatusFenced_def Let_def assms intro!: legal_update_sandboxes row_step_status)
  show "wf_db (snd (UpdateStatusFenced i w token st from d))"
    by (auto simp: UpdateStatusFenced_def Let_def assms intro!: wf_update_sandboxes wf row_ok_status)
qed

text \<open>What \<^verbatim>\<open>AssignWorker\<close> does to the database, whatever it returns.\<close>

definition assignable :: "string \<Rightarrow> string \<Rightarrow> db \<Rightarrow> sandbox_row \<Rightarrow> bool" where
  "assignable i w d r \<longleftrightarrow> ID r = i \<and> sbx_Status r = StatusScheduling
     \<and> (\<exists>wr. worker_row_of w d = Some wr \<and> int (occupancy w d) < wr_capacity wr)"

lemma assign_to_simps [simp]:
  "ID (assign_to w n r) = ID r" "sbx_Status (assign_to w n r) = StatusAssigned"
  "WorkerID (assign_to w n r) = Some w" "last_seen_at (assign_to w n r) = Some n"
  by (simp_all add: assign_to_def)

lemma AssignWorker_db:
  "snd (AssignWorker i w d) = update_sandboxes (assignable i w d) (assign_to w (clock d)) d"
proof (cases "worker_row_of w d")
  case None
  then show ?thesis
    by (simp add: AssignWorker_def assignable_def update_sandboxes_def upd_where_none)
next
  case (Some wr)
  have hit: "(\<lambda>r. ID r = i \<and> sbx_Status r = StatusScheduling \<and> int (occupancy w d) < wr_capacity wr)
      = assignable i w d" (is "?P = _")
    using Some by (simp add: assignable_def fun_eq_iff)
  show ?thesis
  proof (cases "returning (assignable i w d) (assign_to w (clock d)) (sandboxes d)")
    case Nil
    then have "update_sandboxes (assignable i w d) (assign_to w (clock d)) d = d"
      by (rule update_sandboxes_none)
    with Nil Some show ?thesis
      unfolding AssignWorker_def hit [symmetric]
      by (simp split: option.split)
  next
    case (Cons r rs)
    with Some show ?thesis
      unfolding AssignWorker_def hit [symmetric] by simp
  qed
qed

lemma row_ok_assign: "w \<in> ws \<Longrightarrow> row_ok ws (assign_to w n r)"
  by (simp add: row_ok_def unassigned_def)

interpretation assign_worker: db_operation "AssignWorker i w" for i w
proof
  fix d assume wf: "wf_db d"
  show "legal_db d (snd (AssignWorker i w d))"
    unfolding AssignWorker_db
  proof (rule legal_update_sandboxes)
    fix r assume "r \<in> set (sandboxes d)" and "assignable i w d r"
    then show "row_step r (assign_to w (clock d) r)"
      using wf_db_row [OF wf] unfolding assign_to_def
      by (intro row_step_assign) (auto simp: assignable_def row_ok_def unassigned_def)
  qed simp
  show "wf_db (snd (AssignWorker i w d))"
    unfolding AssignWorker_db
    by (rule wf_update_sandboxes [OF wf])
      (auto simp: assignable_def intro!: row_ok_assign dest!: row_by_SomeD)
qed

text \<open>Each of the five statements of \<^verbatim>\<open>ReconcileInventory\<close> is legal, hence so is the sequence.\<close>

definition safe_step :: "db \<Rightarrow> db \<Rightarrow> bool" where
  "safe_step d d' \<longleftrightarrow> (wf_db d \<longrightarrow> legal_db d d' \<and> wf_db d')"

lemma safe_step_refl [simp]: "safe_step d d"
  by (simp add: safe_step_def)

lemma safe_step_trans [trans]: "safe_step a b \<Longrightarrow> safe_step b c \<Longrightarrow> safe_step a c"
  by (auto simp: safe_step_def intro: legal_db_trans)

lemma safe_step_update:
  assumes "\<And>r. ID (f r) = ID r" and "\<And>r. P r \<Longrightarrow> row_step r (f r)"
    and "\<And>r ws. P r \<Longrightarrow> row_ok ws r \<Longrightarrow> row_ok ws (f r)"
  shows "safe_step d (update_sandboxes P f d)"
  using assms by (auto simp: safe_step_def intro: legal_update_sandboxes wf_update_sandboxes)

lemma safe_to_cleanup:
  "(\<And>r. P r \<Longrightarrow> sbx_Status r \<in> in_flight) \<Longrightarrow> safe_step d (update_sandboxes P to_cleanup d)"
  unfolding to_cleanup_def
  by (rule safe_step_update) (auto intro!: row_step_status claim_reach row_ok_cleanup)

lemma safe_mark_seen: "safe_step d (mark_seen w ids d)"
  unfolding mark_seen_def by (rule safe_step_update) auto

lemma safe_mark_running: "safe_step d (mark_running w ids d)"
  unfolding mark_running_def by (rule safe_step_update) (auto intro!: row_step_status row_ok_status)

lemma safe_if: "(c \<Longrightarrow> safe_step d e) \<Longrightarrow> safe_step d (if c then e else d)"
  by simp

lemma safe_lost: "safe_step d (update_sandboxes (lost_row w ids d') to_cleanup d)"
  by (rule safe_to_cleanup) (auto simp: lost_row_def)

lemma safe_dead: "safe_step d (update_sandboxes (listed_active w ids) to_cleanup d)"
  by (rule safe_to_cleanup) (auto simp: listed_active_def)

lemma ReconcileInventory_safe: "safe_step d (snd (ReconcileInventory w first iv d))"
proof -
  define d1 where "d1 = (if first then update_sandboxes (lost_row w (IDs iv) d) to_cleanup d else d)"
  define d2 where "d2 = (if Live iv @ Running iv \<noteq> [] then mark_seen w (Live iv @ Running iv) d1 else d1)"
  define d3 where "d3 = (if Running iv \<noteq> [] then mark_running w (Running iv) d2 else d2)"
  define d4 where "d4 = (if Dead iv \<noteq> [] then update_sandboxes (listed_active w (Dead iv)) to_cleanup d3 else d3)"
  have s1: "safe_step d d1" unfolding d1_def by (rule safe_if) (rule safe_lost)
  have s2: "safe_step d1 d2" unfolding d2_def by (rule safe_if) (rule safe_mark_seen)
  have s3: "safe_step d2 d3" unfolding d3_def by (rule safe_if) (rule safe_mark_running)
  have s4: "safe_step d3 d4" unfolding d4_def by (rule safe_if) (rule safe_dead)
  have "snd (ReconcileInventory w first iv d) = (if IDs iv = [] then d1 else d4)"
    unfolding ReconcileInventory_def Let_def d4_def d3_def d2_def d1_def by simp
  with s1 safe_step_trans [OF safe_step_trans [OF safe_step_trans [OF s1 s2] s3] s4]
  show ?thesis by simp
qed

interpretation reconcile: db_operation "ReconcileInventory w first iv" for w first iv
  by unfold_locales (use ReconcileInventory_safe [of _ w first iv] in \<open>auto simp: safe_step_def\<close>)

subsection \<open>What the operations do\<close>

lemma UpdateStatus_outcome:
  assumes "wf_db d" and "from \<noteq> []"
  shows "fst (UpdateStatus i st from d) =
    (case sandbox_row_of i d of
       None \<Rightarrow> Inr (zero_Sandbox, 0)
     | Some r \<Rightarrow> if sbx_Status r \<in> set from then Inr (scanSandbox (r\<lparr>sbx_Status := st\<rparr>), 1)
                 else Inr (zero_Sandbox, 0))"
  using assms
  by (simp add: UpdateStatus_def Let_def returning_key [OF wf_db_distinct [OF assms(1)]]
      split: option.split)

lemma UpdateStatus_row:
  "sandbox_row_of j (snd (UpdateStatus i st from d)) =
     map_option (\<lambda>r. if ID r = i \<and> sbx_Status r \<in> set from then r\<lparr>sbx_Status := st\<rparr> else r)
       (sandbox_row_of j d)"
  by (simp add: UpdateStatus_db row_by_upd_where)

lemma AssignWorker_outcome:
  assumes "wf_db d"
  shows "AssignWorker i w d =
    (case worker_row_of w d of
       None \<Rightarrow> (Inl (ErrAssignWorkerNotFound w), d)
     | Some wr \<Rightarrow>
         (case sandbox_row_of i d of
            None \<Rightarrow> (Inl ErrNotFound, d)
          | Some r \<Rightarrow>
              if sbx_Status r \<noteq> StatusScheduling then (Inr zero_Sandbox, d)
              else if int (occupancy w d) < wr_capacity wr
                   then (Inr (scanSandbox (assign_to w (clock d) r)),
                         update_sandboxes (\<lambda>x. ID x = i) (assign_to w (clock d)) d)
                   else (Inl ErrWorkerFull, d)))"
proof (cases "worker_row_of w d")
  case (Some wr)
  define hit where "hit = (\<lambda>r :: sandbox_row. sbx_Status r = StatusScheduling \<and> int (occupancy w d) < wr_capacity wr)"
  have ret: "returning (\<lambda>r. ID r = i \<and> hit r) (assign_to w (clock d)) (sandboxes d) =
      (case sandbox_row_of i d of None \<Rightarrow> [] | Some r \<Rightarrow> if hit r then [assign_to w (clock d) r] else [])"
    by (rule returning_key [OF wf_db_distinct [OF assms]])
  have one: "sandbox_row_of i d = Some r \<Longrightarrow> hit r \<Longrightarrow>
      update_sandboxes (\<lambda>x. ID x = i \<and> hit x) f d = update_sandboxes (\<lambda>x. ID x = i) f d" for r f
    using row_by_unique [OF wf_db_distinct [OF assms]]
    by (auto simp: update_sandboxes_def intro!: arg_cong [where f = "\<lambda>t. d\<lparr>sandboxes := t\<rparr>"] upd_where_cong)
  show ?thesis
    using Some ret one
    by (cases "sandbox_row_of i d") (auto simp: AssignWorker_def Let_def hit_def)
qed (simp add: AssignWorker_def)

lemma AssignWorker_assigned:
  assumes "wf_db d" and "AssignWorker i w d = (Inr s, d')" and "WorkerID s = Some w"
  obtains wr r where "worker_row_of w d = Some wr" and "sandbox_row_of i d = Some r"
    and "sbx_Status r = StatusScheduling" and "int (occupancy w d) < wr_capacity wr"
    and "d' = update_sandboxes (\<lambda>x. ID x = i) (assign_to w (clock d)) d"
proof (cases "worker_row_of w d")
  case None
  with assms show thesis by (simp add: AssignWorker_outcome)
next
  case (Some wr)
  show thesis
  proof (cases "sandbox_row_of i d")
    case None
    with assms Some show thesis by (simp add: AssignWorker_outcome)
  next
    case (Some r)
    with assms \<open>worker_row_of w d = Some wr\<close>
    have "sbx_Status r = StatusScheduling" and "int (occupancy w d) < wr_capacity wr"
      and "d' = update_sandboxes (\<lambda>x. ID x = i) (assign_to w (clock d)) d"
      by (simp_all add: AssignWorker_outcome split: if_split_asm)
    then show thesis using that Some \<open>worker_row_of w d = Some wr\<close> by blast
  qed
qed

subsection \<open>Slots\<close>

text \<open>
  The contract of an operation that takes no slot of any worker: the occupancy of a worker
  never grows by it.  Every operation of the repository but \<^verbatim>\<open>AssignWorker\<close> meets it.
\<close>

locale slot_neutral = db_operation +
  assumes slots: "wf_db d \<Longrightarrow> occupancy w (snd (oper d)) \<le> occupancy w d"
begin

lemma keeps_within_capacity:
  "wf_db d \<Longrightarrow> int (occupancy w d) \<le> c \<Longrightarrow> int (occupancy w (snd (oper d))) \<le> c"
  using slots [of d w] by linarith

end

lemma occupancy_insert_jobs [simp]: "occupancy w (insert_jobs js d) = occupancy w d"
  by (simp add: occupancy_def)

lemma occupancy_update_le:
  assumes "\<And>r. r \<in> set (sandboxes d) \<Longrightarrow> P r \<Longrightarrow> holds_slot w (f r) \<Longrightarrow> holds_slot w r"
  shows "occupancy w (update_sandboxes P f d) \<le> occupancy w d"
  using assms by (auto simp: occupancy_def intro: count_upd_where_le)

lemma status_keeps_slot:
  assumes "row_ok ws r" and "sbx_Status r \<in> in_flight \<union> {StatusCleanupPending}"
    and "holds_slot w (r\<lparr>sbx_Status := st\<rparr>)"
  shows "holds_slot w r"
  using assms by (auto simp: holds_slot_def row_ok_def unassigned_def)

lemma UpdateStatus_slots:
  assumes "wf_db d" and "set from \<subseteq> in_flight \<union> {StatusCleanupPending}"
  shows "occupancy w (snd (UpdateStatus i st from d)) \<le> occupancy w d"
  unfolding UpdateStatus_db
proof (rule occupancy_update_le)
  fix r assume "r \<in> set (sandboxes d)" "ID r = i \<and> sbx_Status r \<in> set from"
    "holds_slot w (r\<lparr>sbx_Status := st\<rparr>)"
  with assms show "holds_slot w r"
    by - (rule status_keeps_slot [OF wf_db_row [OF assms(1)]], auto)
qed

lemma claim_slots:
  assumes "wf_db d" and "\<And>r. P r \<Longrightarrow> sbx_Status r \<in> in_flight"
  shows "occupancy w (snd (claim_to_cleanup locked P d)) \<le> occupancy w d"
  unfolding claim_to_cleanup_def Let_def snd_conv
proof (rule occupancy_update_le)
  fix r assume "r \<in> set (sandboxes d)" "P r \<and> \<not> locked (ID r)"
    "holds_slot w (to_cleanup r)"
  with assms(2) show "holds_slot w r"
    unfolding to_cleanup_def
    by - (rule status_keeps_slot [OF wf_db_row [OF assms(1)]], auto)
qed

lemma ReconcileInventory_db:
  "snd (ReconcileInventory w first iv d) =
     (let d1 = (if first then update_sandboxes (lost_row w (IDs iv) d) to_cleanup d else d);
          d2 = (if Live iv @ Running iv \<noteq> [] then mark_seen w (Live iv @ Running iv) d1 else d1);
          d3 = (if Running iv \<noteq> [] then mark_running w (Running iv) d2 else d2)
      in if IDs iv = [] then d1
         else if Dead iv \<noteq> [] then update_sandboxes (listed_active w (Dead iv)) to_cleanup d3
         else d3)"
  unfolding ReconcileInventory_def Let_def by simp

lemma ReconcileInventory_slots:
  "occupancy x (snd (ReconcileInventory w first iv d)) \<le> occupancy x d"
proof -
  have lost: "occupancy x (update_sandboxes (lost_row w ids d') to_cleanup e) \<le> occupancy x e" for ids e d'
    by (rule occupancy_update_le) (auto simp: holds_slot_def lost_row_def to_cleanup_def)
  have seen: "occupancy x (mark_seen w ids e) \<le> occupancy x e" for ids e
    unfolding mark_seen_def by (rule occupancy_update_le) (auto simp: holds_slot_def)
  have run: "occupancy x (mark_running w ids e) \<le> occupancy x e" for ids e
    unfolding mark_running_def by (rule occupancy_update_le) (auto simp: holds_slot_def)
  have dead: "occupancy x (update_sandboxes (listed_active w ids) to_cleanup e) \<le> occupancy x e" for ids e
    by (rule occupancy_update_le) (auto simp: holds_slot_def listed_active_def to_cleanup_def)
  define d1 where "d1 = (if first then update_sandboxes (lost_row w (IDs iv) d) to_cleanup d else d)"
  define d2 where "d2 = (if Live iv @ Running iv \<noteq> [] then mark_seen w (Live iv @ Running iv) d1 else d1)"
  define d3 where "d3 = (if Running iv \<noteq> [] then mark_running w (Running iv) d2 else d2)"
  have s1: "occupancy x d1 \<le> occupancy x d" by (simp add: d1_def lost)
  have s2: "occupancy x d2 \<le> occupancy x d1" by (simp add: d2_def seen)
  have s3: "occupancy x d3 \<le> occupancy x d2" by (simp add: d3_def run)
  have "snd (ReconcileInventory w first iv d) \<in>
      {d1, d3, update_sandboxes (listed_active w (Dead iv)) to_cleanup d3}"
    unfolding ReconcileInventory_db Let_def d3_def d2_def d1_def by simp
  with s1 s2 s3 dead [of "Dead iv" d3] show ?thesis by fastforce
qed

interpretation scheduling_slots: slot_neutral "UpdateStatus i StatusScheduling [StatusPending]" for i
  by unfold_locales (simp add: UpdateStatus_slots)

interpretation starting_slots: slot_neutral "UpdateStatus i StatusStarting [StatusAssigned]" for i
  by unfold_locales (simp add: UpdateStatus_slots)

interpretation running_slots: slot_neutral "UpdateStatus i StatusRunning [StatusStarting]" for i
  by unfold_locales (simp add: UpdateStatus_slots)

interpretation cleanup_slots: slot_neutral "UpdateStatus i StatusCleanupPending in_flight_list" for i
  by unfold_locales (simp add: UpdateStatus_slots)

interpretation stopped_slots: slot_neutral "UpdateStatus i StatusStopped not_terminal_list" for i
  by unfold_locales (simp add: UpdateStatus_slots)

interpretation failed_slots: slot_neutral "UpdateStatus i StatusFailed not_terminal_list" for i
  by unfold_locales (simp add: UpdateStatus_slots)

interpretation clear_worker_slots: slot_neutral "ClearWorker i" for i
  by unfold_locales (auto simp: ClearWorker_def holds_slot_def intro!: occupancy_update_le)

interpretation claim_ttl_slots: slot_neutral "ClaimTTLExpired locked" for locked
  by unfold_locales (auto simp: ClaimTTLExpired_def ttl_expired_def intro!: claim_slots)

interpretation claim_liveness_slots: slot_neutral "ClaimLivenessExpired lt wl locked" for lt wl locked
  by unfold_locales (auto simp: ClaimLivenessExpired_def liveness_expired_def intro!: claim_slots)

interpretation claim_stalled_slots: slot_neutral "ClaimStalledCreation t locked" for t locked
  by unfold_locales (auto simp: ClaimStalledCreation_def creation_stalled_def intro!: claim_slots)

interpretation reconcile_slots: slot_neutral "ReconcileInventory w first iv" for w first iv
  by unfold_locales (rule ReconcileInventory_slots)

subsection \<open>The heartbeat's inventory, row by row\<close>

text \<open>
  The reference of \<^verbatim>\<open>ReconcileInventory\<close>: what one pass over the table does to a row.  The five
  statements of the code come to the same.
\<close>

definition reconcile_row :: "string \<Rightarrow> bool \<Rightarrow> Inventory \<Rightarrow> db \<Rightarrow> sandbox_row \<Rightarrow> sandbox_row" where
  "reconcile_row w first iv d r =
     (if WorkerID r \<noteq> Some w \<or> sbx_Status r \<notin> active_statuses then r
      else if ID r \<notin> set (IDs iv) then
        (if first \<and> lost_row w (IDs iv) d r then r\<lparr>sbx_Status := StatusCleanupPending\<rparr> else r)
      else
        (let seen = (ID r \<in> set (Live iv) \<or> ID r \<in> set (Running iv));
             r1 = (if seen then r\<lparr>last_seen_at := Some (clock d)\<rparr> else r)
         in if ID r \<in> set (Dead iv) then r1\<lparr>sbx_Status := StatusCleanupPending\<rparr>
            else if ID r \<in> set (Running iv) \<and> sbx_Status r = StatusStarting
                 then r1\<lparr>sbx_Status := StatusRunning\<rparr>
            else r1))"

lemma IDs_empty:
  "IDs iv = [] \<longleftrightarrow> Live iv = [] \<and> Running iv = [] \<and> Unknown iv = [] \<and> Dead iv = []"
  by (simp add: IDs_def)

lemma set_IDs: "set (IDs iv) = set (Live iv) \<union> set (Running iv) \<union> set (Unknown iv) \<union> set (Dead iv)"
  by (auto simp: IDs_def)

text \<open>A statement guarded by a non-empty list is the unguarded statement.\<close>

lemma guard_seen: "(if ids \<noteq> [] then mark_seen w ids d else d) = mark_seen w ids d"
  by (simp add: mark_seen_def listed_active_def update_sandboxes_def upd_where_def)

lemma guard_running: "(if ids \<noteq> [] then mark_running w ids d else d) = mark_running w ids d"
  by (simp add: mark_running_def update_sandboxes_def upd_where_def)

lemma guard_dead:
  "(if ids \<noteq> [] then update_sandboxes (listed_active w ids) f d else d) =
     update_sandboxes (listed_active w ids) f d"
  by (simp add: listed_active_def update_sandboxes_def upd_where_def)

definition lost_step :: "string \<Rightarrow> bool \<Rightarrow> Inventory \<Rightarrow> db \<Rightarrow> db" where
  "lost_step w first iv d = update_sandboxes (\<lambda>r. first \<and> lost_row w (IDs iv) d r) to_cleanup d"

lemma guard_lost:
  "(if first then update_sandboxes (lost_row w (IDs iv) d) to_cleanup d else d) = lost_step w first iv d"
  by (simp add: lost_step_def update_sandboxes_def upd_where_def)

definition reconciled :: "string \<Rightarrow> bool \<Rightarrow> Inventory \<Rightarrow> db \<Rightarrow> db" where
  "reconciled w first iv d =
     update_sandboxes (listed_active w (Dead iv)) to_cleanup
       (mark_running w (Running iv) (mark_seen w (Live iv @ Running iv) (lost_step w first iv d)))"

lemma reconciled_empty: "IDs iv = [] \<Longrightarrow> reconciled w first iv d = lost_step w first iv d"
  by (simp add: IDs_empty reconciled_def mark_running_def mark_seen_def listed_active_def update_sandboxes_def
      upd_where_def)

lemma ReconcileInventory_reconciled: "snd (ReconcileInventory w first iv d) = reconciled w first iv d"
proof (cases "IDs iv = []")
  case True
  then show ?thesis
    unfolding ReconcileInventory_db Let_def guard_lost
    by (simp only: reconciled_empty [OF True] True if_True simp_thms)
next
  case False
  then show ?thesis
    unfolding ReconcileInventory_db Let_def guard_lost guard_seen guard_running guard_dead
      reconciled_def by (simp only: if_False)
qed

definition seen_row :: "string \<Rightarrow> Inventory \<Rightarrow> db \<Rightarrow> sandbox_row \<Rightarrow> sandbox_row" where
  "seen_row w iv d = on_row (listed_active w (Live iv @ Running iv)) (\<lambda>r. r\<lparr>last_seen_at := Some (clock d)\<rparr>)"

definition up_row :: "string \<Rightarrow> Inventory \<Rightarrow> sandbox_row \<Rightarrow> sandbox_row" where
  "up_row w iv =
     on_row (\<lambda>r. WorkerID r = Some w \<and> ID r \<in> set (Running iv) \<and> sbx_Status r = StatusStarting)
       (\<lambda>r. r\<lparr>sbx_Status := StatusRunning\<rparr>)"

lemma reconciled_rows:
  "sandboxes (reconciled w first iv d) =
     map (\<lambda>r. on_row (listed_active w (Dead iv)) to_cleanup
               (up_row w iv (seen_row w iv d
                 (on_row (\<lambda>r. first \<and> lost_row w (IDs iv) d r) to_cleanup r)))) (sandboxes d)"
  by (simp add: reconciled_def lost_step_def mark_seen_def mark_running_def update_sandboxes_def
      upd_where_on_row seen_row_def up_row_def o_def)

lemma reconcile_row_untouched:
  assumes "WorkerID r \<noteq> Some w \<or> sbx_Status r \<notin> active_statuses"
  shows "on_row (listed_active w ids) f r = r" and "up_row w iv r = r" and "seen_row w iv d r = r"
    and "on_row (\<lambda>r. c \<and> lost_row w ids d r) f r = r"
  using assms
  by (auto simp: up_row_def seen_row_def lost_row_def listed_active_def intro!: on_row_miss)

lemma reconcile_row_unlisted:
  assumes "ID r \<notin> set (IDs iv)"
  shows "on_row (listed_active w (Dead iv)) f r = r" and "up_row w iv r = r"
    and "seen_row w iv d r = r"
  using assms
  by (auto simp: up_row_def seen_row_def listed_active_def set_IDs intro!: on_row_miss)

lemma reconciled_row:
  "on_row (listed_active w (Dead iv)) to_cleanup
     (up_row w iv (seen_row w iv d
       (on_row (\<lambda>r. first \<and> lost_row w (IDs iv) d r) to_cleanup r))) = reconcile_row w first iv d r"
  (is "?f r = _")
proof (cases "WorkerID r = Some w \<and> sbx_Status r \<in> active_statuses")
  case False
  then show ?thesis by (simp add: reconcile_row_def reconcile_row_untouched)
next
  case True
  show ?thesis
  proof (cases "ID r \<in> set (IDs iv)")
    case listed: True
    then have "on_row (\<lambda>r. first \<and> lost_row w (IDs iv) d r) to_cleanup r = r"
      by (simp add: on_row_miss lost_row_def)
    with True listed show ?thesis
      unfolding reconcile_row_def seen_row_def up_row_def
      by (auto simp: listed_active_def to_cleanup_def on_row_def)
  next
    case False
    let ?r = "on_row (\<lambda>r. first \<and> lost_row w (IDs iv) d r) to_cleanup r"
    from False have "ID ?r \<notin> set (IDs iv)"
      by (simp add: on_row_def to_cleanup_def)
    then have "?f r = ?r" by (simp add: reconcile_row_unlisted)
    also from True False have "\<dots> = reconcile_row w first iv d r"
      by (simp add: reconcile_row_def on_row_def to_cleanup_def)
    finally show ?thesis .
  qed
qed

lemma ReconcileInventory_rows:
  "sandboxes (snd (ReconcileInventory w first iv d)) = map (reconcile_row w first iv d) (sandboxes d)"
  by (simp only: ReconcileInventory_reconciled reconciled_rows reconciled_row)

text \<open>What \<^verbatim>\<open>ReconcileInventory\<close> returns, in terms of the rows it found.\<close>

definition claimed_row :: "string \<Rightarrow> bool \<Rightarrow> Inventory \<Rightarrow> db \<Rightarrow> sandbox_row \<Rightarrow> bool" where
  "claimed_row w first iv d r \<longleftrightarrow>
     (first \<and> lost_row w (IDs iv) d r) \<or> listed_active w (Dead iv) r"

lemma reconcile_row_ID [simp]: "ID (reconcile_row w first iv d r) = ID r"
  by (simp add: reconcile_row_def Let_def)

lemma reconcile_row_WorkerID [simp]: "WorkerID (reconcile_row w first iv d r) = WorkerID r"
  by (simp add: reconcile_row_def Let_def)

lemma reconcile_row_claims:
  "sbx_Status (reconcile_row w first iv d r) = StatusCleanupPending \<and> sbx_Status r \<noteq> StatusCleanupPending
   \<longleftrightarrow> claimed_row w first iv d r"
  by (auto simp: reconcile_row_def claimed_row_def lost_row_def listed_active_def set_IDs Let_def
      split: if_splits)

lemma reconcile_row_terminal:
  "sbx_Status (reconcile_row w first iv d r) \<in> terminal \<longleftrightarrow> sbx_Status r \<in> terminal"
  by (auto simp: reconcile_row_def Let_def split: if_splits)

lemma ReconcileInventory_ok: "\<exists>res. fst (ReconcileInventory w first iv d) = Inr res"
  by (simp add: ReconcileInventory_def Let_def)

lemma ReconcileInventory_Lost:
  "fst (ReconcileInventory w first iv d) = Inr res \<Longrightarrow>
   Lost res = (if first then returning (lost_row w (IDs iv) d) ID (sandboxes d) else [])"
  unfolding ReconcileInventory_def Let_def by (auto split: if_splits)

text \<open>The dead are looked up after three updates that neither change identity nor leave or enter
  the active statuses for a row that is listed.\<close>

lemma listed_active_before:
  "ids \<subseteq> set (IDs iv) \<Longrightarrow> set dead = ids \<Longrightarrow>
   listed_active w dead (up_row w iv (seen_row w iv d
      (on_row (\<lambda>r. first \<and> lost_row w (IDs iv) d r) to_cleanup r))) = listed_active w dead r"
  by (auto simp: listed_active_def up_row_def seen_row_def on_row_def to_cleanup_def lost_row_def)

lemma ReconcileInventory_Dead:
  assumes "fst (ReconcileInventory w first iv d) = Inr res"
  shows "res_Dead res = returning (listed_active w (Dead iv)) ID (sandboxes d)"
proof (cases "IDs iv = []")
  case True
  with assms have "res_Dead res = []"
    by (auto simp: ReconcileInventory_def Let_def split: if_splits)
  with True show ?thesis by (simp add: IDs_empty returning_def listed_active_def)
next
  case False
  let ?d3 = "mark_running w (Running iv) (mark_seen w (Live iv @ Running iv) (lost_step w first iv d))"
  let ?g = "\<lambda>r. up_row w iv (seen_row w iv d (on_row (\<lambda>r. first \<and> lost_row w (IDs iv) d r) to_cleanup r))"
  have d3: "sandboxes ?d3 = map ?g (sandboxes d)"
    by (simp add: lost_step_def mark_seen_def mark_running_def update_sandboxes_def
        upd_where_on_row seen_row_def up_row_def o_def)
  have "res_Dead res = (if Dead iv \<noteq> [] then returning (listed_active w (Dead iv)) ID (sandboxes ?d3) else [])"
    using assms False
    unfolding ReconcileInventory_def Let_def guard_lost guard_seen guard_running guard_dead
    by (simp only: if_False fst_conv sum.inject) (clarsimp split: if_splits)
  also have "\<dots> = returning (listed_active w (Dead iv)) ID (sandboxes ?d3)"
    by (simp add: returning_def listed_active_def)
  also have "\<dots> = returning (listed_active w (Dead iv)) ID (sandboxes d)"
  proof -
    have keep: "ID (?g r) = ID r" for r
      by (simp add: up_row_def seen_row_def on_row_def to_cleanup_def)
    have same: "listed_active w (Dead iv) (?g r) = listed_active w (Dead iv) r" for r
      by (rule listed_active_before) (auto simp: set_IDs)
    show ?thesis
      unfolding d3 by (simp add: returning_def filter_map o_def keep same)
  qed
  finally show ?thesis .
qed

lemma ReconcileInventory_Orphans:
  assumes "fst (ReconcileInventory w first iv d) = Inr res"
  shows "Orphans res = filter (\<lambda>i. \<not> attributed w i d) (IDs iv)"
proof (cases "IDs iv = []")
  case True
  with assms show ?thesis
    by (auto simp: ReconcileInventory_def Let_def split: if_splits)
next
  case False
  have "Orphans res = filter (\<lambda>i. \<not> attributed w i (reconciled w first iv d)) (IDs iv)"
    using assms False
    unfolding ReconcileInventory_def Let_def guard_lost guard_seen guard_running guard_dead
      reconciled_def [symmetric]
    by (simp only: if_False fst_conv sum.inject) (clarsimp split: if_splits)
  moreover have "attributed w i (reconciled w first iv d) = attributed w i d" for i
    using reconcile_row_terminal [of w first iv d]
    by (auto simp: attributed_def reconciled_rows reconciled_row)
  ultimately show ?thesis by simp
qed

subsection \<open>A sample database\<close>

definition sample_row :: "string \<Rightarrow> Status \<Rightarrow> string option \<Rightarrow> time option \<Rightarrow> sandbox_row" where
  "sample_row i st w seen = \<lparr>ID = i, Runtime = ''node'', sbx_Status = st, TTL = 300, CreatedAt = 0,
     Port = 0, PreviewURL = [], Image = ''alpine'', WorkerID = w, VcpuCount = 1, MemSizeMib = 256,
     UserID = None, last_seen_at = seen\<rparr>"

definition sample_worker :: "string \<Rightarrow> int \<Rightarrow> worker_row" where
  "sample_worker w cap = \<lparr>wr_id = w, wr_status = WorkerStatusActive, wr_address = ''10.0.0.7'',
     wr_capacity = cap, wr_port = Some 9090, wr_cpu_budget = 8, wr_mem_budget = 4096,
     wr_cpu_usage = 0, wr_mem_usage = 0, wr_last_heartbeat = 50 * second, wr_fencing_token = 3,
     wr_inventory_token = 2, wr_registered_at = 40 * second, wr_inactive_since = None\<rparr>"

definition sample_db :: db where
  "sample_db = \<lparr>clock = 60 * second,
     sandboxes = [sample_row ''a'' StatusScheduling None None,
                  sample_row ''b'' StatusStarting (Some ''w1'') (Some (45 * second)),
                  sample_row ''c'' StatusRunning (Some ''w1'') (Some (10 * second)),
                  sample_row ''e'' StatusRunning (Some ''w1'') (Some (45 * second))],
     workers = [sample_worker ''w1'' 4, sample_worker ''w2'' 0],
     sandbox_events = [], users = [], sessions = [], jobs = []\<rparr>"

lemmas sample_simps = sample_db_def sample_row_def sample_worker_def

lemma sample_wf: "wf_db sample_db"
  by (simp add: sample_simps wf_db_def row_ok_def worker_row_ok_def unassigned_def assigned_or_up_def)

subsection \<open>Properties\<close>

text \<open>C7: a worker is never filled past its capacity.  When \<^verbatim>\<open>AssignWorker\<close> assigns the sandbox,
  the worker's occupancy grows by exactly one and is still within the capacity the row declares,
  and the row is now the worker's, in \<^verbatim>\<open>assigned\<close>, with a fresh \<^verbatim>\<open>last_seen_at\<close>.\<close>

theorem AssignWorker_within_capacity:
  assumes "wf_db d" and "AssignWorker i w d = (Inr s, d')" and "WorkerID s = Some w"
  shows "\<exists>wr r'. worker_row_of w d = Some wr
           \<and> occupancy w d' = Suc (occupancy w d) \<and> int (occupancy w d') \<le> wr_capacity wr
           \<and> sandbox_row_of i d' = Some r' \<and> sbx_Status r' = StatusAssigned
           \<and> WorkerID r' = Some w \<and> last_seen_at r' = Some (clock d)"
proof -
  obtain wr r where w: "worker_row_of w d = Some wr" and r: "sandbox_row_of i d = Some r"
    and st: "sbx_Status r = StatusScheduling" and free: "int (occupancy w d) < wr_capacity wr"
    and d': "d' = update_sandboxes (\<lambda>x. ID x = i) (assign_to w (clock d)) d"
    by (rule AssignWorker_assigned [OF assms])
  have "\<not> holds_slot w r" using st by (simp add: holds_slot_def)
  then have "occupancy w d' = Suc (occupancy w d)"
    unfolding d' occupancy_def update_sandboxes_sel
    by (intro count_upd_where_gain [OF wf_db_distinct [OF assms(1)] r]) (simp_all add: holds_slot_def)
  with w r free show ?thesis
    using row_by_SomeD [OF r] by (simp add: d' row_by_upd_where)
qed

theorem AssignWorker_within_capacity_witness:
  "occupancy ''w1'' (snd (AssignWorker ''a'' ''w1'' sample_db)) = 4"
proof -
  have run: "AssignWorker ''a'' ''w1'' sample_db =
      (Inr (scanSandbox (assign_to ''w1'' (60 * second) (sample_row ''a'' StatusScheduling None None))),
       snd (AssignWorker ''a'' ''w1'' sample_db))"
    by (simp add: AssignWorker_outcome [OF sample_wf])
      (simp add: sample_simps occupancy_def count_where_def holds_slot_def)
  have "occupancy ''w1'' sample_db = 3"
    by (simp add: sample_simps occupancy_def count_where_def holds_slot_def)
  with AssignWorker_within_capacity [OF sample_wf run] show ?thesis by auto
qed

text \<open>C13: the five statements of \<^verbatim>\<open>ReconcileInventory\<close> are one pass over the table with
  \<^const>\<open>reconcile_row\<close>, and what it returns is read off the rows it found: the lost and
  the dead are exactly the rows it moved to \<^verbatim>\<open>cleanup_pending\<close>, each once, and the orphans
  are exactly the listed identifiers with no live row of this worker.\<close>

theorem ReconcileInventory_one_pass:
  assumes "wf_db d" and "ReconcileInventory w first iv d = (Inr res, d')"
  shows "sandboxes d' = map (reconcile_row w first iv d) (sandboxes d)
    \<and> workers d' = workers d \<and> jobs d' = jobs d
    \<and> distinct (Lost res @ res_Dead res)
    \<and> set (Lost res @ res_Dead res) = ID ` {r \<in> set (sandboxes d).
         sbx_Status r \<noteq> StatusCleanupPending
         \<and> sbx_Status (reconcile_row w first iv d r) = StatusCleanupPending}
    \<and> Orphans res = filter (\<lambda>i. \<not> attributed w i d) (IDs iv)"
proof -
  have fst: "fst (ReconcileInventory w first iv d) = Inr res"
    and snd: "snd (ReconcileInventory w first iv d) = d'"
    using assms(2) by simp_all
  note L = ReconcileInventory_Lost [OF fst] and D = ReconcileInventory_Dead [OF fst]
  have lost: "set (Lost res) = ID ` {r \<in> set (sandboxes d). first \<and> lost_row w (IDs iv) d r}"
    by (auto simp: L mem_returning)
  have dead: "set (res_Dead res) = ID ` {r \<in> set (sandboxes d). listed_active w (Dead iv) r}"
    by (auto simp: D mem_returning)
  have "set (Lost res) \<inter> set (res_Dead res) = {}"
    by (auto simp: lost dead lost_row_def listed_active_def set_IDs)
  moreover have "distinct (Lost res)" "distinct (res_Dead res)"
    by (simp_all add: L D distinct_returning wf_db_distinct [OF assms(1)])
  moreover have "set (Lost res @ res_Dead res) = ID ` {r \<in> set (sandboxes d). claimed_row w first iv d r}"
    by (auto simp: lost dead claimed_row_def)
  moreover have "workers d' = workers d" "jobs d' = jobs d"
    by (simp_all add: snd [symmetric] ReconcileInventory_reconciled reconciled_def lost_step_def
        mark_seen_def mark_running_def)
  ultimately show ?thesis
    using ReconcileInventory_rows [of w first iv d] ReconcileInventory_Orphans [OF fst]
    by (simp add: snd reconcile_row_claims [symmetric] conj_commute)
qed

definition sample_inventory :: Inventory where
  "sample_inventory = \<lparr>Live = [], Running = [''b''], Unknown = [], Dead = [''e'', ''z'']\<rparr>"

theorem ReconcileInventory_one_pass_witness:
  "\<exists>res. fst (ReconcileInventory ''w1'' True sample_inventory sample_db) = Inr res
     \<and> Orphans res = [''z'']
     \<and> map sbx_Status (sandboxes (snd (ReconcileInventory ''w1'' True sample_inventory sample_db)))
         = [StatusScheduling, StatusRunning, StatusCleanupPending, StatusCleanupPending]"
proof -
  let ?d = "snd (ReconcileInventory ''w1'' True sample_inventory sample_db)"
  obtain res where res: "fst (ReconcileInventory ''w1'' True sample_inventory sample_db) = Inr res"
    using ReconcileInventory_ok by blast
  then have run: "ReconcileInventory ''w1'' True sample_inventory sample_db = (Inr res, ?d)"
    by (metis prod.collapse)
  note pass = ReconcileInventory_one_pass [OF sample_wf run]
  have orphans: "Orphans res = [''z'']"
    using pass by (simp add: attributed_def sample_simps sample_inventory_def IDs_def)
  have rows: "sandboxes ?d = map (reconcile_row ''w1'' True sample_inventory sample_db) (sandboxes sample_db)"
    using pass by blast
  have "map sbx_Status (sandboxes ?d)
      = [StatusScheduling, StatusRunning, StatusCleanupPending, StatusCleanupPending]"
    unfolding rows
    by (simp add: reconcile_row_def lost_row_def last_vouched_def sample_simps sample_inventory_def
        IDs_def second_def)
  with res orphans show ?thesis by (intro exI [of _ res] conjI)
qed

text \<open>C31: liveness is measured against the worker, not against the orchestrator's clock.  As long
  as no worker is inactive, the sandboxes \<^verbatim>\<open>ClaimLivenessExpired\<close> claims are the same whatever
  time the database reads: an orchestrator that was down for hours, and so recorded no
  heartbeat, claims nothing it would not have claimed before.\<close>

theorem ClaimLivenessExpired_ignores_clock:
  assumes "\<forall>w \<in> set (workers d). wr_status w \<noteq> WorkerStatusInactive"
  shows "fst (ClaimLivenessExpired lt wl locked (d\<lparr>clock := t\<rparr>)) = fst (ClaimLivenessExpired lt wl locked d)
    \<and> sandboxes (snd (ClaimLivenessExpired lt wl locked (d\<lparr>clock := t\<rparr>)))
        = sandboxes (snd (ClaimLivenessExpired lt wl locked d))"
proof -
  have "liveness_expired lt wl (d\<lparr>clock := t\<rparr>) = liveness_expired lt wl d"
    using assms by (auto simp: liveness_expired_def not_vouched_for_def fun_eq_iff)
  then show ?thesis by (simp add: ClaimLivenessExpired_def claim_to_cleanup_def Let_def)
qed

theorem ClaimLivenessExpired_ignores_clock_witness:
  "fst (ClaimLivenessExpired (30 * second) (60 * second) (\<lambda>_. False)
      (sample_db\<lparr>clock := 100000 * second\<rparr>)) = Inr []"
proof -
  have "\<forall>w \<in> set (workers sample_db). wr_status w \<noteq> WorkerStatusInactive"
    by (simp add: sample_simps)
  from ClaimLivenessExpired_ignores_clock [OF this, of "30 * second" "60 * second" "\<lambda>_. False"
      "100000 * second"]
  show ?thesis
    by (simp add: ClaimLivenessExpired_def claim_to_cleanup_def returning_def liveness_expired_def
        not_vouched_for_def last_vouched_def sample_simps second_def)
qed



end
