(* ===== verification/Worker_Repository.thy ===== *)
theory Worker_Repository
  imports Sandbox_Repository "HOL-Library.Char_ord" "HOL-Library.List_Lexorder"
begin

text \<open>
  \<^verbatim>\<open>worker/repository.go\<close>, \<^verbatim>\<open>worker/model.go\<close> and \<^verbatim>\<open>HeartbeatExpired\<close> of \<^verbatim>\<open>worker/heartbeat.go\<close>: the
  rows of the workers, their registration with a fencing token, and the heartbeat that only
  the current incarnation may write.  A fencing token is a \<^verbatim>\<open>bigint\<close>: an increment past its range
  is the database error \<open>ErrOutOfRange\<close>.  Rows sorted by id use the byte order of the strings.
\<close>

subsection \<open>Operations\<close>

definition defaultHeartbeatTimeout :: duration where
  "defaultHeartbeatTimeout = 15 * second"

definition HeartbeatExpired :: "time \<Rightarrow> time \<Rightarrow> duration \<Rightarrow> bool" where
  "HeartbeatExpired now lastHeartbeat timeout =
     (let timeout = (if timeout \<le> 0 then defaultHeartbeatTimeout else timeout)
      in if lastHeartbeat = zero_time then True
         else time_sub now lastHeartbeat > timeout)"

record HeartbeatParams =
  hp_ID :: string
  hp_Status :: WorkerStatus
  hp_Address :: string
  hp_Port :: int
  hp_Capacity :: int
  hp_CpuBudget :: int
  hp_MemBudget :: int
  hp_CpuUsage :: int
  hp_MemUsage :: int
  hp_FencingToken :: int

definition NewWorkerFromHeartbeat :: "time \<Rightarrow> HeartbeatParams \<Rightarrow> Worker" where
  "NewWorkerFromHeartbeat now p =
     \<lparr>wID = hp_ID p, Address = hp_Address p, wPort = hp_Port p, wStatus = hp_Status p,
      Budget = \<lparr>Cpu_budget = hp_CpuBudget p, Mem_budget = hp_MemBudget p\<rparr>,
      Capacity = hp_Capacity p, FencingToken = hp_FencingToken p, Last_heartbeat = now,
      running_sandboxes = 0, cpu_usage = hp_CpuUsage p, mem_usage = hp_MemUsage p\<rparr>"

definition nullablePort :: "int \<Rightarrow> int option" where
  "nullablePort port = (if port \<le> 0 then None else Some port)"

definition scanWorker :: "worker_row \<Rightarrow> Worker" where
  "scanWorker r =
     \<lparr>wID = wr_id r, Address = wr_address r,
      wPort = (case wr_port r of None \<Rightarrow> 0 | Some p \<Rightarrow> p), wStatus = wr_status r,
      Budget = \<lparr>Cpu_budget = wr_cpu_budget r, Mem_budget = wr_mem_budget r\<rparr>,
      Capacity = wr_capacity r, FencingToken = wr_fencing_token r,
      Last_heartbeat = wr_last_heartbeat r, running_sandboxes = 0,
      cpu_usage = wr_cpu_usage r, mem_usage = wr_mem_usage r\<rparr>"

text \<open>The columns every write of a worker sets from the struct.\<close>

definition wrk_columns :: "Worker \<Rightarrow> worker_row \<Rightarrow> worker_row" where
  "wrk_columns w r = r\<lparr>wr_status := wStatus w, wr_address := Address w, wr_capacity := Capacity w,
     wr_port := nullablePort (wPort w), wr_cpu_budget := Cpu_budget (Budget w),
     wr_mem_budget := Mem_budget (Budget w), wr_cpu_usage := cpu_usage w,
     wr_mem_usage := mem_usage w\<rparr>"

text \<open>An inserted row: \<^verbatim>\<open>inventory_token\<close>, \<^verbatim>\<open>registered_at\<close> and \<^verbatim>\<open>inactive_since\<close> take their defaults.\<close>

definition wrk_insert :: "Worker \<Rightarrow> time \<Rightarrow> int \<Rightarrow> time \<Rightarrow> worker_row" where
  "wrk_insert w heartbeat token now =
     \<lparr>wr_id = wID w, wr_status = wStatus w, wr_address = Address w, wr_capacity = Capacity w,
      wr_port = nullablePort (wPort w), wr_cpu_budget = Cpu_budget (Budget w),
      wr_mem_budget = Mem_budget (Budget w), wr_cpu_usage = cpu_usage w,
      wr_mem_usage = mem_usage w, wr_last_heartbeat = heartbeat, wr_fencing_token = token,
      wr_inventory_token = 0, wr_registered_at = now, wr_inactive_since = None\<rparr>"

definition wrk_Create :: "time \<Rightarrow> Worker \<Rightarrow> Worker dbop" where
  "wrk_Create processNow w d =
     (let hb = (if Last_heartbeat w = zero_time then processNow else Last_heartbeat w);
          r = wrk_insert w hb (FencingToken w) (clock d)
      in if FencingToken w < 0 then (Inl ErrOutOfRange, d)
         else if wID w \<in> wr_id ` set (workers d) then (Inl ErrUniqueViolation, d)
         else (Inr (scanWorker r), d\<lparr>workers := workers d @ [r]\<rparr>))"

definition wrk_Register :: "Worker \<Rightarrow> Worker dbop" where
  "wrk_Register w d =
     (case worker_row_of (wID w) d of
        None \<Rightarrow>
          (let token = max (FencingToken w) 0 + 1; r = wrk_insert w (clock d) token (clock d)
           in if token > int64_max then (Inl ErrOutOfRange, d)
              else (Inr (scanWorker r), d\<lparr>workers := workers d @ [r]\<rparr>))
      | Some r \<Rightarrow>
          (let token = max (wr_fencing_token r) (FencingToken w) + 1;
               upd = (\<lambda>r. (wrk_columns w r)\<lparr>wr_last_heartbeat := clock d, wr_inactive_since := None,
                          wr_fencing_token := token, wr_registered_at := clock d\<rparr>)
           in if token > int64_max then (Inl ErrOutOfRange, d)
              else (Inr (scanWorker (upd r)), update_workers (\<lambda>x. wr_id x = wID w) upd d)))"

definition ClaimInventory :: "string \<Rightarrow> int \<Rightarrow> bool dbop" where
  "ClaimInventory i token d =
     (let hit = (\<lambda>w. wr_id w = i \<and> wr_fencing_token w = token \<and> wr_inventory_token w \<noteq> token)
      in (Inr (count_where hit (workers d) > 0),
          update_workers hit (\<lambda>w. w\<lparr>wr_inventory_token := token\<rparr>) d))"

definition wrk_Get :: "string \<Rightarrow> Worker dbop" where
  "wrk_Get i d =
     (case worker_row_of i d of None \<Rightarrow> (Inl ErrNotFound, d) | Some r \<Rightarrow> (Inr (scanWorker r), d))"

definition whyRefused :: "string \<Rightarrow> int \<Rightarrow> db \<Rightarrow> repo_error" where
  "whyRefused i presented d =
     (case worker_row_of i d of
        None \<Rightarrow> ErrWorkerUnknown
      | Some r \<Rightarrow> if wr_fencing_token r < presented then ErrWorkerUnknown else ErrFenced)"

definition wrk_Update :: "Worker \<Rightarrow> Worker dbop" where
  "wrk_Update w d =
     (let hit = (\<lambda>r. wr_id r = wID w \<and> wr_fencing_token r = FencingToken w);
          upd = (\<lambda>r. (wrk_columns w r)\<lparr>wr_last_heartbeat := clock d, wr_inactive_since := None\<rparr>)
      in case returning hit upd (workers d) of
           r # _ \<Rightarrow> (Inr (scanWorker r), update_workers hit upd d)
         | [] \<Rightarrow> (Inl (whyRefused (wID w) (FencingToken w) d), d))"

definition wrk_stale :: "duration \<Rightarrow> time \<Rightarrow> worker_row \<Rightarrow> bool" where
  "wrk_stale timeout now r \<longleftrightarrow>
     wr_status r = WorkerStatusActive \<and> wr_last_heartbeat r < now - timeout"

definition MarkStaleInactive :: "duration \<Rightarrow> int dbop" where
  "MarkStaleInactive timeout d =
     (let timeout = (if timeout \<le> 0 then defaultHeartbeatTimeout else timeout);
          hit = wrk_stale timeout (clock d)
      in (Inr (int (count_where hit (workers d))),
          update_workers hit
            (\<lambda>r. r\<lparr>wr_status := WorkerStatusInactive, wr_inactive_since := Some (clock d)\<rparr>) d))"

definition wrk_List :: "Worker list dbop" where
  "wrk_List d = (Inr (map scanWorker (sort_key wr_id (workers d))), d)"

definition ListActive :: "Worker list dbop" where
  "ListActive d =
     (Inr (map scanWorker (sort_key wr_id (filter (\<lambda>r. wr_status r = WorkerStatusActive) (workers d)))), d)"

subsection \<open>The contract\<close>

lemma legal_update_workers:
  assumes "\<And>r. wr_id (f r) = wr_id r"
    and "\<And>r. r \<in> set (workers d) \<Longrightarrow> P r \<Longrightarrow> tokens_grow r (f r)"
  shows "legal_db d (update_workers P f d)"
  using assms by (auto simp: legal_db_def row_by_upd_where dest: row_by_SomeD)

lemma wf_update_workers:
  assumes "wf_db d" and "\<And>r. wr_id (f r) = wr_id r"
    and "\<And>r. r \<in> set (workers d) \<Longrightarrow> P r \<Longrightarrow> worker_row_ok r \<Longrightarrow> worker_row_ok (f r)"
  shows "wf_db (update_workers P f d)"
proof -
  have "wr_id ` set (upd_where P f (workers d)) = wr_id ` set (workers d)"
    using keys_upd_where [of wr_id f P "workers d"] assms(2) by (metis list.set_map)
  with assms show ?thesis
    by (auto simp: wf_db_def keys_upd_where set_upd_where)
qed

lemma wrk_columns_sel [simp]:
  "wr_id (wrk_columns w r) = wr_id r" "wr_fencing_token (wrk_columns w r) = wr_fencing_token r"
  "wr_inventory_token (wrk_columns w r) = wr_inventory_token r"
  "wr_registered_at (wrk_columns w r) = wr_registered_at r"
  "wr_status (wrk_columns w r) = wStatus w" "wr_capacity (wrk_columns w r) = Capacity w"
  by (simp_all add: wrk_columns_def)

lemma wf_worker_row: "wf_db d \<Longrightarrow> r \<in> set (workers d) \<Longrightarrow> worker_row_ok r"
  by (simp add: wf_db_def)

lemma occupancy_update_workers [simp]: "occupancy w (update_workers P f d) = occupancy w d"
  by (simp add: occupancy_def)

lemma legal_insert_worker:
  "wr_id r \<notin> wr_id ` set (workers d) \<Longrightarrow> legal_db d (d\<lparr>workers := workers d @ [r]\<rparr>)"
  by (auto simp: legal_db_def row_by_append split: option.splits)

lemma wf_insert_worker:
  "wf_db d \<Longrightarrow> worker_row_ok r \<Longrightarrow> wr_id r \<notin> wr_id ` set (workers d) \<Longrightarrow>
   wf_db (d\<lparr>workers := workers d @ [r]\<rparr>)"
  by (auto simp: wf_db_def row_ok_def)

text \<open>Registration either inserts a row or bumps the token of the one there is.\<close>

lemma wrk_Register_safe: "safe_step d (snd (wrk_Register w d))"
proof (cases "worker_row_of (wID w) d")
  case None
  moreover from None have "wID w \<notin> wr_id ` set (workers d)" by (simp add: row_by_None_iff)
  ultimately show ?thesis
    by (auto simp: wrk_Register_def Let_def wrk_insert_def safe_step_def worker_row_ok_def
        intro!: legal_insert_worker wf_insert_worker)
next
  case (Some r)
  show ?thesis
    unfolding safe_step_def
  proof
    assume wf: "wf_db d"
    have le: "wr_fencing_token x \<le> max (wr_fencing_token r) (FencingToken w) + 1"
      if "x \<in> set (workers d)" "wr_id x = wID w" for x
      using row_by_unique [OF wf_db_distinct_workers [OF wf] Some that] by simp
    show "legal_db d (snd (wrk_Register w d)) \<and> wf_db (snd (wrk_Register w d))"
      using wf Some order_trans [OF _ le]
      by (auto simp: wrk_Register_def Let_def worker_row_ok_def le tokens_grow_def
          intro!: legal_update_workers wf_update_workers)
  qed
qed

interpretation wrk_register: slot_neutral "wrk_Register w" for w
  by unfold_locales
    (use wrk_Register_safe [of _ w] in \<open>auto simp: safe_step_def wrk_Register_def Let_def occupancy_def
      split: option.split\<close>)

interpretation claim_inventory: slot_neutral "ClaimInventory i token" for i token
  by unfold_locales
    (auto simp: ClaimInventory_def Let_def worker_row_ok_def tokens_grow_def dest: wf_worker_row
      intro!: legal_update_workers wf_update_workers)

lemma wrk_Update_db:
  "snd (wrk_Update w d) =
     update_workers (\<lambda>r. wr_id r = wID w \<and> wr_fencing_token r = FencingToken w)
       (\<lambda>r. (wrk_columns w r)\<lparr>wr_last_heartbeat := clock d, wr_inactive_since := None\<rparr>) d"
  (is "_ = update_workers ?P ?f d")
proof (cases "returning ?P ?f (workers d)")
  case Nil
  then have "update_workers ?P ?f d = d"
    by (auto simp: update_workers_def returning_def filter_empty_conv upd_where_none)
  with Nil show ?thesis by (simp add: wrk_Update_def)
qed (simp add: wrk_Update_def)

interpretation wrk_update: slot_neutral "wrk_Update w" for w
  by unfold_locales
    (auto simp: wrk_Update_db worker_row_ok_def tokens_grow_def intro!: legal_update_workers wf_update_workers)

interpretation mark_stale: slot_neutral "MarkStaleInactive timeout" for timeout
  by unfold_locales
    (auto simp: MarkStaleInactive_def Let_def worker_row_ok_def tokens_grow_def
      intro!: legal_update_workers wf_update_workers)

interpretation wrk_list: slot_neutral wrk_List
  by unfold_locales (auto simp: wrk_List_def)

interpretation list_active: slot_neutral ListActive
  by unfold_locales (auto simp: ListActive_def)

interpretation wrk_get: slot_neutral "wrk_Get i" for i
  by unfold_locales (auto simp: wrk_Get_def split: option.splits)

subsection \<open>What the operations do\<close>

lemma wrk_Update_outcome:
  assumes "wf_db d"
  shows "fst (wrk_Update w d) =
    (case worker_row_of (wID w) d of
       None \<Rightarrow> Inl ErrWorkerUnknown
     | Some r \<Rightarrow>
         if wr_fencing_token r = FencingToken w
         then Inr (scanWorker ((wrk_columns w r)\<lparr>wr_last_heartbeat := clock d, wr_inactive_since := None\<rparr>))
         else if wr_fencing_token r < FencingToken w then Inl ErrWorkerUnknown else Inl ErrFenced)"
  using assms
  by (simp add: wrk_Update_def Let_def whyRefused_def
      returning_key [OF wf_db_distinct_workers [OF assms]] split: option.split)

lemma wrk_Update_refused:
  assumes "wf_db d" and "fst (wrk_Update w d) = Inl e"
  shows "snd (wrk_Update w d) = d"
proof -
  have "\<not> (wr_id r = wID w \<and> wr_fencing_token r = FencingToken w)" if "r \<in> set (workers d)" for r
    using assms(2) that row_by_of_mem [OF wf_db_distinct_workers [OF assms(1)] that]
    by (auto simp: wrk_Update_outcome [OF assms(1)])
  then show ?thesis by (simp add: wrk_Update_db update_workers_def upd_where_none)
qed

lemma ClaimInventory_outcome:
  assumes "wf_db d"
  shows "fst (ClaimInventory i token d) =
    Inr (case worker_row_of i d of
           None \<Rightarrow> False
         | Some r \<Rightarrow> wr_fencing_token r = token \<and> wr_inventory_token r \<noteq> token)"
proof -
  have "fst (ClaimInventory i token d) = Inr (returning
     (\<lambda>w. wr_id w = i \<and> wr_fencing_token w = token \<and> wr_inventory_token w \<noteq> token) id (workers d) \<noteq> [])"
    by (simp add: ClaimInventory_def Let_def count_where_def returning_def)
  then show ?thesis
    by (simp add: returning_key [OF wf_db_distinct_workers [OF assms]] split: option.split)
qed

lemma ClaimInventory_row:
  "worker_row_of j (snd (ClaimInventory i token d)) =
     map_option (\<lambda>w. if wr_id w = i \<and> wr_fencing_token w = token \<and> wr_inventory_token w \<noteq> token
                     then w\<lparr>wr_inventory_token := token\<rparr> else w) (worker_row_of j d)"
  by (simp add: ClaimInventory_def Let_def row_by_upd_where)

subsection \<open>Properties\<close>

text \<open>The tokens of a worker are strictly increasing over its registrations, also when the
  database lost them: the token handed out is above the persisted one and above the one the
  process presents, the row carries it, and the first inventory of the new incarnation has
  not been claimed.\<close>

lemma Register_advances_token:
  assumes "wf_db d" and "wrk_Register w d = (Inr w', d')"
  shows "FencingToken w < FencingToken w' \<and> 0 < FencingToken w'
    \<and> (\<forall>r. worker_row_of (wID w) d = Some r \<longrightarrow> wr_fencing_token r < FencingToken w')
    \<and> (\<exists>r'. worker_row_of (wID w) d' = Some r' \<and> wr_fencing_token r' = FencingToken w'
          \<and> wr_inventory_token r' < FencingToken w' \<and> wr_registered_at r' = clock d
          \<and> wr_last_heartbeat r' = clock d \<and> wr_inactive_since r' = None)"
proof (cases "worker_row_of (wID w) d")
  case None
  with assms(2) show ?thesis
    by (auto simp: wrk_Register_def Let_def wrk_insert_def scanWorker_def row_by_append
        split: if_splits)
next
  case (Some r)
  with assms have "worker_row_ok r" "wr_id r = wID w"
    by (auto dest!: row_by_SomeD intro: wf_worker_row)
  with Some assms(2) show ?thesis
    by (auto simp: wrk_Register_def Let_def scanWorker_def row_by_upd_where worker_row_ok_def
        split: if_splits)
qed

definition sample_process :: "int \<Rightarrow> Worker" where
  "sample_process token = \<lparr>wID = ''w1'', Address = ''10.0.0.8'', wPort = 9091,
     wStatus = WorkerStatusActive, Budget = \<lparr>Cpu_budget = 8, Mem_budget = 4096\<rparr>, Capacity = 4,
     FencingToken = token, Last_heartbeat = 0, running_sandboxes = 0, cpu_usage = 1, mem_usage = 1\<rparr>"



end
