(* ===== verification/Go_Strings.thy ===== *)
theory Go_Strings
  imports Prelude "HOL-Library.Sublist"
begin

text \<open>
  The functions of Go's \<^verbatim>\<open>strings\<close> and \<^verbatim>\<open>strconv\<close> packages the sources call, on strings as
  sequences of bytes.  White space is \<^verbatim>\<open>unicode.IsSpace\<close> in UTF-8; lower-casing covers the
  ASCII letters and the two other letters whose lower case is ASCII.  Decimal numbers are
  read with their width, and \<open>None\<close> is a syntax or a range error.
\<close>

subsection \<open>Trimming\<close>

definition space_runes :: "string list" where
  "space_runes =
     [[CHR 0x09], [CHR 0x0A], [CHR 0x0B], [CHR 0x0C], [CHR 0x0D], [CHR 0x20],
      [CHR 0xC2, CHR 0x85], [CHR 0xC2, CHR 0xA0], [CHR 0xE1, CHR 0x9A, CHR 0x80],
      [CHR 0xE2, CHR 0x80, CHR 0x80], [CHR 0xE2, CHR 0x80, CHR 0x81], [CHR 0xE2, CHR 0x80, CHR 0x82],
      [CHR 0xE2, CHR 0x80, CHR 0x83], [CHR 0xE2, CHR 0x80, CHR 0x84], [CHR 0xE2, CHR 0x80, CHR 0x85],
      [CHR 0xE2, CHR 0x80, CHR 0x86], [CHR 0xE2, CHR 0x80, CHR 0x87], [CHR 0xE2, CHR 0x80, CHR 0x88],
      [CHR 0xE2, CHR 0x80, CHR 0x89], [CHR 0xE2, CHR 0x80, CHR 0x8A], [CHR 0xE2, CHR 0x80, CHR 0xA8],
      [CHR 0xE2, CHR 0x80, CHR 0xA9], [CHR 0xE2, CHR 0x80, CHR 0xAF], [CHR 0xE2, CHR 0x81, CHR 0x9F],
      [CHR 0xE3, CHR 0x80, CHR 0x80]]"

lemma space_runes_nonempty: "p \<in> set space_runes \<Longrightarrow> p \<noteq> []"
  by (auto simp: space_runes_def)

definition has_prefix :: "string \<Rightarrow> string \<Rightarrow> bool" where
  "has_prefix s p \<longleftrightarrow> take (length p) s = p"

lemma has_prefix_append [simp]: "has_prefix (p @ s) p"
  by (simp add: has_prefix_def)

lemma has_prefix_iff: "has_prefix s p \<longleftrightarrow> (\<exists>t. s = p @ t)"
  unfolding has_prefix_def by (metis append_eq_conv_conj append_take_drop_id)

function strip_runes :: "string list \<Rightarrow> string \<Rightarrow> string" where
  "strip_runes rs s =
     (case find (\<lambda>p. p \<noteq> [] \<and> has_prefix s p) rs of
        None \<Rightarrow> s
      | Some p \<Rightarrow> strip_runes rs (drop (length p) s))"
  by pat_completeness auto
termination
proof (relation "measure (\<lambda>(rs, s). length s)")
  fix rs :: "string list" and s p :: string
  assume "find (\<lambda>p. p \<noteq> [] \<and> has_prefix s p) rs = Some p"
  then have "p \<noteq> []" "has_prefix s p"
    by (auto simp: find_Some_iff)
  then show "((rs, drop (length p) s), rs, s) \<in> measure (\<lambda>(rs, s). length s)"
    by (cases s) (auto simp: has_prefix_iff)
qed simp

declare strip_runes.simps [simp del]

definition TrimLeft :: "string \<Rightarrow> string" where
  "TrimLeft s = strip_runes space_runes s"

definition TrimRight :: "string \<Rightarrow> string" where
  "TrimRight s = rev (strip_runes (map rev space_runes) (rev s))"

definition TrimSpace :: "string \<Rightarrow> string" where
  "TrimSpace s = TrimRight (TrimLeft s)"

lemma strip_runes_None:
  "find (\<lambda>p. p \<noteq> [] \<and> has_prefix s p) rs = None \<Longrightarrow> strip_runes rs s = s"
  by (subst strip_runes.simps) simp

lemma strip_runes_Some:
  "find (\<lambda>p. p \<noteq> [] \<and> has_prefix s p) rs = Some q \<Longrightarrow>
   strip_runes rs s = strip_runes rs (drop (length q) s)"
  by (subst strip_runes.simps) simp

lemma strip_runes_fixed:
  "(\<And>p. p \<in> set rs \<Longrightarrow> p \<noteq> [] \<Longrightarrow> \<not> has_prefix s p) \<Longrightarrow> strip_runes rs s = s"
  by (rule strip_runes_None) (auto simp: find_None_iff)

lemma strip_runes_stripped: "p \<in> set rs \<Longrightarrow> p \<noteq> [] \<Longrightarrow> \<not> has_prefix (strip_runes rs s) p"
proof (induction rs s rule: strip_runes.induct)
  case (1 rs s)
  show ?case
  proof (cases "find (\<lambda>p. p \<noteq> [] \<and> has_prefix s p) rs")
    case None
    with 1(2,3) strip_runes_None [OF None] show ?thesis by (auto simp: find_None_iff)
  next
    case (Some q)
    with 1 strip_runes_Some [OF Some] show ?thesis by simp
  qed
qed

lemma strip_runes_idem [simp]: "strip_runes rs (strip_runes rs s) = strip_runes rs s"
  by (rule strip_runes_fixed) (rule strip_runes_stripped)

lemma strip_runes_suffix: "\<exists>p. s = p @ strip_runes rs s"
proof (induction rs s rule: strip_runes.induct)
  case (1 rs s)
  show ?case
  proof (cases "find (\<lambda>p. p \<noteq> [] \<and> has_prefix s p) rs")
    case None
    with strip_runes_None [OF None] show ?thesis by simp
  next
    case (Some q)
    with 1 obtain p where "drop (length q) s = p @ strip_runes rs (drop (length q) s)" by auto
    then have "s = (take (length q) s @ p) @ strip_runes rs s"
      unfolding strip_runes_Some [OF Some] by (metis append.assoc append_take_drop_id)
    then show ?thesis by blast
  qed
qed

lemma TrimRight_prefix: "\<exists>t. s = TrimRight s @ t"
  using strip_runes_suffix [of "rev s" "map rev space_runes"]
  unfolding TrimRight_def by (metis rev_append rev_rev_ident)

text \<open>Trimming twice is trimming once.\<close>

lemma TrimSpace_idem [simp]: "TrimSpace (TrimSpace s) = TrimSpace s"
proof -
  let ?l = "TrimLeft s"
  have "TrimLeft (TrimRight ?l) = TrimRight ?l"
    unfolding TrimLeft_def
  proof (rule strip_runes_fixed)
    fix p assume "p \<in> set space_runes" and "p \<noteq> []"
    then have "\<not> has_prefix (strip_runes space_runes s) p" by (rule strip_runes_stripped)
    moreover obtain t where "strip_runes space_runes s = TrimRight (strip_runes space_runes s) @ t"
      using TrimRight_prefix by blast
    ultimately show "\<not> has_prefix (TrimRight (strip_runes space_runes s)) p"
      unfolding has_prefix_iff by (metis append.assoc)
  qed
  then show ?thesis by (simp add: TrimSpace_def TrimRight_def)
qed

lemma TrimSpace_Nil [simp]: "TrimSpace [] = []"
  by (simp add: TrimSpace_def TrimLeft_def TrimRight_def strip_runes_fixed has_prefix_def)

text \<open>A string of visible ASCII characters is left as it is.\<close>

definition plain_char :: "char \<Rightarrow> bool" where
  "plain_char c \<longleftrightarrow> (33 :: nat) \<le> of_char c \<and> (of_char c :: nat) \<le> 126"

lemma space_runes_ends:
  "p \<in> set space_runes \<Longrightarrow> \<not> plain_char (hd p) \<and> \<not> plain_char (hd (rev p))"
  by (auto simp: space_runes_def plain_char_def)

lemma not_prefix_hd: "p \<noteq> [] \<Longrightarrow> list_all plain_char s \<Longrightarrow> \<not> plain_char (hd p) \<Longrightarrow> \<not> has_prefix s p"
  by (cases p) (auto simp: has_prefix_iff)

lemma TrimSpace_plain:
  assumes "list_all plain_char s"
  shows "TrimSpace s = s"
proof -
  have "TrimLeft s = s"
    unfolding TrimLeft_def using assms space_runes_ends
    by (intro strip_runes_fixed not_prefix_hd) auto
  moreover have "strip_runes (map rev space_runes) (rev s) = rev s"
    using assms space_runes_ends by (intro strip_runes_fixed not_prefix_hd) auto
  ultimately show ?thesis by (simp add: TrimSpace_def TrimRight_def)
qed

text \<open>So is one that begins and ends with visible characters, and the space and newline around it go.\<close>

lemma not_prefix_hd': "p \<noteq> [] \<Longrightarrow> s \<noteq> [] \<Longrightarrow> plain_char (hd s) \<Longrightarrow> \<not> plain_char (hd p) \<Longrightarrow> \<not> has_prefix s p"
  by (cases p) (auto simp: has_prefix_iff)

lemma strip_runes_first:
  assumes "[c] \<in> set rs" and "\<And>p. p \<in> set rs \<Longrightarrow> p \<noteq> [] \<Longrightarrow> hd p = c \<Longrightarrow> p = [c]"
  shows "strip_runes rs (c # s) = strip_runes rs s"
proof (cases "find (\<lambda>p. p \<noteq> [] \<and> has_prefix (c # s) p) rs")
  case None
  with assms(1) show ?thesis by (auto simp: find_None_iff has_prefix_def)
next
  case (Some q)
  then have "q \<in> set rs" "q \<noteq> []" "has_prefix (c # s) q" by (auto simp: find_Some_iff)
  moreover from this have "hd q = c" by (auto simp: has_prefix_iff Cons_eq_append_conv)
  ultimately have "q = [c]" using assms(2) by blast
  with strip_runes_Some [OF Some] show ?thesis by simp
qed

lemma TrimLeft_visible: "s \<noteq> [] \<Longrightarrow> plain_char (hd s) \<Longrightarrow> TrimLeft s = s"
  unfolding TrimLeft_def using space_runes_ends by (intro strip_runes_fixed not_prefix_hd') auto

lemma TrimRight_visible: "s \<noteq> [] \<Longrightarrow> plain_char (last s) \<Longrightarrow> TrimRight s = s"
proof -
  assume "s \<noteq> []" "plain_char (last s)"
  then have "strip_runes (map rev space_runes) (rev s) = rev s"
    using space_runes_ends by (intro strip_runes_fixed not_prefix_hd') (auto simp: hd_rev)
  then show ?thesis by (simp add: TrimRight_def)
qed

lemma TrimLeft_space: "TrimLeft (CHR 0x20 # s) = TrimLeft s"
  unfolding TrimLeft_def by (rule strip_runes_first) (auto simp: space_runes_def)

lemma TrimRight_newline: "TrimRight (s @ [CHR 0x0A]) = TrimRight s"
proof -
  have "strip_runes (map rev space_runes) (CHR 0x0A # rev s) = strip_runes (map rev space_runes) (rev s)"
    by (rule strip_runes_first) (auto simp: space_runes_def)
  then show ?thesis by (simp add: TrimRight_def)
qed

lemma TrimSpace_visible: "s \<noteq> [] \<Longrightarrow> plain_char (hd s) \<Longrightarrow> plain_char (last s) \<Longrightarrow> TrimSpace s = s"
  by (simp add: TrimSpace_def TrimLeft_visible TrimRight_visible)

lemma TrimSpace_line:
  "s \<noteq> [] \<Longrightarrow> plain_char (hd s) \<Longrightarrow> plain_char (last s) \<Longrightarrow> TrimSpace (s @ [CHR 0x0A]) = s"
  by (simp add: TrimSpace_def TrimLeft_visible TrimRight_newline TrimRight_visible)

lemma TrimSpace_field:
  "s \<noteq> [] \<Longrightarrow> plain_char (hd s) \<Longrightarrow> plain_char (last s) \<Longrightarrow> TrimSpace (CHR 0x20 # s) = s"
  by (simp add: TrimSpace_def TrimLeft_space TrimLeft_visible TrimRight_visible)

text \<open>\<^verbatim>\<open>strings.Fields\<close>: the maximal runs without a space rune.\<close>

fun break_space :: "string \<Rightarrow> string \<times> string" where
  "break_space [] = ([], [])"
| "break_space (c # s) =
     (if list_ex (has_prefix (c # s)) space_runes then ([], c # s)
      else case break_space s of (a, b) \<Rightarrow> (c # a, b))"

lemma break_space_append: "break_space s = (a, b) \<Longrightarrow> s = a @ b"
  by (induction s arbitrary: a) (auto split: if_splits prod.splits)

lemma strip_runes_length: "length (strip_runes rs s) \<le> length s"
  by (induction rs s rule: strip_runes.induct) (subst strip_runes.simps, auto split: option.split)

function Fields :: "string \<Rightarrow> string list" where
  "Fields s =
     (case TrimLeft s of
        [] \<Rightarrow> []
      | c # s' \<Rightarrow> (case break_space s' of (a, b) \<Rightarrow> (c # a) # Fields b))"
  by pat_completeness auto

termination
proof (relation "measure length")
  fix s c s' a b
  assume "TrimLeft s = c # s'" and "(a, b) = break_space s'"
  then have "length (c # s') \<le> length s" "length b \<le> length s'"
    using strip_runes_length [of space_runes s] break_space_append [of s' a b]
    by (auto simp: TrimLeft_def dest: sym)
  then show "(b, s) \<in> measure length" by simp
qed simp

declare Fields.simps [simp del]

subsection \<open>Case, prefixes and separators\<close>

definition lower_char :: "char \<Rightarrow> char" where
  "lower_char c = (let n = of_char c :: nat in if 65 \<le> n \<and> n \<le> 90 then char_of (n + 32) else c)"

fun ToLower :: "string \<Rightarrow> string" where
  "ToLower [] = []"
| "ToLower (c # s) =
     (if c = CHR 0xC4 \<and> take 1 s = [CHR 0xB0] then CHR ''i'' # ToLower (drop 1 s)
      else if c = CHR 0xE2 \<and> take 2 s = [CHR 0x84, CHR 0xAA] then CHR ''k'' # ToLower (drop 2 s)
      else lower_char c # ToLower s)"

definition HasPrefix :: "string \<Rightarrow> string \<Rightarrow> bool" where
  "HasPrefix s p = has_prefix s p"

definition TrimPrefix :: "string \<Rightarrow> string \<Rightarrow> string" where
  "TrimPrefix s p = (if has_prefix s p then drop (length p) s else s)"

definition TrimSuffix :: "string \<Rightarrow> string \<Rightarrow> string" where
  "TrimSuffix s p = (if has_prefix (rev s) (rev p) then take (length s - length p) s else s)"

definition CutPrefix :: "string \<Rightarrow> string \<Rightarrow> string \<times> bool" where
  "CutPrefix s p = (if has_prefix s p then (drop (length p) s, True) else (s, False))"

fun Contains :: "string \<Rightarrow> string \<Rightarrow> bool" where
  "Contains [] p = (p = [])"
| "Contains (c # s) p = (has_prefix (c # s) p \<or> Contains s p)"

text \<open>\<^verbatim>\<open>strings.Cut\<close> for a separator of one byte, and \<^verbatim>\<open>strings.Split\<close> likewise.\<close>

fun Cut :: "string \<Rightarrow> char \<Rightarrow> string \<times> string \<times> bool" where
  "Cut [] sep = ([], [], False)"
| "Cut (c # s) sep =
     (if c = sep then ([], s, True)
      else case Cut s sep of (a, b, ok) \<Rightarrow> (c # a, b, ok))"

fun Split :: "string \<Rightarrow> char \<Rightarrow> string list" where
  "Split [] sep = [[]]"
| "Split (c # s) sep =
     (case Split s sep of
        [] \<Rightarrow> [[c]]
      | f # fs \<Rightarrow> if c = sep then [] # f # fs else (c # f) # fs)"

lemma Split_nonempty [simp]: "Split s sep \<noteq> []"
  by (induction s) (auto split: list.splits)

lemma Cut_found: "sep \<notin> set a \<Longrightarrow> Cut (a @ sep # b) sep = (a, b, True)"
  by (induction a) auto

lemma Cut_notfound: "sep \<notin> set a \<Longrightarrow> Cut a sep = (a, [], False)"
  by (induction a) auto

subsection \<open>Decimal numbers\<close>

definition digit_char :: "nat \<Rightarrow> char" where
  "digit_char n = char_of (48 + n)"

definition digit_val :: "char \<Rightarrow> nat option" where
  "digit_val c = (let n = of_char c :: nat in if 48 \<le> n \<and> n \<le> 57 then Some (n - 48) else None)"

lemma digit_val_char [simp]: "n < 10 \<Longrightarrow> digit_val (digit_char n) = Some n"
  by (simp add: digit_val_def digit_char_def Let_def)

fun dec_digits :: "nat \<Rightarrow> string" where
  "dec_digits n = (if n < 10 then [digit_char n] else dec_digits (n div 10) @ [digit_char (n mod 10)])"

declare dec_digits.simps [simp del]

fun dec_value :: "nat \<Rightarrow> string \<Rightarrow> nat option" where
  "dec_value acc [] = Some acc"
| "dec_value acc (c # s) =
     (case digit_val c of None \<Rightarrow> None | Some v \<Rightarrow> dec_value (acc * 10 + v) s)"

lemma dec_value_append:
  "dec_value acc (s @ t) = (case dec_value acc s of None \<Rightarrow> None | Some v \<Rightarrow> dec_value v t)"
  by (induction s arbitrary: acc) (auto split: option.splits)

lemma dec_value_digits: "dec_value 0 (dec_digits n) = Some n"
proof (induction n rule: less_induct)
  case (less n)
  show ?case
  proof (cases "n < 10")
    case True
    then show ?thesis by (subst dec_digits.simps) simp
  next
    case False
    then have "dec_value 0 (dec_digits (n div 10)) = Some (n div 10)" by (intro less) simp
    with False show ?thesis
      by (subst dec_digits.simps) (simp add: dec_value_append)
  qed
qed

lemma dec_digits_nonempty [simp]: "dec_digits n \<noteq> []"
  by (subst dec_digits.simps) simp

definition Itoa :: "int \<Rightarrow> string" where
  "Itoa n = (if n < 0 then CHR ''-'' # dec_digits (nat (- n)) else dec_digits (nat n))"

text \<open>\<^verbatim>\<open>strconv.Atoi\<close> on a 64-bit machine: an optional sign, then digits, within \<^verbatim>\<open>int64\<close>.\<close>

definition parse_digits :: "string \<Rightarrow> nat option" where
  "parse_digits s = (if s = [] then None else dec_value 0 s)"

definition Atoi :: "string \<Rightarrow> int option" where
  "Atoi s =
     (let neg = has_prefix s ''-'';
          body = (if neg \<or> has_prefix s ''+'' then drop 1 s else s)
      in case parse_digits body of
           None \<Rightarrow> None
         | Some v \<Rightarrow> (let n = (if neg then - int v else int v)
                     in if int64_min \<le> n \<and> n \<le> int64_max then Some n else None))"

definition ParseUint :: "string \<Rightarrow> nat \<Rightarrow> nat option" where
  "ParseUint s bits =
     (case parse_digits s of None \<Rightarrow> None | Some v \<Rightarrow> if v < 2 ^ bits then Some v else None)"

lemma dec_digits_head:
  "\<exists>c s. dec_digits n = c # s \<and> digit_val c \<noteq> None"
proof (induction n rule: less_induct)
  case (less n)
  show ?case
  proof (cases "n < 10")
    case True
    then show ?thesis by (subst dec_digits.simps) simp
  next
    case False
    then obtain c s where "dec_digits (n div 10) = c # s" "digit_val c \<noteq> None"
      using less [of "n div 10"] by auto
    with False show ?thesis by (subst dec_digits.simps) simp
  qed
qed

lemma digit_not_sign: "digit_val c \<noteq> None \<Longrightarrow> c \<noteq> CHR ''-'' \<and> c \<noteq> CHR ''+''"
  by (auto simp: digit_val_def)

lemma Atoi_Itoa:
  assumes "int64_min \<le> n" and "n \<le> int64_max"
  shows "Atoi (Itoa n) = Some n"
proof -
  have digits: "parse_digits (dec_digits m) = Some m" for m
    by (simp add: parse_digits_def dec_value_digits)
  show ?thesis
  proof (cases "n < 0")
    case True
    with assms show ?thesis by (simp add: Itoa_def Atoi_def has_prefix_def digits)
  next
    case False
    obtain c s where d: "dec_digits (nat n) = c # s" "digit_val c \<noteq> None"
      using dec_digits_head by blast
    then have "\<not> has_prefix (dec_digits (nat n)) ''-''" "\<not> has_prefix (dec_digits (nat n)) ''+''"
      using digit_not_sign [OF d(2)] by (simp_all add: has_prefix_def)
    with False assms show ?thesis by (simp add: Itoa_def Atoi_def digits)
  qed
qed

text \<open>The decimal form of a number is made of digits, after a minus sign if it is negative.\<close>

lemma digit_visible: "digit_val c \<noteq> None \<Longrightarrow> plain_char c"
  by (auto simp: digit_val_def plain_char_def Let_def split: if_splits)

lemma dec_digits_all: "list_all (\<lambda>c. digit_val c \<noteq> None) (dec_digits n)"
proof (induction n rule: dec_digits.induct)
  case (1 n)
  then show ?case by (subst dec_digits.simps) simp
qed

lemma Itoa_all: "list_all (\<lambda>c. c = CHR ''-'' \<or> digit_val c \<noteq> None) (Itoa n)"
  using dec_digits_all by (auto simp: Itoa_def list_all_iff)

lemma Itoa_nonempty [simp]: "Itoa n \<noteq> []"
  by (simp add: Itoa_def)

lemma Itoa_visible: "list_all plain_char (Itoa n)"
proof -
  have "plain_char c" if "c = CHR ''-'' \<or> digit_val c \<noteq> None" for c
    using that digit_visible by (elim disjE) (simp add: plain_char_def, blast)
  with Itoa_all [of n] show ?thesis by (simp add: list_all_iff)
qed

lemma Itoa_ends: "plain_char (hd (Itoa n))" "plain_char (last (Itoa n))"
  using Itoa_visible [of n] by (auto simp: list_all_iff)

end
