(* ===== verification/Wire.thy ===== *)
theory Wire
  imports Schema Go_Strings
begin

text \<open>
  The messages of \<^verbatim>\<open>proto/orchestrator/v1\<close> and \<^verbatim>\<open>proto/worker/v1\<close> and the gRPC status codes the two sides exchange.
  A message that may be absent is an \<open>option\<close>; the getters of an absent message return the
  zero values, which the handlers below refuse first.
\<close>

datatype grpc_code =
    InvalidArgument
  | NotFound
  | AlreadyExists
  | PermissionDenied
  | ResourceExhausted
  | FailedPrecondition
  | Unimplemented
  | Internal
  | Unavailable
  | DeadlineExceeded
  | Unauthenticated
  | UnknownCode

datatype SandboxState =
    SANDBOX_STATE_UNSPECIFIED
  | SANDBOX_STATE_STARTING
  | SANDBOX_STATE_RUNNING
  | SANDBOX_STATE_PAUSED
  | SANDBOX_STATE_UNKNOWN
  | SANDBOX_STATE_DEAD
  | SANDBOX_STATE_OTHER int

text \<open>The text of an enum value; a number the enum does not name prints as the number.\<close>

fun state_String :: "SandboxState \<Rightarrow> string" where
  "state_String SANDBOX_STATE_UNSPECIFIED = ''SANDBOX_STATE_UNSPECIFIED''"
| "state_String SANDBOX_STATE_STARTING = ''SANDBOX_STATE_STARTING''"
| "state_String SANDBOX_STATE_RUNNING = ''SANDBOX_STATE_RUNNING''"
| "state_String SANDBOX_STATE_PAUSED = ''SANDBOX_STATE_PAUSED''"
| "state_String SANDBOX_STATE_UNKNOWN = ''SANDBOX_STATE_UNKNOWN''"
| "state_String SANDBOX_STATE_DEAD = ''SANDBOX_STATE_DEAD''"
| "state_String (SANDBOX_STATE_OTHER n) = Itoa n"

record SandboxInventoryEntry =
  SandboxId :: string
  entry_State :: SandboxState

record WorkerHeartbeat =
  WorkerId :: string
  hb_Status :: string
  hb_Address :: string
  hb_Port :: int
  hb_Capacity :: int
  hb_CpuBudget :: int
  hb_MemBudget :: int
  hb_CpuUsage :: int
  hb_MemUsage :: int
  hb_FencingToken :: int
  InventoryComplete :: bool
  hb_Sandboxes :: "SandboxInventoryEntry list"

record SandboxEventMsg =
  msg_Id :: string
  msg_SandboxId :: string
  msg_WorkerId :: string
  msg_OccurredAt :: "time option"
  msg_FencingToken :: int
  msg_State :: SandboxState

record CreateSandboxRequest =
  req_Id :: string
  req_Runtime :: string
  req_Image :: string
  req_Port :: int
  req_Ttl :: int
  req_PreviewUrl :: string
  req_VcpuCount :: int
  req_MemSizeMib :: int

record WorkerInfo =
  wi_Id :: string
  wi_Address :: string
  wi_Status :: string
  wi_CpuBudget :: int
  wi_MemBudget :: int
  wi_Capacity :: int
  wi_CpuUsage :: int
  wi_MemUsage :: int
  wi_LastHeartbeat :: time

end
