(* ===== verification/Ledger.thy ===== *)
theory Ledger
  imports Worker_Repository Wire
begin

text \<open>
  What ties the rows of the sandboxes to the jobs inserted for them, and the contract of a
  whole transaction.  \<open>covered\<close>: a sandbox that waits for its cleanup has a cleanup job.
  \<open>grounded\<close>: a cleanup job is only ever inserted for a sandbox that is over, with a terminal
  target, and a create job for a sandbox that exists.  \<open>tidy\<close>: a sandbox in a terminal status
  holds no worker.  A repository call alone may break \<open>covered\<close> (it claims rows before the job
  is inserted); a transaction does not.
\<close>

subsection \<open>Invariants\<close>

definition cleanup_job_for :: "string \<Rightarrow> job_insert \<Rightarrow> bool" where
  "cleanup_job_for i j \<longleftrightarrow> (case fst j of CleanupSandboxArgs k _ \<Rightarrow> k = i | _ \<Rightarrow> False)"

definition cleanup_target :: "string \<Rightarrow> Status" where
  "cleanup_target t = (if t = [] then StatusFailed else status_of_text t)"

definition covered :: "db \<Rightarrow> bool" where
  "covered d \<longleftrightarrow> (\<forall>r \<in> set (sandboxes d). sbx_Status r = StatusCleanupPending \<longrightarrow>
     (\<exists>j \<in> set (jobs d). cleanup_job_for (ID r) j))"

fun job_grounded :: "db \<Rightarrow> job_args \<Rightarrow> bool" where
  "job_grounded d (CleanupSandboxArgs i t) =
     ((case sandbox_row_of i d of None \<Rightarrow> False | Some r \<Rightarrow> sbx_Status r \<notin> in_flight)
      \<and> cleanup_target t \<in> {StatusStopped, StatusFailed})"
| "job_grounded d (CreateSandboxArgs i) = (sandbox_row_of i d \<noteq> None)"
| "job_grounded d _ = True"

definition grounded :: "db \<Rightarrow> bool" where
  "grounded d \<longleftrightarrow> (\<forall>j \<in> set (jobs d). job_grounded d (fst j))"

definition tidy :: "db \<Rightarrow> bool" where
  "tidy d \<longleftrightarrow> (\<forall>r \<in> set (sandboxes d). sbx_Status r \<in> terminal \<longrightarrow> WorkerID r = None)"

definition books_ok :: "db \<Rightarrow> bool" where
  "books_ok d \<longleftrightarrow> covered d \<and> grounded d \<and> tidy d"

text \<open>A job stays grounded: rows never vanish and never come back in flight.\<close>

lemma not_in_flight_step: "status_step s t \<Longrightarrow> s \<notin> in_flight \<Longrightarrow> t \<notin> in_flight"
  by (auto elim: status_step.cases)

lemma not_in_flight_reach: "status_reach s t \<Longrightarrow> s \<notin> in_flight \<Longrightarrow> t \<notin> in_flight"
  by (induction rule: rtranclp_induct) (auto dest: not_in_flight_step)

lemma job_grounded_legal:
  assumes "legal_db d d'" and "job_grounded d j"
  shows "job_grounded d' j"
proof (cases j)
  case (CleanupSandboxArgs i t)
  with assms(2) obtain r where r: "sandbox_row_of i d = Some r" "sbx_Status r \<notin> in_flight"
    and t: "cleanup_target t \<in> {StatusStopped, StatusFailed}"
    by (auto split: option.splits)
  obtain r' where "sandbox_row_of i d' = Some r'" "row_step r r'"
    by (rule legal_db_rowD [OF assms(1) r(1)])
  with r(2) t not_in_flight_reach show ?thesis
    by (auto simp: CleanupSandboxArgs row_step_def)
next
  case (CreateSandboxArgs i)
  with assms show ?thesis by (auto elim!: legal_db_rowD)
qed simp_all

lemma grounded_legal:
  assumes "legal_db d d'" and "grounded d" and "jobs d' = jobs d @ js"
    and "\<And>j. j \<in> set js \<Longrightarrow> job_grounded d' (fst j)"
  shows "grounded d'"
  using assms job_grounded_legal [OF assms(1)] by (auto simp: grounded_def)

subsection \<open>The contract of a transaction\<close>

definition sound_step :: "db \<Rightarrow> db \<Rightarrow> bool" where
  "sound_step d d' \<longleftrightarrow>
     (wf_db d \<and> books_ok d \<longrightarrow> legal_db d d' \<and> wf_db d' \<and> books_ok d')"

lemma sound_step_refl [simp]: "sound_step d d"
  by (simp add: sound_step_def)

lemma sound_step_trans [trans]: "sound_step a b \<Longrightarrow> sound_step b c \<Longrightarrow> sound_step a c"
  by (auto simp: sound_step_def intro: legal_db_trans)

lemma sound_stepI:
  assumes "wf_db d \<Longrightarrow> books_ok d \<Longrightarrow> legal_db d d'"
    and "wf_db d \<Longrightarrow> books_ok d \<Longrightarrow> wf_db d'"
    and "wf_db d \<Longrightarrow> books_ok d \<Longrightarrow> books_ok d'"
  shows "sound_step d d'"
  using assms by (simp add: sound_step_def)

locale transaction =
  fixes oper :: "db \<Rightarrow> 'r \<times> db"
  assumes sound: "sound_step d (snd (oper d))"
begin

lemma cleanup_pending_has_job:
  assumes "wf_db d" and "books_ok d" and "sandbox_row_of i (snd (oper d)) = Some r"
    and "sbx_Status r = StatusCleanupPending"
  shows "\<exists>j \<in> set (jobs (snd (oper d))). cleanup_job_for i j"
proof -
  have "covered (snd (oper d))"
    using sound [of d] assms(1,2) by (simp add: sound_step_def books_ok_def)
  with row_by_SomeD [OF assms(3)] assms(4) show ?thesis unfolding covered_def by blast
qed

lemma terminal_holds_no_worker:
  assumes "wf_db d" and "books_ok d" and "sandbox_row_of i (snd (oper d)) = Some r"
    and "sbx_Status r \<in> terminal"
  shows "WorkerID r = None"
proof -
  have "tidy (snd (oper d))"
    using sound [of d] assms(1,2) by (simp add: sound_step_def books_ok_def)
  with row_by_SomeD [OF assms(3)] assms(4) show ?thesis unfolding tidy_def by blast
qed

end

text \<open>An operation that changes no sandbox and inserts no job.\<close>

lemma books_same:
  assumes "sandboxes d' = sandboxes d" and "jobs d' = jobs d"
  shows "books_ok d' = books_ok d"
proof -
  have "job_grounded d' j = job_grounded d j" for j
    using assms by (cases j) auto
  with assms show ?thesis by (simp add: books_ok_def covered_def grounded_def tidy_def)
qed

text \<open>
  An update of sandbox rows followed by the insertion of jobs: the rows that become
  \<^verbatim>\<open>cleanup_pending\<close> have their job among those inserted, the rows that end keep no worker, and
  the jobs inserted are grounded.
\<close>

lemma sound_update:
  assumes safe: "safe_step d (update_sandboxes P f d)"
    and key: "\<And>r. ID (f r) = ID r"
    and cov: "\<And>r. r \<in> set (sandboxes d) \<Longrightarrow> P r \<Longrightarrow> sbx_Status (f r) = StatusCleanupPending \<Longrightarrow>
        sbx_Status r \<noteq> StatusCleanupPending \<Longrightarrow> \<exists>j \<in> set js. cleanup_job_for (ID r) j"
    and tid: "\<And>r. r \<in> set (sandboxes d) \<Longrightarrow> P r \<Longrightarrow> sbx_Status (f r) \<in> terminal \<Longrightarrow>
        (sbx_Status r \<in> terminal \<longrightarrow> WorkerID r = None) \<Longrightarrow> WorkerID (f r) = None"
    and gr: "\<And>j. wf_db d \<Longrightarrow> j \<in> set js \<Longrightarrow> job_grounded (update_sandboxes P f d) (fst j)"
  shows "sound_step d (insert_jobs js (update_sandboxes P f d))"
proof (rule sound_stepI)
  assume wf: "wf_db d" and b: "books_ok d"
  let ?d = "update_sandboxes P f d"
  have safe': "legal_db d ?d" "wf_db ?d" using safe wf by (auto simp: safe_step_def)
  show legal: "legal_db d (insert_jobs js ?d)"
    using safe'(1) legal_insert_jobs by (rule legal_db_trans)
  show "wf_db (insert_jobs js ?d)" using safe'(2) by simp
  have "covered (insert_jobs js ?d)"
    unfolding covered_def
  proof (intro ballI impI)
    fix r' assume "r' \<in> set (sandboxes (insert_jobs js ?d))"
      and st: "sbx_Status r' = StatusCleanupPending"
    then obtain r where r: "r \<in> set (sandboxes d)" "r' = (if P r then f r else r)"
      by (auto simp: set_upd_where)
    show "\<exists>j \<in> set (jobs (insert_jobs js ?d)). cleanup_job_for (ID r') j"
    proof (cases "sbx_Status r = StatusCleanupPending")
      case True
      with b r show ?thesis by (auto simp: books_ok_def covered_def key)
    next
      case False
      with r st have "P r" "sbx_Status (f r) = StatusCleanupPending" by (auto split: if_splits)
      with cov [OF r(1)] False r(2) key show ?thesis by auto
    qed
  qed
  moreover have "grounded (insert_jobs js ?d)"
  proof (rule grounded_legal [OF legal])
    from b show "grounded d" by (simp add: books_ok_def)
    show "jobs (insert_jobs js ?d) = jobs d @ js" by simp
    fix j assume "j \<in> set js"
    from gr [OF wf this] show "job_grounded (insert_jobs js ?d) (fst j)"
      by (cases "fst j") auto
  qed
  moreover have "tidy (insert_jobs js ?d)"
    unfolding tidy_def
  proof (intro ballI impI)
    fix r' assume "r' \<in> set (sandboxes (insert_jobs js ?d))" and st: "sbx_Status r' \<in> terminal"
    then obtain r where r: "r \<in> set (sandboxes d)" "r' = (if P r then f r else r)"
      by (auto simp: set_upd_where)
    have old: "sbx_Status r \<in> terminal \<longrightarrow> WorkerID r = None"
      using b r(1) unfolding books_ok_def tidy_def by blast
    show "WorkerID r' = None"
    proof (cases "P r")
      case True
      then have r': "r' = f r" by (simp only: r(2) if_True)
      show ?thesis unfolding r' by (rule tid [OF r(1) True st [unfolded r'] old])
    next
      case False
      then have r': "r' = r" by (simp only: r(2) if_False)
      from old st show ?thesis by (simp only: r' simp_thms)
    qed
  qed
  ultimately show "books_ok (insert_jobs js ?d)" by (simp add: books_ok_def)
qed

lemma insert_no_jobs [simp]: "insert_jobs [] d = d"
  by (simp add: insert_jobs_def)

lemma sound_same_books:
  assumes "safe_step d d'" and "sandboxes d' = sandboxes d" and "jobs d' = jobs d"
  shows "sound_step d d'"
  using assms(1) books_same [OF assms(2,3)] by (simp add: sound_step_def safe_step_def)

subsection \<open>Single statements that are transactions of their own\<close>

lemma safe_of_contract:
  assumes "db_operation f"
  shows "safe_step d (snd (f d))"
  using db_operation.legal [OF assms] db_operation.keeps_wf [OF assms] by (simp add: safe_step_def)

lemma UpdateStatus_sound:
  assumes "\<And>s. s \<in> set from \<Longrightarrow> status_reach s st \<and> status_change_ok s st"
    and "st \<noteq> StatusCleanupPending" and "st \<notin> terminal"
  shows "sound_step d (snd (UpdateStatus i st from d))"
proof -
  have "safe_step d (snd (UpdateStatus i st from d))"
    by (rule safe_of_contract [OF UpdateStatus_contract]) (rule assms(1))
  then have "sound_step d (insert_jobs [] (snd (UpdateStatus i st from d)))"
    unfolding UpdateStatus_db by (rule sound_update) (use assms(2,3) in simp_all)
  then show ?thesis by simp
qed

lemma UpdateStatusFenced_sound:
  assumes "\<And>s. s \<in> set from \<Longrightarrow> status_reach s st \<and> status_change_ok s st"
    and "st \<noteq> StatusCleanupPending" and "st \<notin> terminal"
  shows "sound_step d (snd (UpdateStatusFenced i w token st from d))"
proof (cases "from = []")
  case True
  then show ?thesis by (simp add: UpdateStatusFenced_def)
next
  case False
  have "safe_step d (snd (UpdateStatusFenced i w token st from d))"
    by (rule safe_of_contract [OF UpdateStatusFenced_contract]) (rule assms(1))
  with False have "sound_step d (insert_jobs [] (snd (UpdateStatusFenced i w token st from d)))"
    unfolding UpdateStatusFenced_def Let_def
    by (simp only: if_False snd_conv) (rule sound_update, use assms(2,3) in simp_all)
  then show ?thesis by simp
qed

interpretation tx_scheduling: transaction "UpdateStatus i StatusScheduling [StatusPending]" for i
  by unfold_locales (rule UpdateStatus_sound, simp_all)

interpretation tx_starting: transaction "UpdateStatus i StatusStarting [StatusAssigned]" for i
  by unfold_locales (rule UpdateStatus_sound, simp_all)

interpretation tx_running: transaction "UpdateStatus i StatusRunning [StatusStarting]" for i
  by unfold_locales (rule UpdateStatus_sound, simp_all)

interpretation tx_assign: transaction "AssignWorker i w" for i w
proof
  fix d
  have "safe_step d (snd (AssignWorker i w d))"
    by (rule safe_of_contract) unfold_locales
  then have "sound_step d (insert_jobs [] (snd (AssignWorker i w d)))"
    unfolding AssignWorker_db by (rule sound_update) simp_all
  then show "sound_step d (snd (AssignWorker i w d))" by simp
qed

interpretation tx_clear: transaction "ClearWorker i" for i
proof
  fix d
  have "safe_step d (snd (ClearWorker i d))"
    by (rule safe_of_contract) unfold_locales
  then have "sound_step d (insert_jobs [] (snd (ClearWorker i d)))"
    unfolding ClearWorker_def snd_conv by (rule sound_update) simp_all
  then show "sound_step d (snd (ClearWorker i d))" by simp
qed

interpretation tx_register: transaction "wrk_Register w" for w
  by unfold_locales
    (rule sound_same_books [OF wrk_Register_safe],
     auto simp: wrk_Register_def Let_def split: option.split)

interpretation tx_update: transaction "wrk_Update w" for w
  by unfold_locales
    (rule sound_same_books [OF safe_of_contract], unfold_locales, simp_all add: wrk_Update_db)

interpretation tx_claim_inventory: transaction "ClaimInventory i token" for i token
  by unfold_locales
    (rule sound_same_books [OF safe_of_contract], unfold_locales, simp_all add: ClaimInventory_def Let_def)

interpretation tx_mark_stale: transaction "MarkStaleInactive timeout" for timeout
  by unfold_locales
    (rule sound_same_books [OF safe_of_contract], unfold_locales, simp_all add: MarkStaleInactive_def Let_def)

interpretation tx_get: transaction "GetByID i" for i
  by unfold_locales (auto simp: GetByID_def split: option.split)

interpretation tx_wrk_get: transaction "wrk_Get i" for i
  by unfold_locales (auto simp: wrk_Get_def split: option.split)

interpretation tx_wrk_list: transaction wrk_List
  by unfold_locales (auto simp: wrk_List_def)

interpretation tx_list_active: transaction ListActive
  by unfold_locales (auto simp: ListActive_def)

subsection \<open>Claims with their jobs\<close>

text \<open>
  The shape every claim has in the code: rows in flight go to \<^verbatim>\<open>cleanup_pending\<close> and, in the same
  transaction, a cleanup job is inserted for each of them.
\<close>

definition cleanup_jobs_for :: "string list \<Rightarrow> job_insert list \<Rightarrow> bool" where
  "cleanup_jobs_for ids js \<longleftrightarrow>
     (\<forall>i \<in> set ids. \<exists>j \<in> set js. cleanup_job_for i j)
     \<and> (\<forall>j \<in> set js. case fst j of
          CleanupSandboxArgs i t \<Rightarrow> i \<in> set ids \<and> cleanup_target t \<in> {StatusStopped, StatusFailed}
        | CreateSandboxArgs _ \<Rightarrow> False | _ \<Rightarrow> True)"

lemma cleanup_update_row:
  assumes "distinct (map ID (sandboxes d))" and "i \<in> set (returning P ID (sandboxes d))"
  shows "\<exists>r. sandbox_row_of i (update_sandboxes P to_cleanup d) = Some r
           \<and> sbx_Status r = StatusCleanupPending"
proof -
  from assms(2) obtain r where r: "r \<in> set (sandboxes d)" "P r" "ID r = i"
    by (auto simp: mem_returning)
  then have "sandbox_row_of i d = Some r" using row_by_of_mem [OF assms(1) r(1)] by simp
  with r show ?thesis by (simp add: row_by_upd_where to_cleanup_def)
qed

lemma sound_claim:
  assumes "\<And>r. P r \<Longrightarrow> sbx_Status r \<in> in_flight"
    and "cleanup_jobs_for (returning P ID (sandboxes d)) js"
  shows "sound_step d (insert_jobs js (update_sandboxes P to_cleanup d))"
proof (rule sound_update)
  show "safe_step d (update_sandboxes P to_cleanup d)"
    using assms(1) by (rule safe_to_cleanup)
  fix r assume r: "r \<in> set (sandboxes d)" "P r"
  then have "ID r \<in> set (returning P ID (sandboxes d))" by (auto simp: mem_returning)
  then show "\<exists>j \<in> set js. cleanup_job_for (ID r) j"
    using assms(2) by (simp add: cleanup_jobs_for_def)
next
  fix j assume wf: "wf_db d" and "j \<in> set js"
  with assms(2) have j: "case fst j of
      CleanupSandboxArgs i t \<Rightarrow> i \<in> set (returning P ID (sandboxes d))
         \<and> cleanup_target t \<in> {StatusStopped, StatusFailed}
    | CreateSandboxArgs _ \<Rightarrow> False | _ \<Rightarrow> True"
    by (simp add: cleanup_jobs_for_def)
  show "job_grounded (update_sandboxes P to_cleanup d) (fst j)"
  proof (cases "fst j")
    case (CleanupSandboxArgs i t)
    with j obtain r where "sandbox_row_of i (update_sandboxes P to_cleanup d) = Some r"
        "sbx_Status r = StatusCleanupPending"
      using cleanup_update_row [OF wf_db_distinct [OF wf]] by auto
    with j CleanupSandboxArgs show ?thesis by simp
  qed (use j in simp_all)
qed (simp_all add: to_cleanup_def)

end
