(* ===== verification/Events.thy ===== *)
theory Events
  imports Ledger
begin

text \<open>
  \<^verbatim>\<open>orchestrator/event_grpc.go\<close> and \<^verbatim>\<open>orchestrator/event_repository.go\<close>: what the orchestrator does
  with a registration, a heartbeat and a sandbox event.  A handler takes the request and the
  database and returns a gRPC result and the database; \<open>newID\<close> is the identifier
  \<^verbatim>\<open>uuid.NewString\<close> would draw and \<open>now\<close> the process clock.  A transaction that fails leaves the
  database it started from.
\<close>

subsection \<open>event\_repository.go\<close>

definition CreateSandboxEvent :: "SandboxEvent \<Rightarrow> SandboxEvent dbop" where
  "CreateSandboxEvent e d =
     (case worker_row_of (ev_WorkerID e) d of
        None \<Rightarrow> (Inl ErrEventFenced, d)
      | Some w \<Rightarrow>
          if wr_fencing_token w \<noteq> ev_FencingToken e then (Inl ErrEventFenced, d)
          else if ev_ID e \<in> ev_ID ` set (sandbox_events d) then (Inl ErrUniqueViolation, d)
          else let row = e\<lparr>ev_WorkerID := wr_id w, ev_FencingToken := 0\<rparr>
               in (Inr row, d\<lparr>sandbox_events := sandbox_events d @ [row]\<rparr>))"

subsection \<open>Events\<close>

definition statusTransitionForState :: "SandboxState \<Rightarrow> (Status \<times> Status list) option" where
  "statusTransitionForState st =
     (case st of
        SANDBOX_STATE_RUNNING \<Rightarrow> Some (StatusRunning, [StatusStarting, StatusRunning])
      | _ \<Rightarrow> None)"

definition stateName :: "SandboxState \<Rightarrow> string" where
  "stateName st = ToLower (TrimPrefix (state_String st) ''SANDBOX_STATE_'')"

definition applyStatusFromState :: "string \<Rightarrow> string \<Rightarrow> int \<Rightarrow> SandboxState \<Rightarrow> db \<Rightarrow> db" where
  "applyStatusFromState sandboxID workerID token st d =
     (case statusTransitionForState st of
        None \<Rightarrow> d
      | Some (target, allowedFrom) \<Rightarrow>
          snd (UpdateStatusFenced sandboxID workerID token target allowedFrom d))"

definition IngestSandboxEvent ::
    "string \<Rightarrow> time \<Rightarrow> SandboxEventMsg option \<Rightarrow> db \<Rightarrow> (grpc_code + unit) \<times> db" where
  "IngestSandboxEvent newID now req d =
     (case req of
        None \<Rightarrow> (Inl InvalidArgument, d)
      | Some m \<Rightarrow>
          (let eventID = (if TrimSpace (msg_Id m) = [] then newID else TrimSpace (msg_Id m));
               occurredAt = (case msg_OccurredAt m of None \<Rightarrow> now | Some t \<Rightarrow> t);
               sandboxID = TrimSpace (msg_SandboxId m);
               workerID = TrimSpace (msg_WorkerId m);
               st = msg_State m;
               token = msg_FencingToken m
           in if sandboxID = [] then (Inl InvalidArgument, d)
              else if workerID = [] \<or> st = SANDBOX_STATE_UNSPECIFIED then (Inl InvalidArgument, d)
              else if token \<le> 0 then (Inl InvalidArgument, d)
              else
                (case CreateSandboxEvent
                        \<lparr>ev_ID = eventID, ev_SandboxID = sandboxID, ev_WorkerID = workerID,
                         ev_State = stateName st, ev_OccurredAt = occurredAt,
                         ev_FencingToken = token\<rparr> d of
                   (Inl ErrEventFenced, d') \<Rightarrow> (Inl FailedPrecondition, d')
                 | (Inl _, d') \<Rightarrow> (Inl Internal, d')
                 | (Inr _, d') \<Rightarrow> (Inr (), applyStatusFromState sandboxID workerID token st d'))))"

subsection \<open>Registration and heartbeat\<close>

definition workerFromHeartbeat :: "time \<Rightarrow> WorkerHeartbeat \<Rightarrow> Worker" where
  "workerFromHeartbeat now req =
     (let st = hb_Status req;
          workerStatus = (if st = WorkerStatusActive \<or> st = WorkerStatusInactive then st
                          else WorkerStatusActive)
      in NewWorkerFromHeartbeat now
           \<lparr>hp_ID = TrimSpace (WorkerId req), hp_Status = workerStatus,
            hp_Address = hb_Address req, hp_Port = hb_Port req, hp_Capacity = hb_Capacity req,
            hp_CpuBudget = hb_CpuBudget req, hp_MemBudget = hb_MemBudget req,
            hp_CpuUsage = hb_CpuUsage req, hp_MemUsage = hb_MemUsage req,
            hp_FencingToken = hb_FencingToken req\<rparr>)"

definition RegisterWorker ::
    "time \<Rightarrow> WorkerHeartbeat option \<Rightarrow> db \<Rightarrow> (grpc_code + int) \<times> db" where
  "RegisterWorker now req d =
     (case req of
        None \<Rightarrow> (Inl InvalidArgument, d)
      | Some hb \<Rightarrow>
          if TrimSpace (WorkerId hb) = [] then (Inl InvalidArgument, d)
          else (case wrk_Register (workerFromHeartbeat now hb) d of
                  (Inl _, d') \<Rightarrow> (Inl Internal, d')
                | (Inr w, d') \<Rightarrow> (Inr (FencingToken w), d')))"

text \<open>The loop over the entries carries the identifiers seen and the inventory built so far.\<close>

definition add_entry :: "string \<Rightarrow> SandboxState \<Rightarrow> Inventory \<Rightarrow> Inventory" where
  "add_entry i st iv =
     (case st of
        SANDBOX_STATE_RUNNING \<Rightarrow> iv\<lparr>Running := Running iv @ [i]\<rparr>
      | SANDBOX_STATE_STARTING \<Rightarrow> iv\<lparr>Live := Live iv @ [i]\<rparr>
      | SANDBOX_STATE_PAUSED \<Rightarrow> iv\<lparr>Live := Live iv @ [i]\<rparr>
      | SANDBOX_STATE_DEAD \<Rightarrow> iv\<lparr>Dead := Dead iv @ [i]\<rparr>
      | _ \<Rightarrow> iv\<lparr>Unknown := Unknown iv @ [i]\<rparr>)"

fun inventory_loop :: "SandboxInventoryEntry list \<Rightarrow> string list \<Rightarrow> Inventory \<Rightarrow> Inventory" where
  "inventory_loop [] seen iv = iv"
| "inventory_loop (e # es) seen iv =
     (let i = TrimSpace (SandboxId e)
      in if i = [] then inventory_loop es seen iv
         else if i \<in> set seen then inventory_loop es seen iv
         else inventory_loop es (i # seen) (add_entry i (entry_State e) iv))"

definition inventoryFromEntries :: "SandboxInventoryEntry list \<Rightarrow> Inventory" where
  "inventoryFromEntries es = inventory_loop es [] \<lparr>Live = [], Running = [], Unknown = [], Dead = []\<rparr>"

definition cleanupParams :: "string \<Rightarrow> Status \<Rightarrow> job_insert" where
  "cleanupParams i target =
     (CleanupSandboxArgs i (status_text target),
      Some \<lparr>Queue = ''cleanup'', ByArgs = False, ByState = []\<rparr>)"

text \<open>The options of the job's own \<^verbatim>\<open>InsertOpts\<close> method apply when the insert gives none.\<close>

definition orphan_InsertOpts :: InsertOpts where
  "orphan_InsertOpts = \<lparr>Queue = ''cleanup'', ByArgs = True,
     ByState = [JobStateAvailable, JobStatePending, JobStateRetryable, JobStateRunning, JobStateScheduled]\<rparr>"

definition heartbeat_jobs :: "string \<Rightarrow> ReconcileResult \<Rightarrow> job_insert list" where
  "heartbeat_jobs w res =
     map (\<lambda>i. cleanupParams i StatusFailed) (Lost res @ res_Dead res)
     @ map (\<lambda>i. (RemoveOrphanArgs w i, None)) (Orphans res)"

datatype heartbeat_error =
    HbRepo repo_error
  | HbNotConfigured

definition reconcileHeartbeat ::
    "bool \<Rightarrow> Worker \<Rightarrow> SandboxInventoryEntry list \<Rightarrow> db \<Rightarrow> (heartbeat_error + unit) \<times> db" where
  "reconcileHeartbeat configured w entries d =
     (if \<not> configured then (Inl HbNotConfigured, d)
      else
        (let iv = inventoryFromEntries entries
         in case wrk_Update w d of
              (Inl e, _) \<Rightarrow> (Inl (HbRepo e), d)
            | (Inr _, d1) \<Rightarrow>
                (case ClaimInventory (wID w) (FencingToken w) d1 of
                   (Inl e, _) \<Rightarrow> (Inl (HbRepo e), d)
                 | (Inr first, d2) \<Rightarrow>
                     (case ReconcileInventory (wID w) first iv d2 of
                        (Inl e, _) \<Rightarrow> (Inl (HbRepo e), d)
                      | (Inr res, d3) \<Rightarrow>
                          (Inr (), insert_jobs (heartbeat_jobs (wID w) res) d3)))))"

fun heartbeatError :: "heartbeat_error \<Rightarrow> grpc_code" where
  "heartbeatError (HbRepo ErrFenced) = FailedPrecondition"
| "heartbeatError (HbRepo ErrWorkerUnknown) = NotFound"
| "heartbeatError _ = Internal"

definition ReportWorkerHeartbeat ::
    "bool \<Rightarrow> time \<Rightarrow> WorkerHeartbeat option \<Rightarrow> db \<Rightarrow> (grpc_code + unit) \<times> db" where
  "ReportWorkerHeartbeat configured now req d =
     (case req of
        None \<Rightarrow> (Inl InvalidArgument, d)
      | Some hb \<Rightarrow>
          if TrimSpace (WorkerId hb) = [] then (Inl InvalidArgument, d)
          else if hb_FencingToken hb \<le> 0 then (Inl InvalidArgument, d)
          else
            (let w = workerFromHeartbeat now hb
             in if \<not> InventoryComplete hb then
                  (case wrk_Update w d of
                     (Inl e, d') \<Rightarrow> (Inl (heartbeatError (HbRepo e)), d')
                   | (Inr _, d') \<Rightarrow> (Inr (), d'))
                else
                  (case reconcileHeartbeat configured w (hb_Sandboxes hb) d of
                     (Inl e, d') \<Rightarrow> (Inl (heartbeatError e), d')
                   | (Inr _, d') \<Rightarrow> (Inr (), d'))))"

subsection \<open>The handlers keep the books\<close>

lemma cleanupParams_sel [simp]:
  "fst (cleanupParams i t) = CleanupSandboxArgs i (status_text t)"
  by (simp add: cleanupParams_def)

lemma cleanup_job_for_params [simp]: "cleanup_job_for i (cleanupParams k t) \<longleftrightarrow> k = i"
  by (simp add: cleanup_job_for_def)

lemma cleanup_target_text [simp]:
  "cleanup_target ''stopped'' = StatusStopped" "cleanup_target ''failed'' = StatusFailed"
  "cleanup_target [] = StatusFailed"
  by (simp_all add: cleanup_target_def)

lemma ReconcileInventory_update:
  "snd (ReconcileInventory w first iv d) = update_sandboxes (\<lambda>_. True) (reconcile_row w first iv d) d"
proof -
  let ?d' = "snd (ReconcileInventory w first iv d)"
  have "?d' = d\<lparr>sandboxes := sandboxes ?d'\<rparr>"
    by (simp add: ReconcileInventory_reconciled reconciled_def lost_step_def mark_seen_def
        mark_running_def update_sandboxes_def)
  then show ?thesis
    by (simp add: ReconcileInventory_rows update_sandboxes_def upd_where_def)
qed

lemma claimed_in_result:
  assumes "fst (ReconcileInventory w first iv d) = Inr res"
  shows "i \<in> set (Lost res @ res_Dead res) \<longleftrightarrow>
    (\<exists>r \<in> set (sandboxes d). ID r = i \<and> sbx_Status r \<noteq> StatusCleanupPending
        \<and> sbx_Status (reconcile_row w first iv d r) = StatusCleanupPending)"
proof -
  have "i \<in> set (Lost res @ res_Dead res) \<longleftrightarrow> (\<exists>r \<in> set (sandboxes d). ID r = i \<and> claimed_row w first iv d r)"
    by (auto simp: ReconcileInventory_Lost [OF assms] ReconcileInventory_Dead [OF assms]
        mem_returning claimed_row_def)
  then show ?thesis using reconcile_row_claims [of w first iv d] by blast
qed

lemma reconcile_sound:
  assumes "ReconcileInventory w first iv d = (Inr res, d')"
  shows "sound_step d (insert_jobs (heartbeat_jobs w res) d')"
proof -
  have d': "d' = update_sandboxes (\<lambda>_. True) (reconcile_row w first iv d) d"
    and res: "fst (ReconcileInventory w first iv d) = Inr res"
    using assms ReconcileInventory_update [of w first iv d] by simp_all
  show ?thesis
    unfolding d'
  proof (rule sound_update)
    show "safe_step d (update_sandboxes (\<lambda>_. True) (reconcile_row w first iv d) d)"
      using ReconcileInventory_safe [of d w first iv] by (simp add: ReconcileInventory_update)
  next
    fix r assume "r \<in> set (sandboxes d)" "sbx_Status (reconcile_row w first iv d r) = StatusCleanupPending"
      "sbx_Status r \<noteq> StatusCleanupPending"
    then have "ID r \<in> set (Lost res @ res_Dead res)"
      using claimed_in_result [OF res, of "ID r"] by blast
    then have "cleanupParams (ID r) StatusFailed \<in> set (heartbeat_jobs w res)"
      by (auto simp: heartbeat_jobs_def)
    then show "\<exists>j \<in> set (heartbeat_jobs w res). cleanup_job_for (ID r) j"
      by (rule bexI [rotated]) simp
  next
    fix r
    assume "sbx_Status (reconcile_row w first iv d r) \<in> terminal"
      and "sbx_Status r \<in> terminal \<longrightarrow> WorkerID r = None"
    then show "WorkerID (reconcile_row w first iv d r) = None"
      unfolding reconcile_row_terminal reconcile_row_WorkerID by blast
  next
    fix j assume wf: "wf_db d" and "j \<in> set (heartbeat_jobs w res)"
    then consider i where "fst j = CleanupSandboxArgs i ''failed''" "i \<in> set (Lost res @ res_Dead res)"
      | i where "fst j = RemoveOrphanArgs w i"
      by (auto simp: heartbeat_jobs_def)
    then show "job_grounded (update_sandboxes (\<lambda>_. True) (reconcile_row w first iv d) d) (fst j)"
    proof cases
      case 1
      then obtain r where r: "r \<in> set (sandboxes d)" "ID r = i"
        "sbx_Status (reconcile_row w first iv d r) = StatusCleanupPending"
        using claimed_in_result [OF res] by blast
      then have "sandbox_row_of i d = Some r"
        using row_by_of_mem [OF wf_db_distinct [OF wf]] by blast
      with r 1 show ?thesis by (simp add: row_by_upd_where)
    next
      case 2
      then show ?thesis by simp
    qed
  qed simp
qed

lemma reconcileHeartbeat_cases:
  obtains (failed) e where "reconcileHeartbeat configured w es d = (Inl e, d)"
  | (ok) w' first res d3 where
      "reconcileHeartbeat configured w es d = (Inr (), insert_jobs (heartbeat_jobs (wID w) res) d3)"
      "configured" "fst (wrk_Update w d) = Inr w'"
      "fst (ClaimInventory (wID w) (FencingToken w) (snd (wrk_Update w d))) = Inr first"
      "ReconcileInventory (wID w) first (inventoryFromEntries es)
         (snd (ClaimInventory (wID w) (FencingToken w) (snd (wrk_Update w d)))) = (Inr res, d3)"
proof -
  obtain x d1 where u: "wrk_Update w d = (x, d1)" by fastforce
  obtain y d2 where c: "ClaimInventory (wID w) (FencingToken w) d1 = (y, d2)" by fastforce
  show thesis
  proof (cases "configured \<and> \<not> is_err x \<and> \<not> is_err y")
    case False
    with u c have "\<exists>e. reconcileHeartbeat configured w es d = (Inl e, d)"
      by (cases x; cases y) (auto simp: reconcileHeartbeat_def)
    then show thesis using failed by blast
  next
    case True
    then obtain w' first where xy: "x = Inr w'" "y = Inr first" "configured"
      by (auto simp: not_is_err_iff)
    obtain res where res: "fst (ReconcileInventory (wID w) first (inventoryFromEntries es) d2) = Inr res"
      using ReconcileInventory_ok by blast
    obtain d3 where r: "ReconcileInventory (wID w) first (inventoryFromEntries es) d2 = (Inr res, d3)"
      using res by (metis prod.collapse)
    show thesis
      by (rule ok [of res d3 w' first]) (use u c xy r in \<open>simp_all add: reconcileHeartbeat_def\<close>)
  qed
qed

lemma reconcileHeartbeat_sound: "sound_step d (snd (reconcileHeartbeat configured w es d))"
proof (cases rule: reconcileHeartbeat_cases [of configured w es d])
  case (failed e)
  then show ?thesis by simp
next
  case (ok w' first res d3)
  have "sound_step d (snd (wrk_Update w d))" by (rule tx_update.sound)
  also have "sound_step \<dots> (snd (ClaimInventory (wID w) (FencingToken w) (snd (wrk_Update w d))))"
    by (rule tx_claim_inventory.sound)
  also have "sound_step \<dots> (insert_jobs (heartbeat_jobs (wID w) res) d3)"
    using ok(5) by (rule reconcile_sound)
  finally show ?thesis using ok(1) by simp
qed

lemma ReportWorkerHeartbeat_db:
  "snd (ReportWorkerHeartbeat configured now req d) \<in>
     {d} \<union> (case req of None \<Rightarrow> {} | Some hb \<Rightarrow>
        {snd (wrk_Update (workerFromHeartbeat now hb) d),
         snd (reconcileHeartbeat configured (workerFromHeartbeat now hb) (hb_Sandboxes hb) d)})"
proof (cases req)
  case (Some hb)
  then show ?thesis
    by (cases "wrk_Update (workerFromHeartbeat now hb) d";
        cases "fst (wrk_Update (workerFromHeartbeat now hb) d)";
        cases "reconcileHeartbeat configured (workerFromHeartbeat now hb) (hb_Sandboxes hb) d";
        cases "fst (reconcileHeartbeat configured (workerFromHeartbeat now hb) (hb_Sandboxes hb) d)")
      (simp_all add: ReportWorkerHeartbeat_def Let_def)
qed (simp add: ReportWorkerHeartbeat_def)

interpretation tx_heartbeat: transaction "ReportWorkerHeartbeat configured now req" for configured now req
proof
  fix d
  show "sound_step d (snd (ReportWorkerHeartbeat configured now req d))"
  proof (cases req)
    case (Some hb)
    then show ?thesis
      using ReportWorkerHeartbeat_db [of configured now req d]
        tx_update.sound [of d "workerFromHeartbeat now hb"]
        reconcileHeartbeat_sound [of d configured "workerFromHeartbeat now hb" "hb_Sandboxes hb"]
      by auto
  qed (simp add: ReportWorkerHeartbeat_def)
qed

interpretation tx_register_worker: transaction "RegisterWorker now req" for now req
proof
  fix d
  show "sound_step d (snd (RegisterWorker now req d))"
  proof (cases req)
    case (Some hb)
    have "snd (RegisterWorker now req d) \<in> {d, snd (wrk_Register (workerFromHeartbeat now hb) d)}"
      using Some
      by (cases "wrk_Register (workerFromHeartbeat now hb) d";
          cases "fst (wrk_Register (workerFromHeartbeat now hb) d)")
        (simp_all add: RegisterWorker_def)
    with tx_register.sound [of d] show ?thesis by fastforce
  qed (simp add: RegisterWorker_def)
qed

lemma CreateSandboxEvent_sound: "sound_step d (snd (CreateSandboxEvent e d))"
proof (rule sound_same_books)
  show "safe_step d (snd (CreateSandboxEvent e d))"
    by (auto simp: safe_step_def CreateSandboxEvent_def Let_def legal_db_def wf_db_def split: option.split)
qed (auto simp: CreateSandboxEvent_def Let_def split: option.split)

lemma applyStatusFromState_sound: "sound_step d (applyStatusFromState i w token st d)"
proof (cases st)
  case SANDBOX_STATE_RUNNING
  have "sound_step d (snd (UpdateStatusFenced i w token StatusRunning [StatusStarting, StatusRunning] d))"
    by (rule UpdateStatusFenced_sound) auto
  then show ?thesis
    by (simp add: SANDBOX_STATE_RUNNING applyStatusFromState_def statusTransitionForState_def)
qed (simp_all add: applyStatusFromState_def statusTransitionForState_def)

interpretation tx_ingest: transaction "IngestSandboxEvent newID now req" for newID now req
proof
  fix d
  show "sound_step d (snd (IngestSandboxEvent newID now req d))"
  proof (cases req)
    case (Some m)
    let ?i = "TrimSpace (msg_SandboxId m)" and ?w = "TrimSpace (msg_WorkerId m)"
    let ?e = "\<lparr>ev_ID = if TrimSpace (msg_Id m) = [] then newID else TrimSpace (msg_Id m),
               ev_SandboxID = ?i, ev_WorkerID = ?w, ev_State = stateName (msg_State m),
               ev_OccurredAt = case msg_OccurredAt m of None \<Rightarrow> now | Some t \<Rightarrow> t,
               ev_FencingToken = msg_FencingToken m\<rparr>"
    let ?d = "snd (CreateSandboxEvent ?e d)"
    obtain x d' where c: "CreateSandboxEvent ?e d = (x, d')" by fastforce
    have "snd (IngestSandboxEvent newID now req d) \<in>
        {d, ?d, applyStatusFromState ?i ?w (msg_FencingToken m) (msg_State m) ?d}"
      using Some c
      by (cases x) (auto simp: IngestSandboxEvent_def Let_def split: repo_error.split)
    moreover have "sound_step d ?d" by (rule CreateSandboxEvent_sound)
    moreover have "sound_step d (applyStatusFromState ?i ?w (msg_FencingToken m) (msg_State m) ?d)"
      by (rule sound_step_trans [OF CreateSandboxEvent_sound applyStatusFromState_sound])
    ultimately show ?thesis by auto
  qed (simp add: IngestSandboxEvent_def)
qed

subsection \<open>The inventory read from a heartbeat\<close>

text \<open>The field of the inventory a state goes to.\<close>

definition field_of :: "SandboxState \<Rightarrow> Inventory \<Rightarrow> string list" where
  "field_of st =
     (case st of
        SANDBOX_STATE_RUNNING \<Rightarrow> Running
      | SANDBOX_STATE_STARTING \<Rightarrow> Live
      | SANDBOX_STATE_PAUSED \<Rightarrow> Live
      | SANDBOX_STATE_DEAD \<Rightarrow> Dead
      | _ \<Rightarrow> Unknown)"

lemma set_IDs_add [simp]: "set (IDs (add_entry i st iv)) = insert i (set (IDs iv))"
  by (cases st) (auto simp: add_entry_def IDs_def)

lemma distinct_IDs_add: "distinct (IDs iv) \<Longrightarrow> i \<notin> set (IDs iv) \<Longrightarrow> distinct (IDs (add_entry i st iv))"
  by (cases st) (auto simp: add_entry_def IDs_def)

lemma field_of_add: "i \<in> set (field_of st (add_entry i st iv))"
  by (cases st) (auto simp: add_entry_def field_of_def)

lemma field_of_mono: "i \<in> set (field_of st iv) \<Longrightarrow> i \<in> set (field_of st (add_entry k st' iv))"
  by (cases st; cases st') (auto simp: add_entry_def field_of_def)

definition entry_ids :: "SandboxInventoryEntry list \<Rightarrow> string set" where
  "entry_ids es = (\<lambda>e. TrimSpace (SandboxId e)) ` set es - {[]}"

lemma inventory_loop_ids:
  "set (IDs (inventory_loop es seen iv)) = set (IDs iv) \<union> (entry_ids es - set seen)"
  by (induction es seen iv rule: inventory_loop.induct) (auto simp: entry_ids_def Let_def)

lemma inventory_loop_distinct:
  "distinct (IDs iv) \<Longrightarrow> set seen = set (IDs iv) \<Longrightarrow> distinct (IDs (inventory_loop es seen iv))"
  by (induction es seen iv rule: inventory_loop.induct) (simp_all add: Let_def distinct_IDs_add)

lemma inventory_loop_keeps:
  "i \<in> set (field_of st iv) \<Longrightarrow> i \<in> set (field_of st (inventory_loop es seen iv))"
  by (induction es seen iv rule: inventory_loop.induct) (simp_all add: Let_def field_of_mono)

lemma inventory_loop_first:
  assumes "i \<notin> set seen" and "i \<noteq> []"
    and "find (\<lambda>e. TrimSpace (SandboxId e) = i) es = Some e"
  shows "i \<in> set (field_of (entry_State e) (inventory_loop es seen iv))"
  using assms
proof (induction es seen iv rule: inventory_loop.induct)
  case (2 e' es seen iv)
  show ?case
  proof (cases "TrimSpace (SandboxId e') = i")
    case True
    with 2(4-6) have "e' = e" by simp
    with True 2(4,5) show ?thesis
      by (simp add: inventory_loop_keeps field_of_add)
  next
    case False
    with 2(6) have "find (\<lambda>e. TrimSpace (SandboxId e) = i) es = Some e" by simp
    with False 2 show ?thesis by (simp add: Let_def)
  qed
qed simp

subsection \<open>Properties\<close>

text \<open>C34: the inventory read from a heartbeat puts every sandbox listed in exactly one field:
  its identifiers are the non-blank trimmed identifiers of the entries, each once, and the first
  entry of an identifier decides its field.\<close>

theorem inventoryFromEntries_partition:
  "distinct (IDs (inventoryFromEntries es))
   \<and> set (IDs (inventoryFromEntries es)) = entry_ids es
   \<and> (\<forall>i e. i \<noteq> [] \<longrightarrow> find (\<lambda>e. TrimSpace (SandboxId e) = i) es = Some e \<longrightarrow>
        i \<in> set (field_of (entry_State e) (inventoryFromEntries es)))"
  using inventory_loop_ids [of es "[]"] inventory_loop_distinct [of _ "[]" es]
    inventory_loop_first [of _ "[]" es]
  by (auto simp: inventoryFromEntries_def IDs_def)

definition sample_entries :: "SandboxInventoryEntry list" where
  "sample_entries = [\<lparr>SandboxId = ''b'', entry_State = SANDBOX_STATE_RUNNING\<rparr>,
     \<lparr>SandboxId = ''b'', entry_State = SANDBOX_STATE_DEAD\<rparr>]"

lemma TrimSpace_samples [simp]: "TrimSpace ''b'' = ''b''" "TrimSpace ''w1'' = ''w1''"
  by (simp_all add: TrimSpace_plain plain_char_def)

theorem inventoryFromEntries_partition_witness:
  "''b'' \<in> set (Running (inventoryFromEntries sample_entries))
   \<and> distinct (IDs (inventoryFromEntries sample_entries))"
proof -
  have "find (\<lambda>e. TrimSpace (SandboxId e) = ''b'') sample_entries =
      Some \<lparr>SandboxId = ''b'', entry_State = SANDBOX_STATE_RUNNING\<rparr>"
    by (simp add: sample_entries_def)
  with inventoryFromEntries_partition [of sample_entries] show ?thesis
    by (fastforce simp: field_of_def)
qed

lemma workerFromHeartbeat_sel [simp]:
  "wID (workerFromHeartbeat now hb) = TrimSpace (WorkerId hb)"
  "FencingToken (workerFromHeartbeat now hb) = hb_FencingToken hb"
  by (simp_all add: workerFromHeartbeat_def NewWorkerFromHeartbeat_def Let_def)

lemma RegisterWorker_ok:
  assumes "RegisterWorker now (Some hb) d = (Inr token, d')"
  obtains w where "wrk_Register (workerFromHeartbeat now hb) d = (Inr w, d')" "FencingToken w = token"
  using assms by (auto simp: RegisterWorker_def split: if_splits prod.splits sum.splits)

lemma Register_token:
  assumes "wf_db d" and "wrk_Register w d = (Inr w', d')"
  shows "\<exists>r'. worker_row_of (wID w) d' = Some r' \<and> wr_fencing_token r' = FencingToken w'"
  using assms(2)
  by (cases "worker_row_of (wID w) d")
    (auto simp: wrk_Register_def Let_def wrk_insert_def scanWorker_def row_by_append row_by_upd_where
      dest: row_by_SomeD split: if_splits)

text \<open>Once a token is in the row, every later database has a token at least as high.\<close>

lemma stale_token:
  assumes "wf_db d" and "RegisterWorker now (Some hb) d = (Inr token, d')" and "legal_db d' d''"
  shows "\<exists>r. worker_row_of (TrimSpace (WorkerId hb)) d'' = Some r \<and> token \<le> wr_fencing_token r"
proof -
  obtain w where w: "wrk_Register (workerFromHeartbeat now hb) d = (Inr w, d')" "FencingToken w = token"
    using assms(2) by (rule RegisterWorker_ok)
  then obtain r' where r': "worker_row_of (TrimSpace (WorkerId hb)) d' = Some r'" "wr_fencing_token r' = token"
    using Register_token [OF assms(1) w(1)] by auto
  obtain r where "worker_row_of (TrimSpace (WorkerId hb)) d'' = Some r" "tokens_grow r' r"
    by (rule legal_db_workerD [OF assms(3) r'(1)])
  with r'(2) show ?thesis by (auto simp: tokens_grow_def)
qed

text \<open>C5: a superseded process of a worker is refused for good and changes nothing.  Once a
  registration has handed out a token, in every database reached by legal transitions a
  heartbeat or an event of the same worker with a lower token is answered
  \<^verbatim>\<open>FailedPrecondition\<close> and leaves the database as it is.\<close>

theorem superseded_incarnation_refused:
  assumes "wf_db d" and "RegisterWorker now (Some hb) d = (Inr token, d')"
    and "legal_db d' d''" and "wf_db d''"
    and "TrimSpace (WorkerId hb) \<noteq> []"
    and "TrimSpace (WorkerId old) = TrimSpace (WorkerId hb)"
    and "0 < hb_FencingToken old" and "hb_FencingToken old < token"
    and "TrimSpace (msg_WorkerId m) = TrimSpace (WorkerId hb)"
    and "TrimSpace (msg_SandboxId m) \<noteq> []" and "msg_State m \<noteq> SANDBOX_STATE_UNSPECIFIED"
    and "0 < msg_FencingToken m" and "msg_FencingToken m < token"
  shows "ReportWorkerHeartbeat True now' (Some old) d'' = (Inl FailedPrecondition, d'')
    \<and> IngestSandboxEvent newID now' (Some m) d'' = (Inl FailedPrecondition, d'')"
proof
  obtain r where r: "worker_row_of (TrimSpace (WorkerId hb)) d'' = Some r" "token \<le> wr_fencing_token r"
    using stale_token [OF assms(1-3)] by blast
  let ?w = "workerFromHeartbeat now' old"
  have "fst (wrk_Update ?w d'') = Inl ErrFenced"
    using r assms(6-8) by (simp add: wrk_Update_outcome [OF assms(4)])
  then have u: "wrk_Update ?w d'' = (Inl ErrFenced, d'')"
    using wrk_Update_refused [OF assms(4)] by (metis prod.collapse)
  then show "ReportWorkerHeartbeat True now' (Some old) d'' = (Inl FailedPrecondition, d'')"
    using assms(5-7) by (simp add: ReportWorkerHeartbeat_def reconcileHeartbeat_def Let_def)
  show "IngestSandboxEvent newID now' (Some m) d'' = (Inl FailedPrecondition, d'')"
    using r assms(5,9-13) by (auto simp: IngestSandboxEvent_def CreateSandboxEvent_def Let_def)
qed

definition sample_heartbeat :: "int \<Rightarrow> bool \<Rightarrow> WorkerHeartbeat" where
  "sample_heartbeat token complete = \<lparr>WorkerId = ''w1'', hb_Status = ''active'', hb_Address = ''10.0.0.7'',
     hb_Port = 9090, hb_Capacity = 4, hb_CpuBudget = 8, hb_MemBudget = 4096, hb_CpuUsage = 5,
     hb_MemUsage = 100, hb_FencingToken = token, InventoryComplete = complete,
     hb_Sandboxes = sample_entries\<rparr>"

definition sample_event :: "int \<Rightarrow> SandboxEventMsg" where
  "sample_event token = \<lparr>msg_Id = [], msg_SandboxId = ''b'', msg_WorkerId = ''w1'',
     msg_OccurredAt = None, msg_FencingToken = token, msg_State = SANDBOX_STATE_RUNNING\<rparr>"

theorem superseded_incarnation_refused_witness:
  "let d = snd (RegisterWorker 0 (Some (sample_heartbeat 0 False)) sample_db)
   in ReportWorkerHeartbeat True 0 (Some (sample_heartbeat 3 True)) d = (Inl FailedPrecondition, d)
      \<and> IngestSandboxEvent ''ev1'' 0 (Some (sample_event 3)) d = (Inl FailedPrecondition, d)"
proof -
  let ?d = "snd (RegisterWorker 0 (Some (sample_heartbeat 0 False)) sample_db)"
  have "fst (RegisterWorker 0 (Some (sample_heartbeat 0 False)) sample_db) = Inr 4"
    by (simp add: RegisterWorker_def wrk_Register_def sample_heartbeat_def sample_simps Let_def
        scanWorker_def int64_max_def workerFromHeartbeat_def NewWorkerFromHeartbeat_def)
  then have reg: "RegisterWorker 0 (Some (sample_heartbeat 0 False)) sample_db = (Inr 4, ?d)"
    by (metis prod.collapse)
  have "sound_step sample_db ?d" by (rule tx_register_worker.sound)
  then have wf: "wf_db ?d"
    using sample_wf by (simp add: sound_step_def books_ok_def covered_def grounded_def tidy_def sample_simps)
  show ?thesis
    unfolding Let_def
    by (rule superseded_incarnation_refused [OF sample_wf reg legal_db_refl wf])
      (simp_all add: sample_heartbeat_def sample_event_def)
qed

text \<open>What an accepted heartbeat with a complete inventory leaves behind.\<close>

lemma heartbeat_accepted:
  assumes "ReportWorkerHeartbeat True now (Some hb) d = (Inr (), d')" and "InventoryComplete hb"
  obtains first where
    "sandboxes d' = map (reconcile_row (TrimSpace (WorkerId hb)) first (inventoryFromEntries (hb_Sandboxes hb))
        (snd (ClaimInventory (TrimSpace (WorkerId hb)) (hb_FencingToken hb)
          (snd (wrk_Update (workerFromHeartbeat now hb) d))))) (sandboxes d)"
    and "workers d' = workers (snd (ClaimInventory (TrimSpace (WorkerId hb)) (hb_FencingToken hb)
          (snd (wrk_Update (workerFromHeartbeat now hb) d))))"
    and "clock d' = clock d"
    and "fst (wrk_Update (workerFromHeartbeat now hb) d) \<in> range Inr"
proof -
  let ?w = "workerFromHeartbeat now hb"
  have run: "reconcileHeartbeat True ?w (hb_Sandboxes hb) d = (Inr (), d')"
    using assms by (auto simp: ReportWorkerHeartbeat_def Let_def split: if_splits prod.splits sum.splits)
  show thesis
  proof (cases rule: reconcileHeartbeat_cases [of True ?w "hb_Sandboxes hb" d])
    case (failed e)
    with run show thesis by simp
  next
    case (ok w' first res d3)
    let ?d2 = "snd (ClaimInventory (wID ?w) (FencingToken ?w) (snd (wrk_Update ?w d)))"
    have d3: "d3 = update_sandboxes (\<lambda>_. True)
        (reconcile_row (wID ?w) first (inventoryFromEntries (hb_Sandboxes hb)) ?d2) ?d2"
      using ok(5) ReconcileInventory_update [of "wID ?w" first "inventoryFromEntries (hb_Sandboxes hb)" ?d2]
      by simp
    have keep: "sandboxes ?d2 = sandboxes d" "clock ?d2 = clock d"
      by (simp_all add: ClaimInventory_def Let_def wrk_Update_db)
    note keep = keep [unfolded workerFromHeartbeat_sel]
    have "d' = insert_jobs (heartbeat_jobs (wID ?w) res) d3" using run ok(1) by simp
    then have "sandboxes d' = map (reconcile_row (wID ?w) first (inventoryFromEntries (hb_Sandboxes hb)) ?d2) (sandboxes d)"
      and "workers d' = workers ?d2" and "clock d' = clock d"
      by (simp_all add: d3 keep upd_where_def)
    with ok(3) show thesis by (intro that [of first]) simp_all
  qed
qed

lemma accepted_worker_row:
  assumes "wf_db d" and "fst (wrk_Update w d) \<in> range Inr"
    and "x \<in> set (workers (snd (ClaimInventory (wID w) token (snd (wrk_Update w d)))))"
    and "wr_id x = wID w"
  shows "wr_last_heartbeat x = clock d \<and> wr_status x = wStatus w"
proof -
  obtain r where r: "worker_row_of (wID w) d = Some r" "wr_fencing_token r = FencingToken w"
    using assms(2) by (auto simp: wrk_Update_outcome [OF assms(1)] split: option.splits if_splits)
  from assms(3,4) obtain y where "y \<in> set (workers (snd (wrk_Update w d)))" "wr_id y = wID w"
    "wr_last_heartbeat x = wr_last_heartbeat y" "wr_status x = wr_status y"
    by (auto simp: ClaimInventory_def Let_def set_upd_where split: if_splits)
  moreover from this obtain z where "z \<in> set (workers d)" "wr_id z = wID w"
    "y = (if wr_id z = wID w \<and> wr_fencing_token z = FencingToken w
          then (wrk_columns w z)\<lparr>wr_last_heartbeat := clock d, wr_inactive_since := None\<rparr> else z)"
    by (auto simp: wrk_Update_db set_upd_where split: if_splits)
  moreover have "z = r"
    using row_by_unique [OF wf_db_distinct_workers [OF assms(1)] r(1)] calculation by blast
  ultimately show ?thesis using r(2) by simp
qed

text \<open>The row of a sandbox an accepted heartbeat lists alive.\<close>

lemma vouched_row_survives:
  assumes "wf_db d" and "ReportWorkerHeartbeat True now (Some hb) d = (Inr (), d')"
    and "InventoryComplete hb" and "hb_Status hb \<noteq> WorkerStatusInactive"
    and "sandbox_row_of i d = Some r" and "WorkerID r = Some (TrimSpace (WorkerId hb))"
    and "sbx_Status r \<in> {StatusAssigned, StatusStarting, StatusRunning}"
    and "i \<in> set (Live (inventoryFromEntries (hb_Sandboxes hb)) @ Running (inventoryFromEntries (hb_Sandboxes hb)))"
    and "0 \<le> livenessTimeout"
  shows "\<exists>r'. sandbox_row_of i d' = Some r' \<and> sbx_Status r' \<in> {StatusAssigned, StatusStarting, StatusRunning}
    \<and> last_seen_at r' = Some (clock d)
    \<and> (\<forall>t. \<not> liveness_expired livenessTimeout workerLostTimeout (d'\<lparr>clock := t\<rparr>) r')"
proof -
  let ?iv = "inventoryFromEntries (hb_Sandboxes hb)" and ?w = "TrimSpace (WorkerId hb)"
  let ?hb = "workerFromHeartbeat now hb"
  let ?d2 = "snd (ClaimInventory ?w (hb_FencingToken hb) (snd (wrk_Update ?hb d)))"
  obtain first where rows: "sandboxes d' = map (reconcile_row ?w first ?iv ?d2) (sandboxes d)"
    and ws: "workers d' = workers ?d2" and acc: "fst (wrk_Update ?hb d) \<in> range Inr"
    using assms(2,3) by (rule heartbeat_accepted)
  have c2: "clock ?d2 = clock d"
    by (simp add: ClaimInventory_def Let_def wrk_Update_db)
  have iID: "ID r = i" using assms(5) row_by_SomeD by fastforce
  have "distinct (IDs ?iv)"
    unfolding inventoryFromEntries_def by (rule inventory_loop_distinct) (simp_all add: IDs_def)
  with assms(8) have listed: "i \<in> set (IDs ?iv)" "i \<notin> set (Dead ?iv)"
    by (auto simp: IDs_def)
  let ?r = "reconcile_row ?w first ?iv ?d2 r"
  have r': "sbx_Status ?r \<in> {StatusAssigned, StatusStarting, StatusRunning}"
    "last_seen_at ?r = Some (clock d)"
    using assms(6,7,8) listed iID c2 by (auto simp: reconcile_row_def Let_def)
  have "row_by ID i (map (reconcile_row ?w first ?iv ?d2) t) =
      map_option (reconcile_row ?w first ?iv ?d2) (row_by ID i t)" for t
    by (induction t) auto
  then have row: "sandbox_row_of i d' = Some ?r" by (simp add: rows assms(5))
  have "\<not> not_vouched_for livenessTimeout workerLostTimeout t x ?r"
    if "x \<in> set (workers d')" "wr_id x = ?w" for x t
  proof -
    have "wr_last_heartbeat x = clock d" "wr_status x = wStatus ?hb"
      using accepted_worker_row [OF assms(1) acc, of x "hb_FencingToken hb"] that ws by simp_all
    moreover have "wStatus ?hb \<noteq> WorkerStatusInactive"
      using assms(4) by (simp add: workerFromHeartbeat_def NewWorkerFromHeartbeat_def Let_def)
    ultimately show ?thesis
      using r'(2) assms(9) by (simp add: not_vouched_for_def last_vouched_def)
  qed
  then have "\<not> liveness_expired livenessTimeout workerLostTimeout (d'\<lparr>clock := t\<rparr>) ?r" for t
    using assms(6) by (auto simp: liveness_expired_def)
  with row r' show ?thesis by blast
qed

text \<open>C14: a sandbox its worker vouches for is not claimed for liveness.  After an accepted
  heartbeat of an active worker that lists the sandbox alive, the sandbox is still active, was
  seen now, and stays outside \<^verbatim>\<open>ClaimLivenessExpired\<close>'s condition at whatever later time the
  claim runs, until something else writes the rows.\<close>

theorem vouched_sandbox_survives:
  assumes "wf_db d" and "ReportWorkerHeartbeat True now (Some hb) d = (Inr (), d')"
    and "InventoryComplete hb" and "hb_Status hb \<noteq> WorkerStatusInactive"
    and "sandbox_row_of i d = Some r" and "WorkerID r = Some (TrimSpace (WorkerId hb))"
    and "sbx_Status r \<in> {StatusAssigned, StatusStarting, StatusRunning}"
    and "i \<in> set (Live (inventoryFromEntries (hb_Sandboxes hb)) @ Running (inventoryFromEntries (hb_Sandboxes hb)))"
    and "0 \<le> livenessTimeout"
  shows "\<exists>r'. sandbox_row_of i d' = Some r' \<and> sbx_Status r' \<in> {StatusAssigned, StatusStarting, StatusRunning}
    \<and> last_seen_at r' = Some (clock d)
    \<and> (\<forall>t. \<not> liveness_expired livenessTimeout workerLostTimeout (d'\<lparr>clock := t\<rparr>) r')"
  by (rule vouched_row_survives [OF assms])

theorem vouched_sandbox_survives_witness:
  "\<exists>d' r'. ReportWorkerHeartbeat True 0 (Some (sample_heartbeat 3 True)) sample_db = (Inr (), d')
     \<and> sandbox_row_of ''b'' d' = Some r' \<and> last_seen_at r' = Some (60 * second)"
proof -
  let ?d = "snd (ReportWorkerHeartbeat True 0 (Some (sample_heartbeat 3 True)) sample_db)"
  let ?w = "workerFromHeartbeat 0 (sample_heartbeat 3 True)"
  have upd: "\<exists>x. fst (wrk_Update ?w sample_db) = Inr x"
    by (simp add: wrk_Update_outcome [OF sample_wf]) (simp add: sample_heartbeat_def sample_simps)
  have "fst (reconcileHeartbeat True ?w (hb_Sandboxes (sample_heartbeat 3 True)) sample_db) = Inr ()"
  proof (cases rule: reconcileHeartbeat_cases [of True ?w "hb_Sandboxes (sample_heartbeat 3 True)" sample_db])
    case (failed e)
    have "\<exists>x. fst (ReconcileInventory w f iv d) = Inr x" for w f iv d by (rule ReconcileInventory_ok)
    moreover have "\<exists>x. fst (ClaimInventory w t d) = Inr x" for w t d by (simp add: ClaimInventory_def Let_def)
    ultimately show ?thesis
      using upd failed unfolding reconcileHeartbeat_def Let_def
      by (auto split: prod.splits sum.splits) (metis fst_conv sum.distinct(1))+
  qed simp
  then have "fst (ReportWorkerHeartbeat True 0 (Some (sample_heartbeat 3 True)) sample_db) = Inr ()"
    by (auto simp: ReportWorkerHeartbeat_def Let_def sample_heartbeat_def split: prod.splits sum.splits)
  then have run: "ReportWorkerHeartbeat True 0 (Some (sample_heartbeat 3 True)) sample_db = (Inr (), ?d)"
    by (metis prod.collapse)
  have row: "sandbox_row_of ''b'' sample_db = Some (sample_row ''b'' StatusStarting (Some ''w1'') (Some (45 * second)))"
    by (simp add: sample_simps)
  have "\<exists>r'. sandbox_row_of ''b'' ?d = Some r' \<and> last_seen_at r' = Some (clock sample_db)"
    using vouched_sandbox_survives [OF sample_wf run _ _ row, of "30 * second"]
    by (auto simp: sample_heartbeat_def sample_row_def sample_entries_def inventoryFromEntries_def
        add_entry_def Let_def second_def WorkerStatusInactive_def)
  then show ?thesis using run by (auto simp: sample_db_def)
qed

end
