(* ===== verification/Capacity.thy ===== *)
theory Capacity
  imports Complex_Main Prelude Go_Strings
begin

text \<open>
  How large a worker is: the sizing constants, \<^verbatim>\<open>CheckSandboxSize\<close>, \<^verbatim>\<open>computeCapacity\<close> and the
  readers of \<^verbatim>\<open>/proc/meminfo\<close> and \<^verbatim>\<open>/proc/loadavg\<close> of \<^verbatim>\<open>worker/monitoring.go\<close>.  A file is given by its content,
  \<open>None\<close> when it cannot be read; an environment variable by its text, empty when unset.
\<close>

definition SandboxVcpu :: int where "SandboxVcpu = 1"
definition SandboxMemMiB :: int where "SandboxMemMiB = 256"
definition sandboxOverheadMiB :: int where "sandboxOverheadMiB = 64"
definition memReserveMiB :: int where "memReserveMiB = 384"

lemmas sizing_constants =
  SandboxVcpu_def SandboxMemMiB_def sandboxOverheadMiB_def memReserveMiB_def

text \<open>The error names the field that is too large.\<close>

datatype size_error = VcpuTooLarge int | MemTooLarge int

definition size_error_text :: "size_error \<Rightarrow> string" where
  "size_error_text e =
     ''sandbox is larger than a worker slot: ''
     @ (case e of
          VcpuTooLarge v \<Rightarrow> ''vcpu_count '' @ Itoa v @ '', at most '' @ Itoa SandboxVcpu
        | MemTooLarge m \<Rightarrow> ''mem_size_mib '' @ Itoa m @ '', at most '' @ Itoa SandboxMemMiB)"

definition CheckSandboxSize :: "int \<Rightarrow> int \<Rightarrow> size_error option" where
  "CheckSandboxSize vcpuCount memSizeMiB =
     (if vcpuCount > SandboxVcpu then Some (VcpuTooLarge vcpuCount)
      else if memSizeMiB > SandboxMemMiB then Some (MemTooLarge memSizeMiB)
      else None)"

definition computeCapacity :: "string \<Rightarrow> int \<Rightarrow> int \<Rightarrow> int" where
  "computeCapacity maxSandboxes cpuBudget memBudgetMiB =
     (let byCPU = go_quot cpuBudget SandboxVcpu;
          byMem = go_quot (memBudgetMiB - memReserveMiB) (SandboxMemMiB + sandboxOverheadMiB);
          capacity = min byCPU byMem;
          capacity = (if capacity < 0 then 0 else capacity)
      in case Atoi maxSandboxes of
           Some v \<Rightarrow> if v > 0 then min v capacity else capacity
         | None \<Rightarrow> capacity)"

fun mem_total_line :: "string list \<Rightarrow> int" where
  "mem_total_line [] = 0"
| "mem_total_line (line # lines) =
     (if HasPrefix line ''MemTotal:''
      then (let fields = Fields line
            in if length fields < 2 then 0
               else case Atoi (fields ! 1) of None \<Rightarrow> 0 | Some kb \<Rightarrow> go_quot kb 1024)
      else mem_total_line lines)"

definition readMemBudgetMB :: "string option \<Rightarrow> int" where
  "readMemBudgetMB meminfo =
     (case meminfo of
        None \<Rightarrow> 0
      | Some content \<Rightarrow> mem_total_line (Split content (CHR 0x0A)))"

text \<open>The load is the rational number \<^verbatim>\<open>strconv.ParseFloat\<close> reads; the rounding of \<^verbatim>\<open>float64\<close> is not modelled.\<close>

definition readCPUUsagePercent :: "(string \<Rightarrow> rat option) \<Rightarrow> string option \<Rightarrow> int \<Rightarrow> int" where
  "readCPUUsagePercent parseFloat loadavg numCPU =
     (case loadavg of
        None \<Rightarrow> 0
      | Some content \<Rightarrow>
          (let fields = Fields content
           in if fields = [] then 0
              else case parseFloat (fields ! 0) of
                     None \<Rightarrow> 0
                   | Some load1 \<Rightarrow>
                       (let cpuCount = (if numCPU < 1 then 1 else numCPU);
                            x = load1 / of_int cpuCount * 100;
                            usage = (if x < 0 then \<lceil>x\<rceil> else \<lfloor>x\<rfloor>)
                        in if usage < 0 then 0 else if usage > 100 then 100 else usage)))"

lemma readCPUUsagePercent_range: "0 \<le> readCPUUsagePercent pf content n \<and> readCPUUsagePercent pf content n \<le> 100"
  by (simp add: readCPUUsagePercent_def Let_def split: option.split)

fun meminfo_vals :: "string list \<Rightarrow> (string \<Rightarrow> int option) \<Rightarrow> string \<Rightarrow> int option" where
  "meminfo_vals [] vals = vals"
| "meminfo_vals (line # lines) vals =
     (let fields = Fields line
      in if length fields < 2 then meminfo_vals lines vals
         else case Atoi (fields ! 1) of
                None \<Rightarrow> meminfo_vals lines vals
              | Some v \<Rightarrow> meminfo_vals lines (vals(TrimSuffix (fields ! 0) '':'' \<mapsto> v)))"

definition readMemUsageMB :: "string option \<Rightarrow> int" where
  "readMemUsageMB meminfo =
     (case meminfo of
        None \<Rightarrow> 0
      | Some content \<Rightarrow>
          (let vals = meminfo_vals (Split content (CHR 0x0A)) Map.empty
           in case (vals ''MemTotal'', vals ''MemAvailable'') of
                (Some totalKB, Some availKB) \<Rightarrow>
                  (let used = wrap64 (totalKB - availKB)
                   in if used < 0 then 0 else go_quot used 1024)
              | _ \<Rightarrow> 0))"

text \<open>An interface address: whether it is an \<^verbatim>\<open>IPNet\<close>, whether its IP is a loopback, and its
  dotted form when it is an IPv4.\<close>

record iface_addr =
  isIPNet :: bool
  isLoopback :: bool
  ipv4 :: "string option"

fun first_ipv4 :: "iface_addr list \<Rightarrow> string option" where
  "first_ipv4 [] = None"
| "first_ipv4 (a # as) =
     (if \<not> isIPNet a \<or> isLoopback a then first_ipv4 as
      else case ipv4 a of Some ip \<Rightarrow> Some ip | None \<Rightarrow> first_ipv4 as)"

text \<open>The second component tells whether there is an error; a caller that ignores it would use the
  loopback address only when the interfaces cannot be listed.\<close>

definition detectWorkerAddress :: "iface_addr list option \<Rightarrow> string \<times> bool" where
  "detectWorkerAddress addrs =
     (case addrs of
        None \<Rightarrow> (''127.0.0.1'', True)
      | Some as \<Rightarrow> (case first_ipv4 as of Some ip \<Rightarrow> (ip, False) | None \<Rightarrow> ([], True)))"

subsection \<open>Bounds\<close>

lemma go_quot_1: "go_quot a 1 = a"
  by (simp add: go_quot_def sgn_mult_abs)

lemma computeCapacity_le:
  "computeCapacity env cpu mem \<le> max 0 cpu"
  "computeCapacity env cpu mem \<le> max 0 (go_quot (mem - memReserveMiB) (SandboxMemMiB + sandboxOverheadMiB))"
  by (auto simp: computeCapacity_def Let_def SandboxVcpu_def go_quot_1 split: option.split)

lemma computeCapacity_nonneg: "0 \<le> computeCapacity env cpu mem"
  by (auto simp: computeCapacity_def Let_def split: option.split)

text \<open>As many sandboxes as the capacity, each within a slot, fit in the budgets.\<close>

lemma slots_fit:
  assumes "int (length sbs) \<le> computeCapacity env cpu mem"
    and "\<forall>(vcpu, size) \<in> set sbs. CheckSandboxSize vcpu size = None"
  shows "sum_list (map fst sbs) \<le> max 0 cpu"
    and "sbs \<noteq> [] \<Longrightarrow> sum_list (map (\<lambda>(vcpu, size). size + sandboxOverheadMiB) sbs) + memReserveMiB \<le> mem"
proof -
  have "sum_list (map fst sbs) \<le> int (length sbs)"
    using assms(2)
    by (induction sbs) (auto simp: CheckSandboxSize_def SandboxVcpu_def split: if_splits)
  with assms(1) computeCapacity_le(1) [of env cpu mem] show "sum_list (map fst sbs) \<le> max 0 cpu"
    by linarith
next
  let ?slot = "SandboxMemMiB + sandboxOverheadMiB"
  assume "sbs \<noteq> []"
  have "sum_list (map (\<lambda>(vcpu, size). size + sandboxOverheadMiB) sbs) \<le> int (length sbs) * ?slot"
    using assms(2)
    by (induction sbs) (auto simp: CheckSandboxSize_def algebra_simps split: if_splits)
  moreover have "int (length sbs) \<le> max 0 (go_quot (mem - memReserveMiB) ?slot)"
    using assms(1) computeCapacity_le(2) [of env cpu mem] by linarith
  with \<open>sbs \<noteq> []\<close> have "int (length sbs) \<le> go_quot (mem - memReserveMiB) ?slot"
    "0 < go_quot (mem - memReserveMiB) ?slot" by (cases sbs; simp)+
  moreover from this(2) have "go_quot (mem - memReserveMiB) ?slot = (mem - memReserveMiB) div ?slot"
    using go_quot_neg [of "mem - memReserveMiB" ?slot] go_quot_nonneg [of "mem - memReserveMiB" ?slot]
    by (cases "0 \<le> mem - memReserveMiB") (auto simp: sizing_constants)
  ultimately show "sum_list (map (\<lambda>(vcpu, size). size + sandboxOverheadMiB) sbs) + memReserveMiB \<le> mem"
    by (simp add: sizing_constants)
qed

end
