(* ===== verification/Go_Time.thy ===== *)
theory Go_Time
  imports Go_Strings
begin

text \<open>
  Go's \<^verbatim>\<open>time.ParseDuration\<close> on byte strings: a sign, then numbers with units, with its 64-bit overflow checks.  The
  fraction of a number is multiplied in \<^verbatim>\<open>float64\<close> by the library; here it is the exact product, rounded down.
\<close>

definition is_digit :: "char \<Rightarrow> bool" where
  "is_digit c \<longleftrightarrow> digit_val c \<noteq> None"

text \<open>\<^verbatim>\<open>leadingInt\<close>: the number and the rest, \<open>None\<close> on overflow.\<close>

fun leadingInt :: "nat \<Rightarrow> string \<Rightarrow> (nat \<times> string) option" where
  "leadingInt x [] = Some (x, [])"
| "leadingInt x (c # s) =
     (case digit_val c of
        None \<Rightarrow> Some (x, c # s)
      | Some v \<Rightarrow>
          if 2 ^ 63 div 10 < x then None
          else let x' = x * 10 + v in if 2 ^ 63 < x' then None else leadingInt x' s)"

text \<open>\<^verbatim>\<open>leadingFraction\<close>: the digits it could take, their scale and the rest; further digits are skipped.\<close>

fun leadingFraction :: "nat \<Rightarrow> nat \<Rightarrow> bool \<Rightarrow> string \<Rightarrow> nat \<times> nat \<times> string" where
  "leadingFraction x scale overflow [] = (x, scale, [])"
| "leadingFraction x scale overflow (c # s) =
     (case digit_val c of
        None \<Rightarrow> (x, scale, c # s)
      | Some v \<Rightarrow>
          if overflow then leadingFraction x scale True s
          else if (2 ^ 63 - 1) div 10 < x then leadingFraction x scale True s
          else let y = x * 10 + v
               in if 2 ^ 63 < y then leadingFraction x scale True s else leadingFraction y (scale * 10) False s)"

definition unitMap :: "(string \<times> nat) list" where
  "unitMap =
     [(''ns'', 1), (''us'', 1000), ([CHR 0xC2, CHR 0xB5, CHR ''s''], 1000), ([CHR 0xCE, CHR 0xBC, CHR ''s''], 1000),
      (''ms'', 1000000), (''s'', 1000000000), (''m'', 60000000000), (''h'', 3600000000000)]"

definition unit_char :: "char \<Rightarrow> bool" where
  "unit_char c \<longleftrightarrow> c \<noteq> CHR ''.'' \<and> \<not> is_digit c"

text \<open>One number with its unit: the nanoseconds and the rest.\<close>

definition parse_term :: "string \<Rightarrow> (nat \<times> string) option" where
  "parse_term s =
     (if \<not> (hd s = CHR ''.'' \<or> is_digit (hd s)) then None
      else
        (case leadingInt 0 s of
           None \<Rightarrow> None
         | Some (v, s1) \<Rightarrow>
             (let pre = length s1 \<noteq> length s;
                  dot = s1 \<noteq> [] \<and> hd s1 = CHR ''.'';
                  (f, scale, s2) = (if dot then leadingFraction 0 1 False (tl s1) else (0, 1, s1));
                  post = dot \<and> length s2 \<noteq> length (tl s1);
                  u = takeWhile unit_char s2;
                  s3 = dropWhile unit_char s2
              in if \<not> pre \<and> \<not> post then None
                 else if u = [] then None
                 else
                   (case map_of unitMap u of
                      None \<Rightarrow> None
                    | Some unit \<Rightarrow>
                        if 2 ^ 63 div unit < v then None
                        else
                          (let v' = v * unit + (if f > 0 then f * unit div scale else 0)
                           in if f > 0 \<and> 2 ^ 63 < v' then None else Some (v', s3))))))"

lemma leadingInt_rest: "leadingInt x s = Some (v, s') \<Longrightarrow> length s' \<le> length s"
  by (induction x s rule: leadingInt.induct)
    (fastforce simp: Let_def split: option.splits if_splits)+

lemma leadingFraction_rest: "leadingFraction x scale overflow s = (f, scale', s') \<Longrightarrow> length s' \<le> length s"
  by (induction x scale overflow s rule: leadingFraction.induct)
    (fastforce simp: Let_def split: option.splits if_splits)+

lemma parse_term_rest: "parse_term s = Some (v, s') \<Longrightarrow> length s' < length s"
proof -
  assume "parse_term s = Some (v, s')"
  then obtain w s1 f scale s2 where s1: "leadingInt 0 s = Some (w, s1)"
    and s2: "(f, scale, s2) = (if s1 \<noteq> [] \<and> hd s1 = CHR ''.'' then leadingFraction 0 1 False (tl s1) else (0, 1, s1))"
    and u: "takeWhile unit_char s2 \<noteq> []" and s': "s' = dropWhile unit_char s2"
    by (auto simp: parse_term_def Let_def split: if_splits option.splits prod.splits)
  have "length s2 \<le> length s1"
    using s2 leadingFraction_rest [of 0 1 False "tl s1" f scale s2] by (auto split: if_splits)
  moreover have "length s' < length s2"
  proof -
    have "length (takeWhile unit_char s2) + length s' = length s2"
      by (metis length_append s' takeWhile_dropWhile_id)
    moreover have "0 < length (takeWhile unit_char s2)" using u by blast
    ultimately show ?thesis by linarith
  qed
  ultimately show ?thesis using leadingInt_rest [OF s1] by linarith
qed

text \<open>The sum of the terms, in 64 bits.\<close>

function parse_terms :: "nat \<Rightarrow> string \<Rightarrow> nat option" where
  "parse_terms d s =
     (if s = [] then Some d
      else
        (case parse_term s of
           None \<Rightarrow> None
         | Some (v, s') \<Rightarrow>
             let d' = (d + v) mod 2 ^ 64 in if 2 ^ 63 < d' then None else parse_terms d' s'))"
  by pat_completeness auto

termination
  by (relation "measure (\<lambda>(d, s). length s)") (auto dest: parse_term_rest)

declare parse_terms.simps [simp del]

definition ParseDuration :: "string \<Rightarrow> duration option" where
  "ParseDuration orig =
     (let neg = (orig \<noteq> [] \<and> hd orig = CHR ''-'');
          s = (if orig \<noteq> [] \<and> (hd orig = CHR ''-'' \<or> hd orig = CHR ''+'') then tl orig else orig)
      in if s = ''0'' then Some 0
         else if s = [] then None
         else
           (case parse_terms 0 s of
              None \<Rightarrow> None
            | Some d \<Rightarrow>
                if neg then Some (- int d)
                else if 2 ^ 63 - 1 < d then None
                else Some (int d)))"

subsection \<open>Whole numbers\<close>

lemma dec_value_ge: "dec_value acc s = Some n \<Longrightarrow> acc \<le> n"
  by (induction acc s rule: dec_value.induct) (fastforce split: option.splits)+

lemma leadingInt_digits:
  assumes "dec_value x ds = Some n" and "n \<le> 2 ^ 63" and "u \<noteq> []" and "digit_val (hd u) = None"
  shows "leadingInt x (ds @ u) = Some (n, u)"
  using assms
proof (induction ds arbitrary: x)
  case Nil
  then show ?case by (cases u) simp_all
next
  case (Cons c ds)
  then obtain v where v: "digit_val c = Some v" "dec_value (x * 10 + v) ds = Some n" by (auto split: option.splits)
  then have "x * 10 + v \<le> 2 ^ 63" using dec_value_ge Cons.prems(2) by (meson order_trans)
  moreover from this have "x \<le> 2 ^ 63 div 10" by simp
  ultimately show ?case using v Cons by (simp add: Let_def)
qed

lemma unit_chars:
  assumes "map_of unitMap u = Some unit"
  shows "u \<noteq> []" "list_all unit_char u" "0 < unit" "unit \<le> 2 ^ 63"
  using assms by (auto simp: unitMap_def unit_char_def is_digit_def digit_val_def split: if_splits)

lemma parse_term_whole:
  assumes "map_of unitMap u = Some unit" and "n * unit \<le> 2 ^ 63"
  shows "parse_term (dec_digits n @ u) = Some (n * unit, [])"
proof -
  note u = unit_chars [OF assms(1)]
  have hd: "unit_char (hd u)" using u(1,2) by (cases u) simp_all
  obtain c s where d: "dec_digits n = c # s" "digit_val c \<noteq> None" using dec_digits_head by blast
  have "n * 1 \<le> n * unit" using u(3) by (intro mult_le_mono2) simp
  then have "n \<le> 2 ^ 63" using assms(2) by linarith
  then have int: "leadingInt 0 (dec_digits n @ u) = Some (n, u)"
    using u(1) hd by (intro leadingInt_digits dec_value_digits) (auto simp: unit_char_def is_digit_def)
  have whole: "takeWhile unit_char u = u" "dropWhile unit_char u = []" using u(2) by (simp_all add: list_all_iff)
  have "n \<le> 2 ^ 63 div unit" using assms(2) u(3) by (simp add: less_eq_div_iff_mult_less_eq)
  moreover have "hd u \<noteq> CHR ''.''" using hd by (simp add: unit_char_def)
  moreover have "is_digit (hd (dec_digits n @ u))" "length u \<noteq> length (dec_digits n @ u)" using d by (simp_all add: is_digit_def)
  ultimately show ?thesis
    unfolding parse_term_def int by (simp add: assms(1) u(1) whole Let_def)
qed

lemma ParseDuration_whole:
  assumes "map_of unitMap u = Some unit" and "n * unit < 2 ^ 63"
  shows "ParseDuration (dec_digits n @ u) = Some (int (n * unit))"
proof -
  obtain c s where d: "dec_digits n = c # s" "digit_val c \<noteq> None" using dec_digits_head by blast
  have "parse_terms 0 (dec_digits n @ u) = Some (n * unit)"
    using parse_term_whole [OF assms(1), of n] assms(2) by (subst parse_terms.simps) (simp add: parse_terms.simps [of _ "[]"])
  then show ?thesis
    using d digit_not_sign [OF d(2)] unit_chars(1) [OF assms(1)] assms(2) by (simp add: ParseDuration_def Let_def)
qed

text \<open>What is parsed fits in 64 bits.\<close>

lemma parse_terms_bound: "parse_terms d s = Some d' \<Longrightarrow> d \<le> 2 ^ 63 \<Longrightarrow> d' \<le> 2 ^ 63"
proof (induction d s rule: parse_terms.induct)
  case (1 d s)
  then show ?case
    by (subst (asm) parse_terms.simps [of d s]) (fastforce simp: Let_def split: if_splits option.splits)
qed

lemma ParseDuration_int64: "ParseDuration s = Some d \<Longrightarrow> int64_min \<le> d \<and> d \<le> int64_max"
  using parse_terms_bound [of 0]
  by (fastforce simp: ParseDuration_def Let_def int64_min_def int64_max_def split: if_splits option.splits)

end
