(* ===== verification/Go_Paths.thy ===== *)
theory Go_Paths
  imports Go_Strings
begin

text \<open>
  \<^verbatim>\<open>filepath.Clean\<close>, \<^verbatim>\<open>filepath.Join\<close> and \<^verbatim>\<open>filepath.Base\<close> on slash-separated paths, and when joining
  a name to a directory gives an entry of that directory.
\<close>

text \<open>The elements of a cleaned path, from the last to the first.\<close>

fun clean_elems :: "bool \<Rightarrow> string list \<Rightarrow> string list \<Rightarrow> string list" where
  "clean_elems rooted out [] = out"
| "clean_elems rooted out (e # es) =
     (if e = [] \<or> e = ''.'' then clean_elems rooted out es
      else if e = ''..'' then
        (case out of
           [] \<Rightarrow> clean_elems rooted (if rooted then [] else [''..'']) es
         | o1 # out' \<Rightarrow>
             if o1 = ''..'' then clean_elems rooted (''..'' # out) es
             else clean_elems rooted out' es)
      else clean_elems rooted (e # out) es)"

fun join_elems :: "string list \<Rightarrow> string" where
  "join_elems [] = []"
| "join_elems [e] = e"
| "join_elems (e # es) = e @ ''/'' @ join_elems es"

definition Clean :: "string \<Rightarrow> string" where
  "Clean path =
     (let rooted = has_prefix path ''/'';
          s = (if rooted then ''/'' else []) @ join_elems (rev (clean_elems rooted [] (Split path (CHR ''/''))))
      in if s = [] then ''.'' else s)"

text \<open>\<^verbatim>\<open>Join\<close> ignores empty elements; of two it takes the non-empty ones.\<close>

definition Join :: "string \<Rightarrow> string \<Rightarrow> string" where
  "Join a b =
     (if a = [] \<and> b = [] then []
      else if a = [] then Clean b
      else if b = [] then Clean a
      else Clean (a @ ''/'' @ b))"

text \<open>\<^verbatim>\<open>Base\<close>: the last element, \<^verbatim>\<open>.\<close> for an empty path and \<^verbatim>\<open>/\<close> for slashes only.\<close>

definition Base :: "string \<Rightarrow> string" where
  "Base path =
     (if path = [] then ''.''
      else case filter (\<lambda>e. e \<noteq> []) (Split path (CHR ''/'')) of
             [] \<Rightarrow> ''/''
           | es \<Rightarrow> last es)"

subsection \<open>Entries of a directory\<close>

definition plain_name :: "string \<Rightarrow> bool" where
  "plain_name e \<longleftrightarrow> e \<noteq> [] \<and> e \<noteq> ''.'' \<and> e \<noteq> ''..'' \<and> CHR ''/'' \<notin> set e"

lemma Split_no_sep: "c \<notin> set s \<Longrightarrow> Split s c = [s]"
  by (induction s) auto

lemma Split_append: "c \<notin> set e \<Longrightarrow> Split (s @ c # e) c = Split s c @ [e]"
  by (induction s) (auto simp: Split_no_sep split: list.split)

lemma clean_elems_append:
  "clean_elems rooted out (es @ fs) = clean_elems rooted (clean_elems rooted out es) fs"
  by (induction rooted out es rule: clean_elems.induct) (auto split: list.split)

lemma join_elems_snoc: "es \<noteq> [] \<Longrightarrow> join_elems (es @ [e]) = join_elems es @ ''/'' @ e"
  by (induction es rule: join_elems.induct) auto

text \<open>A cleaned directory other than the root and the working directory.\<close>

definition clean_dir :: "string \<Rightarrow> bool" where
  "clean_dir d \<longleftrightarrow> Clean d = d \<and> d \<noteq> ''/'' \<and> d \<noteq> ''.''"

lemma Join_entry:
  assumes "clean_dir d" and "plain_name e"
  shows "Join d e = d @ ''/'' @ e"
proof -
  have ne: "d \<noteq> []" using assms(1) by (auto simp: clean_dir_def Clean_def has_prefix_def)
  let ?r = "has_prefix d ''/''" and ?c = "clean_elems (has_prefix d ''/'') [] (Split d (CHR ''/''))"
  have r: "has_prefix (d @ CHR ''/'' # e) ''/'' = ?r" using ne by (cases d) (simp_all add: has_prefix_def)
  have d: "d = (if ?r then ''/'' else []) @ join_elems (rev ?c)" and "?c \<noteq> []"
    using assms(1) by (auto simp: clean_dir_def Clean_def Let_def split: if_splits)
  have "Split (d @ CHR ''/'' # e) (CHR ''/'') = Split d (CHR ''/'') @ [e]"
    using assms(2) by (intro Split_append) (simp add: plain_name_def)
  then have "clean_elems ?r [] (Split (d @ CHR ''/'' # e) (CHR ''/'')) = e # ?c"
    using assms(2) by (simp add: clean_elems_append plain_name_def)
  then have "Clean (d @ CHR ''/'' # e)
      = (if ?r then ''/'' else []) @ join_elems (rev ?c @ [e])"
    using \<open>?c \<noteq> []\<close> by (simp add: Clean_def r Let_def join_elems_snoc)
  also have "\<dots> = d @ ''/'' @ e"
    using \<open>?c \<noteq> []\<close> d by (simp add: join_elems_snoc)
  finally show ?thesis
    using ne assms(2) by (simp add: Join_def plain_name_def)
qed

end
