(* ===== verification/Shim.thy ===== *)
theory Shim
  imports Go_Paths
begin

text \<open>
  \<^verbatim>\<open>shim/\<close>: the process that is the parent of one Firecracker and outlives the worker.  First the
  files and messages worker and shim share (\<^verbatim>\<open>shim.go\<close>), then the shim's side (\<^verbatim>\<open>server.go\<close>), then the
  worker's side (\<^verbatim>\<open>client.go\<close>), then the two sides run together as a step relation in which either
  may be interrupted, with what a client learns of the exit of the VM.
\<close>

type_synonym files = "string \<Rightarrow> string option"

subsection \<open>Shared files\<close>

definition ConfigFile :: string where "ConfigFile = ''vm.json''"
definition PidFile :: string where "PidFile = ''shim.pid''"
definition SocketFile :: string where "SocketFile = ''shim.sock''"
definition APISocket :: string where "APISocket = ''firecracker.sock''"
definition ShimLogFile :: string where "ShimLogFile = ''shim.log''"
definition ProcessName :: string where "ProcessName = ''fire2-shim''"
definition exitedPrefix :: string where "exitedPrefix = ''exited ''"
definition ExitFile :: string where "ExitFile = ''shim.exit''"

definition exitedLine :: "int \<Rightarrow> string" where
  "exitedLine code = exitedPrefix @ Itoa code @ [CHR 0x0A]"

definition parseExitedLine :: "string \<Rightarrow> int option" where
  "parseExitedLine line =
     (case CutPrefix (TrimSpace line) (TrimSpace exitedPrefix) of
        (rest, ok) \<Rightarrow> if \<not> ok then None else Atoi (TrimSpace rest))"

definition Path :: "string \<Rightarrow> string \<Rightarrow> string" where
  "Path dir file = Join dir file"

text \<open>A write that fails leaves some content in the file, or no file.\<close>

datatype write_outcome = Written | WriteFailed "string option"

definition WriteFile :: "write_outcome \<Rightarrow> string \<Rightarrow> string \<Rightarrow> files \<Rightarrow> bool \<times> files" where
  "WriteFile out path content fs =
     (case out of Written \<Rightarrow> (True, fs(path := Some content)) | WriteFailed left \<Rightarrow> (False, fs(path := left)))"

definition Rename :: "bool \<Rightarrow> string \<Rightarrow> string \<Rightarrow> files \<Rightarrow> bool \<times> files" where
  "Rename ok from to fs = (if ok then (True, fs(to := fs from, from := None)) else (False, fs))"

definition writeExit :: "write_outcome \<Rightarrow> bool \<Rightarrow> string \<Rightarrow> int \<Rightarrow> files \<Rightarrow> bool \<times> files" where
  "writeExit out rename_ok dir code fs =
     (let tmp = Path dir (ExitFile @ ''.tmp'')
      in case WriteFile out tmp (Itoa code) fs of
           (False, fs1) \<Rightarrow> (False, fs1)
         | (True, fs1) \<Rightarrow> Rename rename_ok tmp (Path dir ExitFile) fs1)"

definition readExit :: "string \<Rightarrow> files \<Rightarrow> int option" where
  "readExit dir fs =
     (case fs (Path dir ExitFile) of None \<Rightarrow> None | Some b \<Rightarrow> Atoi (TrimSpace b))"

subsection \<open>The shim\<close>

datatype wait_status = Success | Signaled nat | Exited int | NotAnExitError

definition exitCode :: "wait_status \<Rightarrow> int" where
  "exitCode err =
     (case err of Success \<Rightarrow> 0 | Signaled sig \<Rightarrow> 128 + int sig | Exited code \<Rightarrow> code | NotAnExitError \<Rightarrow> -1)"

definition writePidFile :: "write_outcome \<Rightarrow> bool \<Rightarrow> int \<Rightarrow> string \<Rightarrow> files \<Rightarrow> bool \<times> files" where
  "writePidFile out rename_ok pid dir fs =
     (let tmp = Path dir (PidFile @ ''.tmp'')
      in case WriteFile out tmp (Itoa pid @ [CHR 0x0A]) fs of
           (False, fs1) \<Rightarrow> (False, fs1)
         | (True, fs1) \<Rightarrow> Rename rename_ok tmp (Path dir PidFile) fs1)"

text \<open>The wait loop of \<^verbatim>\<open>serve\<close>: what arrives on its channels, and the signals it sends.  The timer is
  armed by the first signal and fires once.\<close>

datatype serve_event = ExitCh int | StopSignal | KillTimer

datatype proc_signal = SIGTERM | SIGKILL

datatype kill_timer = TimerNil | TimerArmed | TimerFired

fun serve_wait :: "kill_timer \<Rightarrow> serve_event list \<Rightarrow> proc_signal list \<times> int option" where
  "serve_wait timer [] = ([], None)"
| "serve_wait timer (ExitCh code # es) = ([], Some code)"
| "serve_wait timer (StopSignal # es) =
     (case serve_wait (if timer = TimerNil then TimerArmed else timer) es of (sigs, r) \<Rightarrow> (SIGTERM # sigs, r))"
| "serve_wait timer (KillTimer # es) =
     (if timer = TimerArmed
      then (case serve_wait TimerFired es of (sigs, r) \<Rightarrow> (SIGKILL # sigs, r))
      else serve_wait timer es)"

text \<open>\<^verbatim>\<open>server\<close>: the connected clients and the last line.  Both operations return what is written to
  which connection; a connection written to is then closed.\<close>

record server =
  clients :: "nat list"
  final :: string

definition accept :: "nat \<Rightarrow> server \<Rightarrow> (nat \<times> string) list \<times> server" where
  "accept conn s =
     (if final s \<noteq> [] then ([(conn, final s)], s)
      else ([], s\<lparr>clients := clients s @ [conn]\<rparr>))"

definition finish :: "string \<Rightarrow> server \<Rightarrow> (nat \<times> string) list \<times> server" where
  "finish line s =
     (map (\<lambda>c. (c, line)) (clients s), s\<lparr>final := line, clients := []\<rparr>)"

subsection \<open>The worker's side\<close>

datatype read_error = DiedWithoutReporting | UnexpectedMessage

text \<open>\<^verbatim>\<open>Handle.read\<close>: the line read from the connection, \<open>None\<close> when it dropped before a whole line, and
  the files at that time.  The result is the code and the error of the handle.\<close>

definition handle_read :: "string option \<Rightarrow> string \<Rightarrow> files \<Rightarrow> int \<times> read_error option" where
  "handle_read line dir fs =
     (case line of
        Some l \<Rightarrow>
          (case parseExitedLine l of
             Some code \<Rightarrow> (code, None)
           | None \<Rightarrow>
               (case readExit dir fs of
                  Some code \<Rightarrow> (code, None)
                | None \<Rightarrow> (-1, Some UnexpectedMessage)))
      | None \<Rightarrow>
          (case readExit dir fs of
             Some code \<Rightarrow> (code, None)
           | None \<Rightarrow> (-1, Some DiedWithoutReporting)))"

definition readPid :: "string \<Rightarrow> files \<Rightarrow> int option" where
  "readPid dir fs =
     (case fs (Path dir PidFile) of
        None \<Rightarrow> None
      | Some raw \<Rightarrow>
          (case Atoi (TrimSpace raw) of
             None \<Rightarrow> None
           | Some pid \<Rightarrow> if pid \<le> 0 then None else Some pid))"

definition TrimNul :: "string \<Rightarrow> string" where
  "TrimNul s = rev (dropWhile (\<lambda>c. c = CHR 0x00) (rev s))"

fun dir_flag :: "string \<Rightarrow> string list \<Rightarrow> bool" where
  "dir_flag dir (a # b # rest) = (a = ''-dir'' \<and> b = dir \<or> dir_flag dir (b # rest))"
| "dir_flag dir _ = False"

text \<open>The command lines of \<^verbatim>\<open>/proc\<close> are a function of the PID, \<open>None\<close> when there is no such process.\<close>

definition isShimOf :: "(int \<Rightarrow> string option) \<Rightarrow> int \<Rightarrow> string \<Rightarrow> bool" where
  "isShimOf cmdline pid dir =
     (case cmdline pid of
        None \<Rightarrow> False
      | Some raw \<Rightarrow>
          (let args = Split (TrimNul raw) (CHR 0x00)
           in if args = [] \<or> Base (hd args) \<noteq> ProcessName then False
              else dir_flag dir (tl args)))"

datatype attach_error = NoPidFile | NotTheShim int | AlreadyExited int | DialFailed

definition Attach :: "(int \<Rightarrow> string option) \<Rightarrow> bool \<Rightarrow> string \<Rightarrow> files \<Rightarrow> attach_error + int" where
  "Attach cmdline dial_ok dir fs =
     (case readPid dir fs of
        None \<Rightarrow> Inl NoPidFile
      | Some pid \<Rightarrow>
          if \<not> isShimOf cmdline pid dir then Inl (NotTheShim pid)
          else (case readExit dir fs of
                  Some code \<Rightarrow> Inl (AlreadyExited code)
                | None \<Rightarrow> if dial_ok then Inr pid else Inl DialFailed))"

definition spawn_args :: "string \<Rightarrow> string \<Rightarrow> string list" where
  "spawn_args dir firecrackerPath = [ProcessName, ''-dir'', dir, ''-firecracker'', firecrackerPath]"

text \<open>
  The shim's command line as Go's \<^verbatim>\<open>flag\<close> package reads it, with its two string flags: \<^verbatim>\<open>-name value\<close> or \<^verbatim>\<open>-name=value\<close>, one or
  two dashes; it stops at \<^verbatim>\<open>--\<close> and at the first argument that is not a flag.  \<open>None\<close> is a parse error.
\<close>

fun split_flag :: "string \<Rightarrow> string \<times> string option" where
  "split_flag [] = ([], None)"
| "split_flag (c # name) =
     (if CHR ''='' \<in> set name then (case Cut name (CHR ''='') of (a, b, _) \<Rightarrow> (c # a, Some b))
      else (c # name, None))"

definition set_flag :: "string \<Rightarrow> string \<Rightarrow> string \<times> string \<Rightarrow> (string \<times> string) option" where
  "set_flag name v flags =
     (if name = ''dir'' then Some (v, snd flags)
      else if name = ''firecracker'' then Some (fst flags, v)
      else None)"

fun parse_flags :: "string list \<Rightarrow> string \<times> string \<Rightarrow> (string \<times> string) option" where
  "parse_flags [] flags = Some flags"
| "parse_flags (s # args) flags =
     (if length s < 2 \<or> hd s \<noteq> CHR ''-'' then Some flags
      else if s = ''--'' then Some flags
      else
        (let name = (if s ! 1 = CHR ''-'' then drop 2 s else drop 1 s)
         in if name = [] \<or> hd name = CHR ''-'' \<or> hd name = CHR ''='' then None
            else
              (case split_flag name of
                 (name, Some v) \<Rightarrow>
                   (case set_flag name v flags of None \<Rightarrow> None | Some flags' \<Rightarrow> parse_flags args flags')
               | (name, None) \<Rightarrow>
                   (case args of
                      [] \<Rightarrow> None
                    | v # rest \<Rightarrow>
                        (case set_flag name v flags of None \<Rightarrow> None | Some flags' \<Rightarrow> parse_flags rest flags')))))"

text \<open>\<^verbatim>\<open>Main\<close>: the exit status; \<open>serve\<close> says whether serving that directory with that binary returned no error.\<close>

definition shim_Main :: "(string \<Rightarrow> string \<Rightarrow> bool) \<Rightarrow> string list \<Rightarrow> int" where
  "shim_Main serve args =
     (case parse_flags args ([], []) of
        None \<Rightarrow> 2
      | Some (dir, firecracker) \<Rightarrow>
          if dir = [] \<or> firecracker = [] then 2
          else if serve dir firecracker then 0 else 1)"

lemma shim_Main_spawned:
  "dir \<noteq> [] \<Longrightarrow> fc \<noteq> [] \<Longrightarrow> shim_Main serve (tl (spawn_args dir fc)) = (if serve dir fc then 0 else 1)"
  by (simp add: shim_Main_def spawn_args_def set_flag_def Let_def)

text \<open>One turn of the connect loop of \<^verbatim>\<open>Spawn\<close>: whether the dial succeeded, whether the shim has
  exited, and the files it left.  The deadline passes after the last turn.\<close>

record attempt =
  dialed :: bool
  shim_exited :: bool
  left_files :: files

datatype spawned = Connected int | AlreadyDone int int

datatype spawn_error = ShimLog | StaleExit | StartShim | ExitedEarly | NotListening

fun connect_loop :: "int \<Rightarrow> string \<Rightarrow> attempt list \<Rightarrow> spawn_error + spawned" where
  "connect_loop pid dir [] = Inl NotListening"
| "connect_loop pid dir (a # as) =
     (if dialed a then Inr (Connected pid)
      else if shim_exited a then
        (case readExit dir (left_files a) of
           None \<Rightarrow> Inl ExitedEarly
         | Some code \<Rightarrow> Inr (AlreadyDone pid code))
      else connect_loop pid dir as)"

definition Spawn ::
    "bool \<Rightarrow> bool \<Rightarrow> int option \<Rightarrow> attempt list \<Rightarrow> string \<Rightarrow> files \<Rightarrow> (spawn_error + spawned) \<times> files" where
  "Spawn log_ok remove_ok start_pid attempts dir fs =
     (if \<not> log_ok then (Inl ShimLog, fs)
      else if \<not> remove_ok then (Inl StaleExit, fs)
      else (let fs1 = fs(Path dir ExitFile := None)
            in case start_pid of
                 None \<Rightarrow> (Inl StartShim, fs1)
               | Some pid \<Rightarrow> (connect_loop pid dir attempts, fs1)))"

datatype kill_result = KillOk | KillESRCH | KillFailed

text \<open>\<^verbatim>\<open>Handle.Stop\<close>: whether the handle is done at the start, within the grace period and within the
  two seconds after the \<^verbatim>\<open>SIGKILL\<close>, and what the two calls to \<^verbatim>\<open>kill\<close> return.\<close>

datatype stop_error = SignalShim | KillShim | StillConnected

definition handle_Stop ::
    "bool \<Rightarrow> kill_result \<Rightarrow> bool \<Rightarrow> kill_result \<Rightarrow> bool \<Rightarrow> proc_signal list \<times> stop_error option" where
  "handle_Stop done term_result done_in_grace kill_result done_after =
     (if done then ([], None)
      else if term_result = KillFailed then ([SIGTERM], Some SignalShim)
      else if done_in_grace then ([SIGTERM], None)
      else if kill_result = KillFailed then ([SIGTERM, SIGKILL], Some KillShim)
      else ([SIGTERM, SIGKILL], if done_after then None else Some StillConnected))"

definition KillStale :: "(int \<Rightarrow> string option) \<Rightarrow> (int \<Rightarrow> kill_result) \<Rightarrow> string \<Rightarrow> files \<Rightarrow> int list \<times> bool" where
  "KillStale cmdline kill dir fs =
     (case readPid dir fs of
        None \<Rightarrow> ([], True)
      | Some pid \<Rightarrow>
          if \<not> isShimOf cmdline pid dir then ([], True)
          else ([pid], kill pid \<noteq> KillFailed))"

subsection \<open>Both sides together\<close>

text \<open>
  The life of one shim from the moment it listens: the phase \<^verbatim>\<open>serve\<close> is in, the files of the
  directory, the server, the connections waiting in the socket's queue, the state of every
  connection and what its client has learned.  The exit code of the VM is recorded for the
  statements only.
\<close>

datatype phase = Setup | StartingVM | RunningVM | ExitedVM | RecordedExit | FinishedClients | Stopped | Died

datatype connection = Open | Closed "string option"

record shim_sys =
  phase :: phase
  sfs :: files
  srv :: server
  queue :: "nat list"
  conns :: "connection list"
  learned :: "nat \<Rightarrow> (int \<times> read_error option) option"
  vm_exit :: "int option"

definition listening :: "phase \<Rightarrow> bool" where
  "listening p \<longleftrightarrow> p \<noteq> Stopped \<and> p \<noteq> Died"

text \<open>A line written to a connection may not arrive whole before the connection closes.\<close>

fun deliver :: "(nat \<Rightarrow> bool) \<Rightarrow> (nat \<times> string) list \<Rightarrow> connection list \<Rightarrow> connection list" where
  "deliver ok [] cs = cs"
| "deliver ok ((c, line) # ws) cs = deliver ok ws (cs[c := Closed (if ok c then Some line else None)])"

definition drop_open :: "connection list \<Rightarrow> connection list" where
  "drop_open = map (\<lambda>c. if c = Open then Closed None else c)"

inductive shim_step :: "string \<Rightarrow> shim_sys \<Rightarrow> shim_sys \<Rightarrow> bool" for dir :: string where
  pid_written: "phase s = Setup \<Longrightarrow> writePidFile out ren pid dir (sfs s) = (True, fs')
      \<Longrightarrow> shim_step dir s (s\<lparr>phase := StartingVM, sfs := fs'\<rparr>)"
| pid_failed: "phase s = Setup \<Longrightarrow> writePidFile out ren pid dir (sfs s) = (False, fs')
      \<Longrightarrow> shim_step dir s (s\<lparr>phase := Died, sfs := fs', queue := [], conns := drop_open (conns s)\<rparr>)"
| vm_failed: "phase s = StartingVM \<Longrightarrow> shim_step dir s (s\<lparr>phase := ExitedVM, vm_exit := Some (-1)\<rparr>)"
| vm_started: "phase s = StartingVM \<Longrightarrow> shim_step dir s (s\<lparr>phase := RunningVM\<rparr>)"
| vm_exited: "phase s = RunningVM \<Longrightarrow> int64_min \<le> exitCode st \<Longrightarrow> exitCode st \<le> int64_max
      \<Longrightarrow> shim_step dir s (s\<lparr>phase := ExitedVM, vm_exit := Some (exitCode st)\<rparr>)"
| exit_recorded: "phase s = ExitedVM \<Longrightarrow> vm_exit s = Some code \<Longrightarrow> writeExit out ren dir code (sfs s) = (ok, fs')
      \<Longrightarrow> shim_step dir s (s\<lparr>phase := RecordedExit, sfs := fs'\<rparr>)"
| clients_told: "phase s = RecordedExit \<Longrightarrow> vm_exit s = Some code \<Longrightarrow> finish (exitedLine code) (srv s) = (ws, srv')
      \<Longrightarrow> shim_step dir s (s\<lparr>phase := FinishedClients, srv := srv', conns := deliver arrives ws (conns s)\<rparr>)"
| listener_closed: "phase s = FinishedClients
      \<Longrightarrow> shim_step dir s (s\<lparr>phase := Stopped, queue := [], conns := drop_open (conns s)\<rparr>)"
| killed: "listening (phase s)
      \<Longrightarrow> shim_step dir s (s\<lparr>phase := Died, queue := [], conns := drop_open (conns s)\<rparr>)"
| client_dials: "listening (phase s)
      \<Longrightarrow> shim_step dir s (s\<lparr>queue := queue s @ [length (conns s)], conns := conns s @ [Open]\<rparr>)"
| accepted: "listening (phase s) \<Longrightarrow> phase s \<noteq> Setup \<Longrightarrow> queue s = c # q \<Longrightarrow> accept c (srv s) = (ws, srv')
      \<Longrightarrow> shim_step dir s (s\<lparr>queue := q, srv := srv', conns := deliver arrives ws (conns s)\<rparr>)"
| client_reads: "c < length (conns s) \<Longrightarrow> conns s ! c = Closed line \<Longrightarrow> learned s c = None
      \<Longrightarrow> shim_step dir s (s\<lparr>learned := (learned s)(c := Some (handle_read line dir (sfs s)))\<rparr>)"

definition shim_init :: "files \<Rightarrow> shim_sys" where
  "shim_init fs =
     \<lparr>phase = Setup, sfs = fs, srv = \<lparr>clients = [], final = []\<rparr>, queue = [], conns = [],
      learned = (\<lambda>_. None), vm_exit = None\<rparr>"

subsection \<open>Files read back\<close>

lemma Path_entry: "clean_dir dir \<Longrightarrow> plain_name f \<Longrightarrow> Path dir f = dir @ ''/'' @ f"
  by (simp add: Path_def Join_entry)

lemma shim_files_plain [simp]:
  "plain_name PidFile" "plain_name (PidFile @ ''.tmp'')" "plain_name ExitFile" "plain_name (ExitFile @ ''.tmp'')"
  by (simp_all add: plain_name_def PidFile_def ExitFile_def)

lemma shim_files_distinct:
  assumes "clean_dir dir"
  shows "Path dir (PidFile @ ''.tmp'') \<noteq> Path dir PidFile" "Path dir (ExitFile @ ''.tmp'') \<noteq> Path dir ExitFile"
    "Path dir PidFile \<noteq> Path dir ExitFile" "Path dir (PidFile @ ''.tmp'') \<noteq> Path dir ExitFile"
  using assms by (simp_all add: Path_entry) (simp_all add: PidFile_def ExitFile_def)

lemma parse_exitedLine:
  assumes "int64_min \<le> code" and "code \<le> int64_max"
  shows "parseExitedLine (exitedLine code) = Some code"
proof -
  have "last (''exited '' @ Itoa code) = last (Itoa code)" by simp
  then have "TrimSpace ((''exited '' @ Itoa code) @ [CHR 0x0A]) = ''exited '' @ Itoa code"
    using Itoa_ends by (intro TrimSpace_line) (auto simp: plain_char_def)
  moreover have "TrimSpace exitedPrefix = ''exited''"
    unfolding exitedPrefix_def by code_simp
  moreover have "TrimSpace (CHR '' '' # Itoa code) = Itoa code"
    by (intro TrimSpace_field Itoa_ends) simp
  ultimately show ?thesis
    using Atoi_Itoa [OF assms]
    by (simp add: parseExitedLine_def exitedLine_def exitedPrefix_def CutPrefix_def has_prefix_def)
qed

lemma writeExit_read:
  assumes "clean_dir dir" and "int64_min \<le> code" and "code \<le> int64_max" and "readExit dir fs = None"
    and "writeExit out ren dir code fs = (ok, fs')"
  shows "readExit dir fs' = (if ok then Some code else None)"
proof -
  note distinct = shim_files_distinct(2) [OF assms(1)]
  have "TrimSpace (Itoa code) = Itoa code" by (rule TrimSpace_plain) (rule Itoa_visible)
  then have "Atoi (TrimSpace (Itoa code)) = Some code" using Atoi_Itoa [OF assms(2,3)] by simp
  with assms(4,5) distinct show ?thesis
    by (auto simp: writeExit_def WriteFile_def Rename_def readExit_def Let_def split: write_outcome.splits if_splits)
qed

lemma writePidFile_keeps_exit:
  assumes "clean_dir dir" and "writePidFile out ren pid dir fs = (ok, fs')"
  shows "readExit dir fs' = readExit dir fs"
  using assms shim_files_distinct(3,4) [OF assms(1)]
  by (auto simp: writePidFile_def WriteFile_def Rename_def readExit_def Let_def split: write_outcome.splits if_splits)

lemma writePidFile_read:
  assumes "clean_dir dir" and "0 < pid" and "pid \<le> int64_max" and "writePidFile out ren pid dir fs = (True, fs')"
  shows "readPid dir fs' = Some pid"
proof -
  note distinct = shim_files_distinct(1) [OF assms(1)]
  have "TrimSpace (Itoa pid @ [CHR 0x0A]) = Itoa pid" by (intro TrimSpace_line Itoa_ends) simp
  then have "Atoi (TrimSpace (Itoa pid @ [CHR 0x0A])) = Some pid"
    using assms(2,3) by (simp add: Atoi_Itoa int64_min_def)
  with assms(2,4) distinct show ?thesis
    by (auto simp: writePidFile_def WriteFile_def Rename_def readPid_def Let_def split: write_outcome.splits if_splits)
qed

subsection \<open>What a client learns\<close>

definition ended :: "phase \<Rightarrow> bool" where
  "ended p \<longleftrightarrow> p = FinishedClients \<or> p = Stopped \<or> p = Died"

text \<open>The exit of the VM: unknown before it happens, then a Go \<^verbatim>\<open>int\<close> the final line and the file agree with.\<close>

definition exit_ok :: "string \<Rightarrow> shim_sys \<Rightarrow> bool" where
  "exit_ok dir s \<longleftrightarrow>
     (case vm_exit s of
        None \<Rightarrow> phase s \<in> {Setup, StartingVM, RunningVM, Died} \<and> final (srv s) = [] \<and> readExit dir (sfs s) = None
      | Some code \<Rightarrow>
          phase s \<notin> {Setup, StartingVM, RunningVM} \<and> int64_min \<le> code \<and> code \<le> int64_max
          \<and> final (srv s) \<in> {[], exitedLine code} \<and> (final (srv s) \<noteq> [] \<longrightarrow> ended (phase s))
          \<and> (phase s = ExitedVM \<longrightarrow> readExit dir (sfs s) = None)
          \<and> readExit dir (sfs s) \<in> {None, Some code})"

text \<open>A connection holds nothing but the final line, and drops only once the shim is done with it.\<close>

definition conn_ok :: "shim_sys \<Rightarrow> connection \<Rightarrow> bool" where
  "conn_ok s c \<longleftrightarrow>
     (case c of
        Open \<Rightarrow> listening (phase s)
      | Closed (Some l) \<Rightarrow> ended (phase s) \<and> (\<exists>code. vm_exit s = Some code \<and> l = exitedLine code)
      | Closed None \<Rightarrow> ended (phase s))"

definition learned_ok :: "string \<Rightarrow> shim_sys \<Rightarrow> int \<times> read_error option \<Rightarrow> bool" where
  "learned_ok dir s r \<longleftrightarrow>
     ended (phase s)
     \<and> (case r of
          (code, None) \<Rightarrow> vm_exit s = Some code
        | (code, Some e) \<Rightarrow> code = -1 \<and> e = DiedWithoutReporting \<and> readExit dir (sfs s) = None)"

definition shim_inv :: "string \<Rightarrow> shim_sys \<Rightarrow> bool" where
  "shim_inv dir s \<longleftrightarrow>
     exit_ok dir s \<and> list_all (conn_ok s) (conns s) \<and> (\<forall>c r. learned s c = Some r \<longrightarrow> learned_ok dir s r)"

lemma shim_inv_init: "readExit dir fs = None \<Longrightarrow> shim_inv dir (shim_init fs)"
  by (simp add: shim_inv_def exit_ok_def shim_init_def)

text \<open>Nothing the clients rely on is taken back.\<close>

definition exit_stable :: "string \<Rightarrow> shim_sys \<Rightarrow> shim_sys \<Rightarrow> bool" where
  "exit_stable dir s s' \<longleftrightarrow>
     (ended (phase s) \<longrightarrow> ended (phase s') \<and> vm_exit s' = vm_exit s \<and> readExit dir (sfs s') = readExit dir (sfs s))
     \<and> (listening (phase s) \<longrightarrow> \<not> listening (phase s') \<longrightarrow> Open \<notin> set (conns s'))"

lemma conn_ok_stable: "conn_ok s c \<Longrightarrow> exit_stable dir s s' \<Longrightarrow> c \<noteq> Open \<or> listening (phase s') \<Longrightarrow> conn_ok s' c"
  by (auto simp: conn_ok_def exit_stable_def split: connection.splits option.splits)

lemma learned_ok_simps:
  "learned_ok dir s (code, None) \<longleftrightarrow> ended (phase s) \<and> vm_exit s = Some code"
  "learned_ok dir s (code, Some e) \<longleftrightarrow>
     ended (phase s) \<and> code = -1 \<and> e = DiedWithoutReporting \<and> readExit dir (sfs s) = None"
  by (simp_all add: learned_ok_def)

lemma learned_ok_stable: "learned_ok dir s r \<Longrightarrow> exit_stable dir s s' \<Longrightarrow> learned_ok dir s' r"
  by (auto simp: learned_ok_def exit_stable_def split: prod.splits option.splits)

lemma drop_open_ok:
  "list_all (conn_ok s) cs \<Longrightarrow> exit_stable dir s s' \<Longrightarrow> ended (phase s') \<Longrightarrow> list_all (conn_ok s') (drop_open cs)"
  by (auto simp: drop_open_def list_all_iff intro: conn_ok_stable) (simp add: conn_ok_def)

lemma drop_open_closed [simp]: "Open \<notin> set (drop_open cs)"
  by (auto simp: drop_open_def)

lemma list_all_update: "list_all P cs \<Longrightarrow> P x \<Longrightarrow> list_all P (cs[c := x])"
  using set_update_subset_insert [of cs c x] by (auto simp: list_all_iff)

lemma deliver_ok:
  "list_all P cs \<Longrightarrow> \<forall>w \<in> set ws. P (Closed (Some (snd w))) \<and> P (Closed None) \<Longrightarrow> list_all P (deliver arrives ws cs)"
proof (induction ws arbitrary: cs)
  case (Cons w ws)
  then have "list_all P (cs[fst w := Closed (if arrives (fst w) then Some (snd w) else None)])"
    by (intro list_all_update) simp_all
  then have "list_all P (deliver arrives ws (cs[fst w := Closed (if arrives (fst w) then Some (snd w) else None)]))"
    using Cons.prems(2) by (intro Cons.IH) simp_all
  then show ?case by (cases w) (auto split: if_splits)
qed simp

lemma handle_read_ok:
  assumes "exit_ok dir s" and "conn_ok s (Closed line)"
  shows "learned_ok dir s (handle_read line dir (sfs s))"
proof (cases "vm_exit s")
  case None
  with assms show ?thesis
    by (cases line) (simp_all add: exit_ok_def conn_ok_def learned_ok_def handle_read_def)
next
  case (Some code)
  with assms(1) have parse: "parseExitedLine (exitedLine code) = Some code"
    by (simp add: exit_ok_def parse_exitedLine)
  have recorded: "readExit dir (sfs s) = None \<or> readExit dir (sfs s) = Some code"
    using assms(1) Some by (simp add: exit_ok_def)
  show ?thesis
    using assms(2) Some parse recorded
    by (cases line) (auto simp: conn_ok_def learned_ok_def handle_read_def)
qed

text \<open>A step that keeps what is promised only has to keep the connections it touches.\<close>

lemma shim_inv_step:
  assumes "shim_inv dir s" and "exit_ok dir s'" and "exit_stable dir s s'" and "list_all (conn_ok s') (conns s')"
    and "\<And>c r. learned s' c = Some r \<Longrightarrow> learned s c = Some r \<or> learned_ok dir s' r"
  shows "shim_inv dir s'"
  using assms learned_ok_stable [OF _ assms(3)] unfolding shim_inv_def by blast

lemma conns_later:
  "shim_inv dir s \<Longrightarrow> exit_stable dir s s' \<Longrightarrow> listening (phase s') \<Longrightarrow> list_all (conn_ok s') (conns s)"
  unfolding shim_inv_def list_all_iff using conn_ok_stable by blast

lemma conns_kept:
  "shim_inv dir s \<Longrightarrow> exit_stable dir s s' \<Longrightarrow> listening (phase s') \<Longrightarrow> conns s' = conns s \<Longrightarrow> list_all (conn_ok s') (conns s')"
  using conns_later by simp

lemma conns_dropped:
  "shim_inv dir s \<Longrightarrow> exit_stable dir s s' \<Longrightarrow> ended (phase s') \<Longrightarrow> conns s' = drop_open (conns s)
   \<Longrightarrow> list_all (conn_ok s') (conns s')"
  by (auto simp: shim_inv_def intro: drop_open_ok)

lemmas phases = ended_def listening_def

lemma shim_step_inv:
  assumes "shim_step dir s s'" and "clean_dir dir" and inv: "shim_inv dir s"
  shows "shim_inv dir s'"
  using assms(1)
proof cases
  case (pid_written out ren pid fs')
  note keep = writePidFile_keeps_exit [OF assms(2) pid_written(3)]
  have ok: "exit_ok dir s'" and st: "exit_stable dir s s'"
    using inv keep pid_written(1,2) by (auto simp: shim_inv_def exit_ok_def exit_stable_def phases split: option.splits)
  show ?thesis
    by (rule shim_inv_step [OF inv ok st conns_kept [OF inv st]]) (simp_all add: pid_written(1) phases)
next
  case (pid_failed out ren pid fs')
  note keep = writePidFile_keeps_exit [OF assms(2) pid_failed(3)]
  have ok: "exit_ok dir s'" and st: "exit_stable dir s s'"
    using inv keep pid_failed(1,2) by (auto simp: shim_inv_def exit_ok_def exit_stable_def phases split: option.splits)
  show ?thesis
    by (rule shim_inv_step [OF inv ok st conns_dropped [OF inv st]]) (simp_all add: pid_failed(1) phases)
next
  case vm_failed
  have ok: "exit_ok dir s'" and st: "exit_stable dir s s'"
    using inv vm_failed by (auto simp: shim_inv_def exit_ok_def exit_stable_def phases int64_min_def int64_max_def split: option.splits)
  show ?thesis
    by (rule shim_inv_step [OF inv ok st conns_kept [OF inv st]]) (simp_all add: vm_failed(1) phases)
next
  case vm_started
  have ok: "exit_ok dir s'" and st: "exit_stable dir s s'"
    using inv vm_started by (auto simp: shim_inv_def exit_ok_def exit_stable_def phases split: option.splits)
  show ?thesis
    by (rule shim_inv_step [OF inv ok st conns_kept [OF inv st]]) (simp_all add: vm_started(1) phases)
next
  case (vm_exited status)
  have ok: "exit_ok dir s'" and st: "exit_stable dir s s'"
    using inv vm_exited by (auto simp: shim_inv_def exit_ok_def exit_stable_def phases split: option.splits)
  show ?thesis
    by (rule shim_inv_step [OF inv ok st conns_kept [OF inv st]]) (simp_all add: vm_exited(1) phases)
next
  case (exit_recorded code out ren ok fs')
  have "readExit dir fs' = (if ok then Some code else None)"
    using inv exit_recorded(2,3) by (intro writeExit_read [OF assms(2) _ _ _ exit_recorded(4)]) (auto simp: shim_inv_def exit_ok_def)
  then have ok': "exit_ok dir s'" and st: "exit_stable dir s s'"
    using inv exit_recorded(1,2,3) by (auto simp: shim_inv_def exit_ok_def exit_stable_def phases split: option.splits)
  show ?thesis
    by (rule shim_inv_step [OF inv ok' st conns_kept [OF inv st]]) (simp_all add: exit_recorded(1) phases)
next
  case (clients_told code ws srv' arrives)
  have ok: "exit_ok dir s'" and st: "exit_stable dir s s'"
    using inv clients_told by (auto simp: shim_inv_def exit_ok_def exit_stable_def finish_def phases)
  have "list_all (conn_ok s') (conns s)"
    by (rule conns_later [OF inv st]) (simp add: clients_told(1) phases)
  moreover have "\<forall>w \<in> set ws. conn_ok s' (Closed (Some (snd w))) \<and> conn_ok s' (Closed None)"
    using clients_told by (auto simp: finish_def conn_ok_def phases)
  ultimately have "list_all (conn_ok s') (conns s')" by (simp add: clients_told(1) deliver_ok)
  then show ?thesis by (rule shim_inv_step [OF inv ok st]) (simp add: clients_told(1))
next
  case listener_closed
  have ok: "exit_ok dir s'" and st: "exit_stable dir s s'"
    using inv listener_closed by (auto simp: shim_inv_def exit_ok_def exit_stable_def phases split: option.splits)
  show ?thesis
    by (rule shim_inv_step [OF inv ok st conns_dropped [OF inv st]]) (simp_all add: listener_closed(1) phases)
next
  case killed
  have ok: "exit_ok dir s'" and st: "exit_stable dir s s'"
    using inv killed by (auto simp: shim_inv_def exit_ok_def exit_stable_def phases split: option.splits)
  show ?thesis
    by (rule shim_inv_step [OF inv ok st conns_dropped [OF inv st]]) (simp_all add: killed(1) phases)
next
  case client_dials
  have ok: "exit_ok dir s'" and st: "exit_stable dir s s'"
    using inv client_dials by (auto simp: shim_inv_def exit_ok_def exit_stable_def split: option.splits)
  have "list_all (conn_ok s') (conns s)"
    by (rule conns_later [OF inv st]) (simp add: client_dials)
  then have "list_all (conn_ok s') (conns s')" using client_dials by (simp add: conn_ok_def)
  then show ?thesis by (rule shim_inv_step [OF inv ok st]) (simp add: client_dials(1))
next
  case (accepted c q ws srv' arrives)
  have ok: "exit_ok dir s'" and st: "exit_stable dir s s'"
    using inv accepted by (auto simp: shim_inv_def exit_ok_def exit_stable_def accept_def split: option.splits if_splits)
  have "list_all (conn_ok s') (conns s)"
    by (rule conns_later [OF inv st]) (simp add: accepted)
  moreover have "\<forall>w \<in> set ws. conn_ok s' (Closed (Some (snd w))) \<and> conn_ok s' (Closed None)"
    using inv accepted by (auto simp: accept_def conn_ok_def shim_inv_def exit_ok_def split: if_splits option.splits)
  ultimately have "list_all (conn_ok s') (conns s')" by (simp add: accepted(1) deliver_ok)
  then show ?thesis by (rule shim_inv_step [OF inv ok st]) (simp add: accepted(1))
next
  case (client_reads c line)
  have ok: "exit_ok dir s'" and st: "exit_stable dir s s'"
    using inv client_reads by (auto simp: shim_inv_def exit_ok_def exit_stable_def split: option.splits)
  have "conn_ok s (Closed line)" using inv client_reads(2,3) by (auto simp: shim_inv_def list_all_length)
  then have "learned_ok dir s (handle_read line dir (sfs s))"
    using inv by (intro handle_read_ok) (simp_all add: shim_inv_def)
  then have new: "learned_ok dir s' (handle_read line dir (sfs s))" by (rule learned_ok_stable [OF _ st])
  have "conn_ok s' = conn_ok s"
    by (rule ext) (auto simp: conn_ok_def client_reads(1) split: connection.split option.split)
  then have "list_all (conn_ok s') (conns s')" using inv by (simp add: shim_inv_def client_reads(1))
  then show ?thesis
    by (rule shim_inv_step [OF inv ok st]) (use new in \<open>auto simp: client_reads(1) split: if_splits\<close>)
qed

lemma shim_run_inv:
  "(shim_step dir)\<^sup>*\<^sup>* s s' \<Longrightarrow> clean_dir dir \<Longrightarrow> shim_inv dir s \<Longrightarrow> shim_inv dir s'"
  by (induction rule: rtranclp_induct) (auto intro: shim_step_inv)

text \<open>C21: from the moment a shim listens, in a directory without an exit file, whatever the order in
  which clients dial, the shim accepts, answers, fails to write or is killed: a client that reports
  an exit code without an error reports the code Firecracker exited with, even when its connection
  dropped unanswered.  A client reports an error only if the connection dropped and the exit file
  was never completed, and once the shim is gone every connection has ended, so every client learns one
  of the two.\<close>

theorem every_client_learns_the_exit:
  assumes "clean_dir dir" and "readExit dir fs = None" and "(shim_step dir)\<^sup>*\<^sup>* (shim_init fs) s"
  shows "(\<forall>c code. learned s c = Some (code, None) \<longrightarrow> vm_exit s = Some code)
    \<and> (\<forall>c code e. learned s c = Some (code, Some e) \<longrightarrow>
         e = DiedWithoutReporting \<and> readExit dir (sfs s) = None \<and> ended (phase s))
    \<and> (\<not> listening (phase s) \<longrightarrow> (\<forall>c < length (conns s). \<exists>line. conns s ! c = Closed line))"
proof -
  have inv: "shim_inv dir s"
    by (rule shim_run_inv [OF assms(3,1) shim_inv_init [OF assms(2)]])
  have "\<exists>line. c = Closed line" if "\<not> listening (phase s)" and "conn_ok s c" for c
    using that by (cases c) (auto simp: conn_ok_def)
  moreover have "learned_ok dir s r" if "learned s c = Some r" for c r
    using inv that unfolding shim_inv_def by blast
  ultimately show ?thesis
    using inv unfolding shim_inv_def list_all_length by (metis learned_ok_simps)
qed

text \<open>A client whose connection is never accepted: it dials, Firecracker fails to start, the shim
  records it, closes its listener, and the client finds the code in the file.\<close>

theorem every_client_learns_the_exit_witness:
  "\<exists>s. (shim_step ''/run/sb'')\<^sup>*\<^sup>* (shim_init (\<lambda>_. None)) s
     \<and> learned s 0 = Some (-1, None) \<and> vm_exit s = Some (-1) \<and> conns s = [Closed None]"
proof -
  let ?d = "''/run/sb''" and ?fs = "(\<lambda>_. None) :: files"
  have dir: "clean_dir ?d" by (simp add: clean_dir_def) code_simp
  have none: "readExit ?d ?fs = None" by (simp add: readExit_def)
  define s0 where "s0 = shim_init ?fs"
  define s1 where "s1 = s0\<lparr>queue := [0], conns := [Open]\<rparr>"
  obtain f2 where f2: "writePidFile Written True 7 ?d ?fs = (True, f2)"
    by (auto simp: writePidFile_def WriteFile_def Rename_def Let_def)
  define s2 where "s2 = s1\<lparr>phase := StartingVM, sfs := f2\<rparr>"
  define s3 where "s3 = s2\<lparr>phase := ExitedVM, vm_exit := Some (-1)\<rparr>"
  obtain f4 where f4: "writeExit Written True ?d (-1) f2 = (True, f4)"
    by (auto simp: writeExit_def WriteFile_def Rename_def Let_def)
  define s4 where "s4 = s3\<lparr>phase := RecordedExit, sfs := f4\<rparr>"
  define s5 where "s5 = s4\<lparr>phase := FinishedClients, srv := \<lparr>clients = [], final = exitedLine (-1)\<rparr>\<rparr>"
  define s6 where "s6 = s5\<lparr>phase := Stopped, queue := [], conns := [Closed None]\<rparr>"
  define s7 where "s7 = s6\<lparr>learned := (learned s6)(0 := Some (handle_read None ?d (sfs s6)))\<rparr>"
  note defs = s7_def s6_def s5_def s4_def s3_def s2_def s1_def s0_def shim_init_def
  have "shim_step ?d s0 s1"
    using client_dials [of s0 ?d] by (simp add: defs listening_def)
  moreover have "shim_step ?d s1 s2"
    using pid_written [of s1 Written True 7 ?d f2] f2 by (simp add: defs)
  moreover have "shim_step ?d s2 s3"
    using vm_failed [of s2 ?d] by (simp add: defs)
  moreover have "shim_step ?d s3 s4"
    using exit_recorded [of s3 "-1" Written True ?d True f4] f4 by (simp add: defs)
  moreover have "shim_step ?d s4 s5"
    using clients_told [of s4 "-1" "[]" "\<lparr>clients = [], final = exitedLine (-1)\<rparr>" ?d "\<lambda>_. True"]
    by (simp add: defs finish_def)
  moreover have "shim_step ?d s5 s6"
    using listener_closed [of s5 ?d] by (simp add: defs drop_open_def)
  moreover have "shim_step ?d s6 s7"
    using client_reads [of 0 s6 None ?d] by (simp add: defs)
  ultimately have run: "(shim_step ?d)\<^sup>*\<^sup>* s0 s7"
    by (meson converse_rtranclp_into_rtranclp rtranclp.rtrancl_refl)
  have "readExit ?d f4 = Some (-1)"
    using writeExit_read [OF dir _ _ _ f4] writePidFile_keeps_exit [OF dir f2] none
    by (simp add: int64_min_def int64_max_def)
  then have "learned s7 0 = Some (-1, None)" by (simp add: defs handle_read_def)
  moreover have "conns s7 = [Closed None]" by (simp add: defs)
  ultimately show ?thesis
    using every_client_learns_the_exit [OF dir none run [unfolded s0_def]] run [unfolded s0_def] by blast
qed

subsection \<open>Finding the shim of a directory again\<close>

text \<open>The kernel shows the arguments of a process each followed by a NUL byte.\<close>

definition proc_cmdline :: "string list \<Rightarrow> string" where
  "proc_cmdline args = concat (map (\<lambda>a. a @ [CHR 0x00]) args)"

lemma Split_first: "sep \<notin> set a \<Longrightarrow> Split (a @ sep # rest) sep = a # Split rest sep"
  by (induction a) (auto split: list.split)

lemma TrimNul_last: "s \<noteq> [] \<Longrightarrow> last s \<noteq> CHR 0x00 \<Longrightarrow> TrimNul (s @ [CHR 0x00]) = s"
  by (cases s rule: rev_cases) (simp_all add: TrimNul_def)

lemma cmdline_args:
  "args \<noteq> [] \<Longrightarrow> last args \<noteq> [] \<Longrightarrow> \<forall>a \<in> set args. CHR 0x00 \<notin> set a
   \<Longrightarrow> Split (TrimNul (proc_cmdline args)) (CHR 0x00) = args"
proof (induction args rule: rev_induct)
  case (snoc a args)
  have end_a: "last a \<noteq> CHR 0x00" using snoc.prems by (cases a rule: rev_cases) auto
  have "TrimNul (proc_cmdline (args @ [a])) = proc_cmdline args @ a"
    using TrimNul_last [of "proc_cmdline args @ a"] snoc.prems end_a by (simp add: proc_cmdline_def)
  moreover have "Split (proc_cmdline as @ a) (CHR 0x00) = as @ [a]" if "\<forall>x \<in> set as. CHR 0x00 \<notin> set x" for as
    using that snoc.prems(3) by (induction as) (simp_all add: proc_cmdline_def Split_no_sep Split_first)
  ultimately show ?case using snoc.prems(3) by simp
qed simp

lemma Base_ProcessName: "Base ProcessName = ProcessName"
  unfolding ProcessName_def by code_simp

lemma isShimOf_args:
  assumes "cmdline pid = Some (proc_cmdline args)" and "args \<noteq> []" and "last args \<noteq> []"
    and "\<forall>a \<in> set args. CHR 0x00 \<notin> set a"
  shows "isShimOf cmdline pid dir \<longleftrightarrow> Base (hd args) = ProcessName \<and> dir_flag dir (tl args)"
  using assms cmdline_args [OF assms(2-4)] by (simp add: isShimOf_def Let_def)

text \<open>C29: the shim \<^verbatim>\<open>Spawn\<close> starts for an absolute directory serves that directory with that binary, and is found again from its
  pid file: a later
  worker reads its PID, recognises its command line for that directory and for no other, attaches
  to it while its VM runs, and \<^verbatim>\<open>KillStale\<close> kills exactly that process.  A process that has inherited the
  PID but is not a shim is neither attached to nor killed.\<close>

theorem spawned_shim_is_found:
  assumes "clean_dir dir" and "HasPrefix dir ''/''" and "CHR 0x00 \<notin> set dir"
    and "fc \<noteq> []" and "CHR 0x00 \<notin> set fc" and "0 < pid" and "pid \<le> int64_max"
    and "writePidFile out ren pid dir fs = (True, fs')"
    and "cmdline pid = Some (proc_cmdline (spawn_args dir fc))"
    and "other pid = Some (proc_cmdline args)" and "args \<noteq> []" and "last args \<noteq> []"
    and "\<forall>a \<in> set args. CHR 0x00 \<notin> set a" and "Base (hd args) \<noteq> ProcessName"
  shows "shim_Main serve (tl (spawn_args dir fc)) = (if serve dir fc then 0 else 1)
    \<and> (\<forall>d. isShimOf cmdline pid d \<longleftrightarrow> d = dir)
    \<and> (readExit dir fs = None \<longrightarrow> Attach cmdline True dir fs' = Inr pid)
    \<and> KillStale cmdline (\<lambda>_. KillOk) dir fs' = ([pid], True)
    \<and> Attach other dial_ok dir fs' = Inl (NotTheShim pid)
    \<and> KillStale other kill dir fs' = ([], True)"
proof -
  have pid: "readPid dir fs' = Some pid" by (rule writePidFile_read [OF assms(1,6,7,8)])
  have exit: "readExit dir fs' = readExit dir fs" by (rule writePidFile_keeps_exit [OF assms(1,8)])
  have "dir \<noteq> ''-dir''" using assms(2) by (auto simp: HasPrefix_def has_prefix_def)
  then have flag: "dir_flag d (tl (spawn_args dir fc)) \<longleftrightarrow> d = dir" for d
    by (auto simp: spawn_args_def)
  have "\<forall>a \<in> set (spawn_args dir fc). CHR 0x00 \<notin> set a"
    using assms(3,5) by (simp add: spawn_args_def ProcessName_def)
  then have own: "isShimOf cmdline pid d \<longleftrightarrow> d = dir" for d
    using isShimOf_args [of cmdline pid, OF assms(9)] assms(4) flag Base_ProcessName by (simp add: spawn_args_def)
  have "\<not> isShimOf other pid dir"
    using isShimOf_args [of other pid, OF assms(10-13)] assms(14) by simp
  moreover have "dir \<noteq> []" using assms(2) by (auto simp: HasPrefix_def has_prefix_def)
  ultimately show ?thesis using own pid exit shim_Main_spawned assms(4) by (simp add: Attach_def KillStale_def)
qed

theorem spawned_shim_is_found_witness:
  "\<exists>fs'. writePidFile Written True 42 ''/run/sb'' (\<lambda>_. None) = (True, fs')
     \<and> Attach (\<lambda>p. Some (proc_cmdline (spawn_args ''/run/sb'' ''/usr/bin/firecracker''))) True ''/run/sb'' fs' = Inr 42
     \<and> KillStale (\<lambda>p. Some (proc_cmdline [''nginx'', ''-dir'', ''/run/sb''])) (\<lambda>_. KillOk) ''/run/sb'' fs' = ([], True)"
proof -
  let ?d = "''/run/sb''" and ?fs = "(\<lambda>_. None) :: files"
  have dir: "clean_dir ?d" by (simp add: clean_dir_def) code_simp
  have none: "readExit ?d ?fs = None" by (simp add: readExit_def)
  obtain fs' where fs': "writePidFile Written True 42 ?d ?fs = (True, fs')"
    by (auto simp: writePidFile_def WriteFile_def Rename_def Let_def)
  have nginx: "Base ''nginx'' \<noteq> ProcessName" unfolding ProcessName_def by code_simp
  show ?thesis
    using spawned_shim_is_found [OF dir _ _ _ _ _ _ fs', where fc = "''/usr/bin/firecracker''"
        and cmdline = "\<lambda>p. Some (proc_cmdline (spawn_args ?d ''/usr/bin/firecracker''))"
        and args = "[''nginx'', ''-dir'', ?d]" and other = "\<lambda>p. Some (proc_cmdline [''nginx'', ''-dir'', ?d])"
        and kill = "\<lambda>_. KillOk"]
      fs' nginx none
    by (auto simp: HasPrefix_def has_prefix_def int64_max_def)
qed

end
