(* ===== verification/Runtime.thy ===== *)
theory Runtime
  imports Shim Wire
begin

text \<open>
  \<^verbatim>\<open>runtime/\<close>: sandbox identifiers and directories, the client of one VM, and the reaping of what a
  sandbox left on the host.  \<^verbatim>\<open>uuid.Parse\<close> is the argument \<open>parse\<close>; the thin volumes are a value of any
  type, changed by the function the caller passes.
\<close>

subsection \<open>Identifiers and directories\<close>

definition defaultSandboxBaseDir :: string where "defaultSandboxBaseDir = ''/tmp''"

text \<open>The argument is \<^verbatim>\<open>FIRECRACKER_SANDBOX_DIR\<close>, empty when unset.\<close>

definition SandboxBaseDir :: "string \<Rightarrow> string" where
  "SandboxBaseDir env = (if env \<noteq> [] then env else defaultSandboxBaseDir)"

definition IsSandboxID :: "(string \<Rightarrow> bool) \<Rightarrow> string \<Rightarrow> bool" where
  "IsSandboxID parse name \<longleftrightarrow> parse name \<and> length name = 36"

datatype 'e runtime_error =
    ErrInvalidSandboxID string
  | MkdirFailed
  | AttachFailed attach_error
  | AlreadySpawned
  | NoRootDrive
  | WriteConfigFailed
  | SpawnFailed spawn_error
  | ReadDirFailed
  | RefusingToReap string
  | KillShimFailed
  | KillFirecrackerFailed int
  | RemoveVolumeFailed 'e
  | RemoveDirFailed

definition CheckSandboxID :: "(string \<Rightarrow> bool) \<Rightarrow> string \<Rightarrow> 'e runtime_error option" where
  "CheckSandboxID parse i = (if \<not> IsSandboxID parse i then Some (ErrInvalidSandboxID i) else None)"

text \<open>\<^verbatim>\<open>os.ReadDir\<close>: the entries with whether each is a directory, or a failure.\<close>

datatype read_dir = Entries "(string \<times> bool) list" | NotExist | ReadFailed

definition ListSandboxDirs :: "(string \<Rightarrow> bool) \<Rightarrow> read_dir \<Rightarrow> 'e runtime_error + string list" where
  "ListSandboxDirs parse d =
     (case d of
        NotExist \<Rightarrow> Inr []
      | ReadFailed \<Rightarrow> Inl ReadDirFailed
      | Entries es \<Rightarrow> Inr (map fst (filter (\<lambda>(name, isDir). isDir \<and> IsSandboxID parse name) es)))"

subsection \<open>The host\<close>

text \<open>What the worker sees of its host: files, the sandbox directories, the processes of \<^verbatim>\<open>/proc\<close> by
  the name of their directory, and the volumes.  The PIDs signalled and the directories removed are
  recorded.\<close>

record 'v host =
  host_files :: files
  dirs :: "string list"
  procs :: "(string \<times> string option) list"
  volumes :: 'v
  killed_pids :: "int list"
  removed_dirs :: "string list"

definition cmdline_of :: "'v host \<Rightarrow> int \<Rightarrow> string option" where
  "cmdline_of h pid = (case map_of (procs h) (Itoa pid) of Some (Some raw) \<Rightarrow> Some raw | _ \<Rightarrow> None)"

fun sock_flag :: "string \<Rightarrow> string list \<Rightarrow> bool" where
  "sock_flag path (a # b # rest) = (a = ''--api-sock'' \<and> b = path \<or> sock_flag path (b # rest))"
| "sock_flag path _ = False"

fun findProcessHoldingSocket :: "string \<Rightarrow> (string \<times> string option) list \<Rightarrow> int option" where
  "findProcessHoldingSocket path [] = None"
| "findProcessHoldingSocket path ((name, cmdline) # ps) =
     (case (Atoi name, cmdline) of
        (Some p, Some raw) \<Rightarrow>
          (let args = Split (TrimNul raw) (CHR 0x00)
           in if args = [] \<or> \<not> Contains (hd args) ''firecracker'' then findProcessHoldingSocket path ps
              else if sock_flag path args then Some p
              else findProcessHoldingSocket path ps)
      | _ \<Rightarrow> findProcessHoldingSocket path ps)"

text \<open>\<^verbatim>\<open>os.RemoveAll\<close> of a sandbox directory, with whether it succeeds.\<close>

definition RemoveAll :: "bool \<Rightarrow> string \<Rightarrow> 'v host \<Rightarrow> bool \<times> 'v host" where
  "RemoveAll ok dir h =
     (ok, h\<lparr>removed_dirs := removed_dirs h @ [dir], dirs := (if ok then filter (\<lambda>d. d \<noteq> dir) (dirs h) else dirs h)\<rparr>)"

text \<open>The wait for the socket to go away changes nothing and is left out.\<close>

definition ReapSandbox ::
    "(string \<Rightarrow> bool) \<Rightarrow> (int \<Rightarrow> kill_result) \<Rightarrow> bool \<Rightarrow> string \<Rightarrow> string \<Rightarrow> (string \<Rightarrow> 'v \<Rightarrow> 'e option \<times> 'v)
       \<Rightarrow> 'v host \<Rightarrow> 'e runtime_error option \<times> 'v host" where
  "ReapSandbox parse kill rm_ok baseDir sandboxID removeVolume h =
     (if \<not> IsSandboxID parse sandboxID then (Some (RefusingToReap sandboxID), h)
      else
        (let dir = Join baseDir sandboxID;
             socketPath = Path dir APISocket
         in case KillStale (cmdline_of h) kill dir (host_files h) of
              (pids, shim_ok) \<Rightarrow>
                (let h1 = h\<lparr>killed_pids := killed_pids h @ pids\<rparr>
                 in if \<not> shim_ok then (Some KillShimFailed, h1)
                    else
                      (let found = findProcessHoldingSocket socketPath (procs h1);
                           h2 = (case found of None \<Rightarrow> h1 | Some pid \<Rightarrow> h1\<lparr>killed_pids := killed_pids h1 @ [pid]\<rparr>)
                       in if (case found of None \<Rightarrow> False | Some pid \<Rightarrow> kill pid = KillFailed)
                          then (Some (KillFirecrackerFailed (the found)), h2)
                          else
                            (case removeVolume sandboxID (volumes h2) of
                               (Some e, v) \<Rightarrow> (Some (RemoveVolumeFailed e), h2\<lparr>volumes := v\<rparr>)
                             | (None, v) \<Rightarrow>
                                 (case RemoveAll rm_ok dir (h2\<lparr>volumes := v\<rparr>) of
                                    (ok, h3) \<Rightarrow> (if ok then None else Some RemoveDirFailed, h3)))))))"

fun reap_each ::
    "(string \<Rightarrow> bool) \<Rightarrow> (int \<Rightarrow> kill_result) \<Rightarrow> (string \<Rightarrow> bool) \<Rightarrow> string \<Rightarrow> (string \<Rightarrow> 'v \<Rightarrow> 'e option \<times> 'v)
       \<Rightarrow> string list \<Rightarrow> 'v host \<Rightarrow> 'e runtime_error list \<times> 'v host" where
  "reap_each parse kill rm_ok baseDir removeVolume [] h = ([], h)"
| "reap_each parse kill rm_ok baseDir removeVolume (i # is) h =
     (case ReapSandbox parse kill (rm_ok i) baseDir i removeVolume h of
        (e, h1) \<Rightarrow>
          (case reap_each parse kill rm_ok baseDir removeVolume is h1 of
             (errs, h2) \<Rightarrow> (case e of None \<Rightarrow> (errs, h2) | Some err \<Rightarrow> (err # errs, h2))))"

definition ReapOrphans ::
    "(string \<Rightarrow> bool) \<Rightarrow> (int \<Rightarrow> kill_result) \<Rightarrow> (string \<Rightarrow> bool) \<Rightarrow> string \<Rightarrow> read_dir
       \<Rightarrow> (string \<Rightarrow> 'v \<Rightarrow> 'e option \<times> 'v) \<Rightarrow> 'v host \<Rightarrow> 'e runtime_error list \<times> 'v host" where
  "ReapOrphans parse kill rm_ok baseDir listing removeVolume h =
     (case ListSandboxDirs parse listing of
        Inl e \<Rightarrow> ([e], h)
      | Inr ids \<Rightarrow> reap_each parse kill rm_ok baseDir removeVolume ids h)"

subsection \<open>The client of one VM\<close>

record Client =
  sandboxId :: string
  client_Dir :: string
  handle :: "spawned option"

record SpawnRequest =
  ShimPath :: string
  FirecrackerPath :: string
  KernelPath :: string
  RootDrivePath :: string
  spawn_VcpuCount :: int
  spawn_MemSizeMib :: int
  BootArgs :: string

record vmConfig =
  cfg_kernel_image_path :: string
  cfg_boot_args :: string
  cfg_drive_id :: string
  cfg_path_on_host :: string
  cfg_is_root_device :: bool
  cfg_is_read_only :: bool
  cfg_vcpu_count :: int
  cfg_mem_size_mib :: int

definition NewClient ::
    "(string \<Rightarrow> bool) \<Rightarrow> bool \<Rightarrow> string \<Rightarrow> string \<Rightarrow> 'v host \<Rightarrow> ('e runtime_error + Client) \<times> 'v host" where
  "NewClient parse mkdir_ok baseDir i h =
     (case CheckSandboxID parse i of
        Some e \<Rightarrow> (Inl e, h)
      | None \<Rightarrow>
          (let dir = Join baseDir i
           in if \<not> mkdir_ok then (Inl MkdirFailed, h)
              else (Inr \<lparr>sandboxId = i, client_Dir = dir, handle = None\<rparr>,
                    h\<lparr>dirs := (if dir \<in> set (dirs h) then dirs h else dirs h @ [dir])\<rparr>)))"

definition client_Attach ::
    "(string \<Rightarrow> bool) \<Rightarrow> bool \<Rightarrow> string \<Rightarrow> string \<Rightarrow> 'v host \<Rightarrow> 'e runtime_error + Client" where
  "client_Attach parse dial_ok baseDir i h =
     (case CheckSandboxID parse i of
        Some e \<Rightarrow> Inl e
      | None \<Rightarrow>
          (let dir = Join baseDir i
           in case Attach (cmdline_of h) dial_ok dir (host_files h) of
                Inl e \<Rightarrow> Inl (AttachFailed e)
              | Inr pid \<Rightarrow> Inr \<lparr>sandboxId = i, client_Dir = dir, handle = Some (Connected pid)\<rparr>))"

definition vm_config :: "SpawnRequest \<Rightarrow> vmConfig" where
  "vm_config req =
     \<lparr>cfg_kernel_image_path = KernelPath req, cfg_boot_args = BootArgs req, cfg_drive_id = ''rootfs'',
      cfg_path_on_host = RootDrivePath req, cfg_is_root_device = True, cfg_is_read_only = False,
      cfg_vcpu_count = spawn_VcpuCount req, cfg_mem_size_mib = spawn_MemSizeMib req\<rparr>"

text \<open>\<open>marshal\<close> is the JSON text of the configuration.\<close>

definition client_Spawn ::
    "(vmConfig \<Rightarrow> string) \<Rightarrow> write_outcome \<Rightarrow> bool \<Rightarrow> bool \<Rightarrow> int option \<Rightarrow> attempt list \<Rightarrow> SpawnRequest \<Rightarrow> Client
       \<Rightarrow> 'v host \<Rightarrow> ('e runtime_error option \<times> Client) \<times> 'v host" where
  "client_Spawn marshal out log_ok remove_ok start_pid attempts req c h =
     (if handle c \<noteq> None then ((Some AlreadySpawned, c), h)
      else if RootDrivePath req = [] then ((Some NoRootDrive, c), h)
      else
        (case WriteFile out (Path (client_Dir c) ConfigFile) (marshal (vm_config req)) (host_files h) of
           (False, fs) \<Rightarrow> ((Some WriteConfigFailed, c), h\<lparr>host_files := fs\<rparr>)
         | (True, fs) \<Rightarrow>
             (case Spawn log_ok remove_ok start_pid attempts (client_Dir c) fs of
                (Inl e, fs1) \<Rightarrow> ((Some (SpawnFailed e), c), h\<lparr>host_files := fs1\<rparr>)
              | (Inr s, fs1) \<Rightarrow> ((None, c\<lparr>handle := Some s\<rparr>), h\<lparr>host_files := fs1\<rparr>))))"

definition client_Stop ::
    "bool \<Rightarrow> kill_result \<Rightarrow> bool \<Rightarrow> kill_result \<Rightarrow> bool \<Rightarrow> Client \<Rightarrow> proc_signal list \<times> stop_error option" where
  "client_Stop done term_result in_grace kill_result after c =
     (if handle c = None then ([], None)
      else handle_Stop done term_result in_grace kill_result after)"

text \<open>\<^verbatim>\<open>Wait\<close>: what the handle learned, \<open>None\<close> when the context was done first.  It always returns an error, which says why.\<close>

datatype wait_error = NotSpawned | WaitCancelled | ShimLost read_error | FirecrackerExited int

definition client_Wait :: "Client \<Rightarrow> (int \<times> read_error option) option \<Rightarrow> wait_error" where
  "client_Wait c told =
     (if handle c = None then NotSpawned
      else
        (case told of
           None \<Rightarrow> WaitCancelled
         | Some (code, Some e) \<Rightarrow> ShimLost e
         | Some (code, None) \<Rightarrow> FirecrackerExited code))"

text \<open>The answer of Firecracker's API to \<^verbatim>\<open>GET /\<close>.\<close>

datatype api_answer = ApiUnreachable | ApiStatus int | ApiBadBody | ApiState string

definition client_State :: "api_answer \<Rightarrow> SandboxState option" where
  "client_State a =
     (case a of
        ApiState s \<Rightarrow>
          if s = ''Running'' then Some SANDBOX_STATE_RUNNING
          else if s = ''Paused'' then Some SANDBOX_STATE_PAUSED
          else if s = ''Not started'' then Some SANDBOX_STATE_STARTING
          else None
      | _ \<Rightarrow> None)"

subsection \<open>Reaping stays inside the sandbox\<close>

text \<open>What \<^verbatim>\<open>uuid.Parse\<close> accepts in 36 characters is made of hexadecimal digits and dashes.\<close>

definition uuid_char :: "char \<Rightarrow> bool" where
  "uuid_char c \<longleftrightarrow> c \<in> set ''0123456789abcdefABCDEF-''"

lemma uuid_plain: "list_all uuid_char i \<Longrightarrow> length i = 36 \<Longrightarrow> plain_name i"
proof -
  assume "list_all uuid_char i" and len: "length i = 36"
  moreover have "\<not> uuid_char (CHR ''/'')" by (simp add: uuid_char_def)
  ultimately have "CHR ''/'' \<notin> set i" by (auto simp: list_all_iff)
  moreover have "i \<noteq> []" "i \<noteq> ''.''" "i \<noteq> ''..''" using len by auto
  ultimately show ?thesis by (simp add: plain_name_def)
qed

lemma sandbox_dir:
  assumes "\<And>s. parse s \<Longrightarrow> length s = 36 \<Longrightarrow> list_all uuid_char s" and "clean_dir base" and "IsSandboxID parse i"
  shows "Join base i = base @ ''/'' @ i" and "plain_name i"
proof -
  show "plain_name i" using assms(1,3) by (intro uuid_plain) (auto simp: IsSandboxID_def)
  with assms(2) show "Join base i = base @ ''/'' @ i" by (rule Join_entry)
qed

definition holds_socket :: "string \<Rightarrow> (string \<times> string option) list \<Rightarrow> int \<Rightarrow> bool" where
  "holds_socket path ps p \<longleftrightarrow>
     (\<exists>name raw. (name, Some raw) \<in> set ps \<and> Atoi name = Some p
        \<and> Contains (hd (Split (TrimNul raw) (CHR 0x00))) ''firecracker''
        \<and> sock_flag path (Split (TrimNul raw) (CHR 0x00)))"

lemma holds_socket_Cons: "holds_socket path ps p \<Longrightarrow> holds_socket path (x # ps) p"
  by (auto simp: holds_socket_def)

lemma found_holds_socket: "findProcessHoldingSocket path ps = Some p \<Longrightarrow> holds_socket path ps p"
proof (induction ps)
  case (Cons x ps)
  obtain name cmdline where x: "x = (name, cmdline)" by fastforce
  consider "findProcessHoldingSocket path ps = Some p"
    | raw where "cmdline = Some raw" "Atoi name = Some p" "Contains (hd (Split (TrimNul raw) (CHR 0x00))) ''firecracker''"
        "sock_flag path (Split (TrimNul raw) (CHR 0x00))"
    using Cons.prems unfolding x by (auto simp: Let_def split: option.splits if_splits)
  then show ?case
  proof cases
    case 1
    with Cons.IH show ?thesis by (simp add: holds_socket_Cons)
  next
    case 2
    then show ?thesis unfolding x holds_socket_def by (intro exI conjI) auto
  qed
qed simp

lemma KillStale_own: "KillStale cmdline kill dir fs = (pids, ok) \<Longrightarrow> \<forall>p \<in> set pids. isShimOf cmdline p dir"
  by (auto simp: KillStale_def split: option.splits if_splits)

text \<open>How one reaping may change the host.\<close>

definition reaped :: "string \<Rightarrow> 'v host \<Rightarrow> 'v host \<Rightarrow> bool" where
  "reaped dir h h' \<longleftrightarrow>
     (removed_dirs h' = removed_dirs h \<or> removed_dirs h' = removed_dirs h @ [dir])
     \<and> (\<forall>d. d \<noteq> dir \<longrightarrow> (d \<in> set (dirs h') \<longleftrightarrow> d \<in> set (dirs h)))
     \<and> (\<exists>pids. killed_pids h' = killed_pids h @ pids
          \<and> (\<forall>p \<in> set pids. isShimOf (cmdline_of h) p dir \<or> holds_socket (Path dir APISocket) (procs h) p))"

lemma ReapSandbox_unfold:
  assumes "IsSandboxID parse i" and "KillStale (cmdline_of h) kill (Join base i) (host_files h) = (pids, ok)"
    and "findProcessHoldingSocket (Path (Join base i) APISocket) (procs h) = found"
    and "h2 = h\<lparr>killed_pids := killed_pids h @ pids @ (case found of None \<Rightarrow> [] | Some p \<Rightarrow> [p])\<rparr>"
    and "rv i (volumes h) = (ve, v)"
  shows "ReapSandbox parse kill rm_ok base i rv h =
    (if \<not> ok then (Some KillShimFailed, h\<lparr>killed_pids := killed_pids h @ pids\<rparr>)
     else if (case found of None \<Rightarrow> False | Some pid \<Rightarrow> kill pid = KillFailed)
     then (Some (KillFirecrackerFailed (the found)), h2)
     else (case ve of
             Some e \<Rightarrow> (Some (RemoveVolumeFailed e), h2\<lparr>volumes := v\<rparr>)
           | None \<Rightarrow> (if rm_ok then None else Some RemoveDirFailed, snd (RemoveAll rm_ok (Join base i) (h2\<lparr>volumes := v\<rparr>)))))"
  unfolding ReapSandbox_def Let_def RemoveAll_def assms(4)
  by (cases found; cases ok; cases ve) (simp_all add: assms(1,2,3,5))

lemma reaped_killed:
  assumes "\<forall>p \<in> set pids. isShimOf (cmdline_of h) p dir \<or> holds_socket (Path dir APISocket) (procs h) p"
  shows "reaped dir h (h\<lparr>killed_pids := killed_pids h @ pids\<rparr>)"
    and "reaped dir h (h\<lparr>killed_pids := killed_pids h @ pids, volumes := v\<rparr>)"
    and "reaped dir h (snd (RemoveAll rm_ok dir (h\<lparr>killed_pids := killed_pids h @ pids, volumes := v\<rparr>)))"
  using assms by (auto simp: reaped_def RemoveAll_def)

lemma ReapSandbox_cases:
  assumes id: "IsSandboxID parse i" and run: "ReapSandbox parse kill rm_ok base i rv h = (e, h')"
  shows "reaped (Join base i) h h'
    \<and> (removed_dirs h' \<noteq> removed_dirs h \<longrightarrow> fst (rv i (volumes h)) = None)
    \<and> (e = None \<longrightarrow> Join base i \<notin> set (dirs h') \<and> volumes h' = snd (rv i (volumes h)))"
proof -
  let ?dir = "Join base i"
  obtain pids ok where stale: "KillStale (cmdline_of h) kill ?dir (host_files h) = (pids, ok)" by fastforce
  obtain ve v where rv: "rv i (volumes h) = (ve, v)" by fastforce
  define found where "found = findProcessHoldingSocket (Path ?dir APISocket) (procs h)"
  define all where "all = pids @ (case found of None \<Rightarrow> [] | Some p \<Rightarrow> [p])"
  define h2 where "h2 = h\<lparr>killed_pids := killed_pids h @ all\<rparr>"
  have own: "\<forall>p \<in> set pids. isShimOf (cmdline_of h) p ?dir \<or> holds_socket (Path ?dir APISocket) (procs h) p"
    using KillStale_own [OF stale] by blast
  then have own2: "\<forall>p \<in> set all. isShimOf (cmdline_of h) p ?dir \<or> holds_socket (Path ?dir APISocket) (procs h) p"
    using found_holds_socket [of "Path ?dir APISocket" "procs h"]
    by (auto simp: all_def found_def split: option.splits)
  note eq = ReapSandbox_unfold [where rv = rv and rm_ok = rm_ok, OF id stale found_def [symmetric] h2_def [unfolded all_def] rv]
  let ?failed = "case found of None \<Rightarrow> False | Some pid \<Rightarrow> kill pid = KillFailed"
  show ?thesis
  proof (cases ok)
    case False
    with eq run have "h' = h\<lparr>killed_pids := killed_pids h @ pids\<rparr>" and "e \<noteq> None" by auto
    with reaped_killed(1) [OF own] show ?thesis by auto
  next
    case ok: True
    show ?thesis
    proof (cases ?failed)
      case True
      with ok eq run have "h' = h2" and "e \<noteq> None" by auto
      with reaped_killed(1) [OF own2] show ?thesis by (auto simp: h2_def)
    next
      case False
      show ?thesis
      proof (cases ve)
        case (Some x)
        with ok False eq run have "h' = h2\<lparr>volumes := v\<rparr>" and "e \<noteq> None" by auto
        with reaped_killed(2) [OF own2] show ?thesis by (auto simp: h2_def)
      next
        case None
        with ok False eq run
        have "h' = snd (RemoveAll rm_ok ?dir (h2\<lparr>volumes := v\<rparr>))" and "e = None \<longrightarrow> rm_ok" by auto
        with reaped_killed(3) [OF own2, of rm_ok v] rv None show ?thesis
          by (simp add: h2_def) (simp add: RemoveAll_def)
      qed
    qed
  qed
qed

text \<open>C30: reaping a sandbox, which the worker does as root, never leaves the sandbox.  An identifier that
  is not a UUID is refused and nothing happens.  Otherwise the only directory it removes recursively
  is the entry of that name in the base directory, and only once the volume of that sandbox is gone; every
  process it signals is a shim of that directory or a Firecracker on its socket; and when it succeeds
  the directory is gone and the others are untouched.\<close>

theorem reaping_is_confined:
  assumes uuid: "\<And>s. parse s \<Longrightarrow> length s = 36 \<Longrightarrow> list_all uuid_char s" and "clean_dir base"
    and run: "ReapSandbox parse kill rm_ok base i rv h = (e, h')"
  shows "if \<not> IsSandboxID parse i then h' = h \<and> e = Some (RefusingToReap i)
    else CHR ''/'' \<notin> set i \<and> reaped (base @ ''/'' @ i) h h'
      \<and> (removed_dirs h' \<noteq> removed_dirs h \<longrightarrow> fst (rv i (volumes h)) = None)
      \<and> (e = None \<longrightarrow> base @ ''/'' @ i \<notin> set (dirs h') \<and> volumes h' = snd (rv i (volumes h)))"
proof (cases "IsSandboxID parse i")
  case True
  with sandbox_dir [OF uuid assms(2) True] ReapSandbox_cases [OF True run] show ?thesis
    by (simp add: plain_name_def)
next
  case False
  with run show ?thesis by (simp add: ReapSandbox_def)
qed

theorem reaping_is_confined_witness:
  "\<exists>h'. ReapSandbox (list_all uuid_char) (\<lambda>_. KillOk) True ''/srv/sb'' ''a1b2c3d4-0000-4000-8000-0123456789ab''
       (\<lambda>i v. (None :: unit option, filter (\<lambda>x. x \<noteq> i) v))
       \<lparr>host_files = (\<lambda>_. None), dirs = [''/srv/sb/a1b2c3d4-0000-4000-8000-0123456789ab'', ''/etc''], procs = [],
        volumes = [''a1b2c3d4-0000-4000-8000-0123456789ab'', ''x''], killed_pids = [], removed_dirs = []\<rparr> = (None, h')
     \<and> ''/etc'' \<in> set (dirs h') \<and> ''/srv/sb/a1b2c3d4-0000-4000-8000-0123456789ab'' \<notin> set (dirs h')
     \<and> volumes h' = [''x'']"
proof -
  let ?i = "''a1b2c3d4-0000-4000-8000-0123456789ab''" and ?b = "''/srv/sb''"
  let ?rv = "\<lambda>i v. (None :: unit option, filter (\<lambda>x. x \<noteq> i) v)"
  let ?h = "\<lparr>host_files = (\<lambda>_. None), dirs = [''/srv/sb/a1b2c3d4-0000-4000-8000-0123456789ab'', ''/etc''], procs = [],
        volumes = [?i, ''x''], killed_pids = [], removed_dirs = []\<rparr> :: string list host"
  have dir: "clean_dir ?b" by (simp add: clean_dir_def) code_simp
  have uuid: "IsSandboxID (list_all uuid_char) ?i" by (simp add: IsSandboxID_def uuid_char_def)
  obtain e h' where run: "ReapSandbox (list_all uuid_char) (\<lambda>_. KillOk) True ?b ?i ?rv ?h = (e, h')" by fastforce
  then have "e = None"
    using uuid by (auto simp: ReapSandbox_def Let_def KillStale_def readPid_def RemoveAll_def)
  with reaping_is_confined [OF _ dir run] run uuid show ?thesis
    by (auto simp: reaped_def)
qed

end
