(* ===== verification/Thin_Dm.thy ===== *)
theory Thin_Dm
  imports Go_Paths "HOL-Library.Word"
begin

unbundle bit_operations_syntax

text \<open>
  \<^verbatim>\<open>thin/dm.go\<close>: the device-mapper ioctl protocol.  A buffer is a list of bytes (characters),
  integers are stored least significant byte first (\<^verbatim>\<open>NativeEndian\<close> of the supported machines),
  and an unsigned integer is a natural number taken modulo its width when it is stored.  The
  kernel is the record \<open>kernel\<close>, an argument: an ioctl maps the buffer to an error and the
  buffer the kernel leaves.  \<open>ioctls\<close> is the log of every ioctl issued.
\<close>

subsection \<open>Integers and strings in a buffer\<close>

fun put_uint :: "nat \<Rightarrow> nat \<Rightarrow> string" where
  "put_uint 0 x = []"
| "put_uint (Suc k) x = char_of (x mod 256) # put_uint k (x div 256)"

fun get_uint :: "nat \<Rightarrow> string \<Rightarrow> nat" where
  "get_uint 0 bs = 0"
| "get_uint (Suc k) [] = 0"
| "get_uint (Suc k) (b # bs) = of_char b + 256 * get_uint k bs"

text \<open>\<^verbatim>\<open>copy(buf[off:], bs)\<close>, and the \<^verbatim>\<open>Put\<close> functions, for \<open>bs\<close> that fits.\<close>

definition put_at :: "nat \<Rightarrow> string \<Rightarrow> string \<Rightarrow> string" where
  "put_at off bs buf = take off buf @ bs @ drop (off + length bs) buf"

definition NUL :: char where "NUL = CHR 0x00"

definition zeros :: "nat \<Rightarrow> string" where
  "zeros n = replicate n NUL"

definition cString :: "string \<Rightarrow> string" where
  "cString bs = takeWhile (\<lambda>c. c \<noteq> NUL) bs"

subsection \<open>Layout\<close>

definition headerSize :: nat where "headerSize = 312"
definition offVersion :: nat where "offVersion = 0"
definition offDataSize :: nat where "offDataSize = 12"
definition offDataStart :: nat where "offDataStart = 16"
definition offTargetCount :: nat where "offTargetCount = 20"
definition offFlags :: nat where "offFlags = 28"
definition offDev :: nat where "offDev = 40"
definition offName :: nat where "offName = 48"
definition nameSize :: nat where "nameSize = 128"

definition specSize :: nat where "specSize = 40"
definition offSpecStart :: nat where "offSpecStart = 0"
definition offSpecLength :: nat where "offSpecLength = 8"
definition offSpecNext :: nat where "offSpecNext = 20"
definition offSpecType :: nat where "offSpecType = 24"
definition targetTypeSize :: nat where "targetTypeSize = 16"

lemmas layout =
  headerSize_def offVersion_def offDataSize_def offDataStart_def offTargetCount_def offFlags_def
  offDev_def offName_def nameSize_def specSize_def offSpecStart_def offSpecLength_def
  offSpecNext_def offSpecType_def targetTypeSize_def

definition flagStatusTable :: nat where "flagStatusTable = 2 ^ 4"
definition flagBufferFull :: nat where "flagBufferFull = 2 ^ 8"

definition cmdDevCreate :: nat where "cmdDevCreate = 3"
definition cmdDevRemove :: nat where "cmdDevRemove = 4"
definition cmdDevSuspend :: nat where "cmdDevSuspend = 6"
definition cmdTableLoad :: nat where "cmdTableLoad = 9"
definition cmdTableStatus :: nat where "cmdTableStatus = 12"
definition cmdTargetMsg :: nat where "cmdTargetMsg = 14"

lemmas commands =
  cmdDevCreate_def cmdDevRemove_def cmdDevSuspend_def cmdTableLoad_def cmdTableStatus_def cmdTargetMsg_def

definition ioctlRequest :: "nat \<Rightarrow> nat" where
  "ioctlRequest nr = push_bit 30 (2 OR 1) OR push_bit 16 headerSize OR push_bit 8 0xfd OR nr"

datatype errno = ENXIO | EBUSY | EEXIST | ENOENT | EOTHER string

datatype dm_error =
    ENameTooLong string
  | ETypeTooLong string
  | EIoctl string errno
  | EShortBuffer
  | EOutOfBounds
  | ESpecOutOfBounds
  | ETableTooLarge string
  | EJoined dm_error dm_error
  | EOpenControl
  | EInvalidSandboxID string
  | ENoBase
  | EBadConf string
  | ENoFreeID
  | ERefusing string
  | ENode errno

text \<open>\<^verbatim>\<open>errors.Is\<close> against an \<^verbatim>\<open>errno\<close>.\<close>

fun is_errno :: "errno \<Rightarrow> dm_error \<Rightarrow> bool" where
  "is_errno n (EIoctl _ m) = (m = n)"
| "is_errno n (ENode m) = (m = n)"
| "is_errno n (EJoined a b) = (is_errno n a \<or> is_errno n b)"
| "is_errno n _ = False"

record target =
  t_start :: nat
  t_length :: nat
  t_type :: string
  t_params :: string

definition newRequest :: "string \<Rightarrow> nat \<Rightarrow> dm_error + string" where
  "newRequest name payloadSize =
     (if length name \<ge> nameSize then Inl (ENameTooLong name)
      else let n = headerSize + payloadSize
           in Inr (put_at offName name
                (put_at offDataStart (put_uint 4 headerSize)
                  (put_at offDataSize (put_uint 4 n)
                    (put_at offVersion (put_uint 4 4) (zeros n))))))"

definition align8 :: "nat \<Rightarrow> nat" where
  "align8 n = nat ((int n + 7) AND NOT 7)"

definition encode_spec :: "target \<Rightarrow> string" where
  "encode_spec t =
     (let size = align8 (specSize + length (t_params t) + 1)
      in put_at specSize (t_params t)
           (put_at offSpecType (t_type t)
             (put_at offSpecNext (put_uint 4 size)
               (put_at offSpecLength (put_uint 8 (t_length t))
                 (put_at offSpecStart (put_uint 8 (t_start t)) (zeros size))))))"

fun encodeTargets :: "target list \<Rightarrow> dm_error + string" where
  "encodeTargets [] = Inr []"
| "encodeTargets (t # ts) =
     (if length (t_type t) \<ge> targetTypeSize then Inl (ETypeTooLong (t_type t))
      else case encodeTargets ts of
             Inl e \<Rightarrow> Inl e
           | Inr out \<Rightarrow> Inr (encode_spec t @ out))"

definition decode_spec :: "string \<Rightarrow> target" where
  "decode_spec spec =
     \<lparr>t_start = get_uint 8 (drop offSpecStart spec), t_length = get_uint 8 (drop offSpecLength spec),
      t_type = cString (take targetTypeSize (drop offSpecType spec)),
      t_params = cString (drop specSize spec)\<rparr>"

text \<open>The targets of \<open>data\<close> from offset \<open>off\<close>; a negative offset cannot occur.\<close>

fun decode_loop :: "nat \<Rightarrow> nat \<Rightarrow> string \<Rightarrow> dm_error + target list" where
  "decode_loop 0 off data = Inr []"
| "decode_loop (Suc count) off data =
     (if off + specSize > length data then Inl ESpecOutOfBounds
      else let spec = drop off data
           in case decode_loop count (get_uint 4 (drop offSpecNext spec)) data of
                Inl e \<Rightarrow> Inl e
              | Inr ts \<Rightarrow> Inr (decode_spec spec # ts))"

definition decodeTargets :: "string \<Rightarrow> dm_error + target list" where
  "decodeTargets buf =
     (if length buf < headerSize then Inl EShortBuffer
      else let count = get_uint 4 (drop offTargetCount buf);
               dataStart = get_uint 4 (drop offDataStart buf);
               dataSize = get_uint 4 (drop offDataSize buf)
           in if dataSize > length buf \<or> dataStart > dataSize then Inl EOutOfBounds
              else decode_loop count 0 (drop dataStart (take dataSize buf)))"

subsection \<open>Talking to the kernel\<close>

record 'k kernel =
  can_open :: "'k \<Rightarrow> bool"
  do_ioctl :: "nat \<Rightarrow> string \<Rightarrow> 'k \<Rightarrow> (errno option \<times> string) \<times> 'k"
  do_stat :: "string \<Rightarrow> 'k \<Rightarrow> (errno + bool \<times> nat) \<times> 'k"
  do_unlink :: "string \<Rightarrow> 'k \<Rightarrow> errno option \<times> 'k"
  do_mknod :: "string \<Rightarrow> nat \<Rightarrow> 'k \<Rightarrow> errno option \<times> 'k"
  device_number :: "nat \<Rightarrow> nat"

record 'k machine =
  kern :: 'k
  ioctls :: "(nat \<times> string) list"

definition ioctl :: "'k kernel \<Rightarrow> nat \<Rightarrow> string \<Rightarrow> 'k machine \<Rightarrow> (errno option \<times> string) \<times> 'k machine" where
  "ioctl K nr buf m =
     (case do_ioctl K (ioctlRequest nr) buf (kern m) of
        (out, k') \<Rightarrow> (out, m\<lparr>kern := k', ioctls := ioctls m @ [(nr, buf)]\<rparr>))"

definition simple_ioctl :: "'k kernel \<Rightarrow> nat \<Rightarrow> string \<Rightarrow> string \<Rightarrow> 'k machine \<Rightarrow> (dm_error + string) \<times> 'k machine" where
  "simple_ioctl K nr name buf m =
     (case ioctl K nr buf m of
        ((None, out), m') \<Rightarrow> (Inr out, m')
      | ((Some e, _), m') \<Rightarrow> (Inl (EIoctl name e), m'))"

definition removeRetries :: nat where "removeRetries = 25"

text \<open>\<^verbatim>\<open>removeDevice\<close> from attempt \<open>removeRetries - left\<close> on.\<close>

fun remove_loop :: "'k kernel \<Rightarrow> string \<Rightarrow> nat \<Rightarrow> 'k machine \<Rightarrow> dm_error option \<times> 'k machine" where
  "remove_loop K name left m =
     (case newRequest name 0 of
        Inl e \<Rightarrow> (Some e, m)
      | Inr buf \<Rightarrow>
          (case simple_ioctl K cmdDevRemove name buf m of
             (Inr _, m') \<Rightarrow> (None, m')
           | (Inl e, m') \<Rightarrow>
               if is_errno EBUSY e \<and> left \<noteq> 0 then remove_loop K name (left - 1) m'
               else (Some e, m')))"

declare remove_loop.simps [simp del]

definition removeDevice :: "'k kernel \<Rightarrow> string \<Rightarrow> 'k machine \<Rightarrow> dm_error option \<times> 'k machine" where
  "removeDevice K name m = remove_loop K name removeRetries m"

definition load_and_resume ::
    "'k kernel \<Rightarrow> string \<Rightarrow> target list \<Rightarrow> 'k machine \<Rightarrow> dm_error option \<times> 'k machine" where
  "load_and_resume K name targets m =
     (case encodeTargets targets of
        Inl e \<Rightarrow> (Some e, m)
      | Inr payload \<Rightarrow>
     (case newRequest name (length payload) of
        Inl e \<Rightarrow> (Some e, m)
      | Inr buf \<Rightarrow>
     (case simple_ioctl K cmdTableLoad name
             (put_at offTargetCount (put_uint 4 (length targets)) (put_at headerSize payload buf)) m of
        (Inl e, m1) \<Rightarrow> (Some e, m1)
      | (Inr _, m1) \<Rightarrow>
     (case newRequest name 0 of
        Inl e \<Rightarrow> (Some e, m1)
      | Inr buf2 \<Rightarrow>
     (case simple_ioctl K cmdDevSuspend name buf2 m1 of
        (Inl e, m2) \<Rightarrow> (Some e, m2)
      | (Inr _, m2) \<Rightarrow> (None, m2))))))"

definition createDevice ::
    "'k kernel \<Rightarrow> string \<Rightarrow> target list \<Rightarrow> 'k machine \<Rightarrow> (dm_error + nat) \<times> 'k machine" where
  "createDevice K name targets m =
     (case newRequest name 0 of
        Inl e \<Rightarrow> (Inl e, m)
      | Inr buf \<Rightarrow>
     (case simple_ioctl K cmdDevCreate name buf m of
        (Inl e, m1) \<Rightarrow> (Inl e, m1)
      | (Inr out, m1) \<Rightarrow>
          (let dev = get_uint 8 (drop offDev out)
           in case load_and_resume K name targets m1 of
                (None, m2) \<Rightarrow> (Inr dev, m2)
              | (Some e, m2) \<Rightarrow>
                  (case removeDevice K name m2 of
                     (None, m3) \<Rightarrow> (Inl e, m3)
                   | (Some e', m3) \<Rightarrow> (Inl (EJoined e e'), m3)))))"

text \<open>The size starts at 4096; the guard \<open>sz \<noteq> 0\<close> makes the doubling total.\<close>

function table_loop :: "'k kernel \<Rightarrow> string \<Rightarrow> nat \<Rightarrow> 'k machine \<Rightarrow> (dm_error + target list) \<times> 'k machine" where
  "table_loop K name sz m =
     (case newRequest name sz of
        Inl e \<Rightarrow> (Inl e, m)
      | Inr buf \<Rightarrow>
          (case simple_ioctl K cmdTableStatus name (put_at offFlags (put_uint 4 flagStatusTable) buf) m of
             (Inl e, m1) \<Rightarrow> (Inl e, m1)
           | (Inr out, m1) \<Rightarrow>
               if get_uint 4 (drop offFlags out) AND flagBufferFull \<noteq> 0 \<and> sz \<noteq> 0 then
                 (if sz \<ge> 2 ^ 20 then (Inl (ETableTooLarge name), m1)
                  else table_loop K name (sz * 2) m1)
               else (decodeTargets out, m1)))"
  by pat_completeness auto
termination by (relation "measure (\<lambda>(K, name, sz, m). 2 ^ 20 - sz)") auto

declare table_loop.simps [simp del]

definition dm_table :: "'k kernel \<Rightarrow> string \<Rightarrow> 'k machine \<Rightarrow> (dm_error + target list) \<times> 'k machine" where
  "dm_table K name m = table_loop K name 4096 m"

definition message :: "'k kernel \<Rightarrow> string \<Rightarrow> nat \<Rightarrow> string \<Rightarrow> 'k machine \<Rightarrow> dm_error option \<times> 'k machine" where
  "message K name sector msg m =
     (case newRequest name (align8 (8 + length msg + 1)) of
        Inl e \<Rightarrow> (Some e, m)
      | Inr buf \<Rightarrow>
          (case simple_ioctl K cmdTargetMsg name
                  (put_at (headerSize + 8) msg (put_at headerSize (put_uint 8 sector) buf)) m of
             (Inl e, m1) \<Rightarrow> (Some e, m1)
           | (Inr _, m1) \<Rightarrow> (None, m1)))"

subsection \<open>Reading back what was written\<close>

definition slice :: "nat \<Rightarrow> nat \<Rightarrow> string \<Rightarrow> string" where
  "slice off k buf = take k (drop off buf)"

lemma length_put_uint [simp]: "length (put_uint k x) = k"
  by (induction k x rule: put_uint.induct) auto

lemma get_put_uint: "get_uint k (put_uint k x) = x mod 256 ^ k"
proof (induction k arbitrary: x)
  case (Suc k)
  have "x mod (256 * 256 ^ k) = x mod 256 + 256 * (x div 256 mod 256 ^ k)"
    by (simp add: mod_mult2_eq)
  with Suc show ?case by simp
qed simp

lemma get_uint_take: "get_uint k (take k bs) = get_uint k bs"
  by (induction k bs rule: get_uint.induct) auto

lemma get_uint_slice: "get_uint k (drop off buf) = get_uint k (slice off k buf)"
  by (simp add: slice_def get_uint_take)

lemma length_put_at [simp]: "off + length bs \<le> length buf \<Longrightarrow> length (put_at off bs buf) = length buf"
  by (simp add: put_at_def)

lemma slice_put_same:
  assumes "off + length bs \<le> length buf" and "length bs \<le> k"
  shows "slice off k (put_at off bs buf) = bs @ slice (off + length bs) (k - length bs) buf"
  using assms by (simp add: slice_def put_at_def)

lemma slice_put_after:
  "p + length bs \<le> length buf \<Longrightarrow> off + k \<le> p \<Longrightarrow> slice off k (put_at p bs buf) = slice off k buf"
  by (simp add: slice_def put_at_def take_drop)

lemma slice_put_before:
  assumes "p + length bs \<le> length buf" and "p + length bs \<le> off"
  shows "slice off k (put_at p bs buf) = slice off k buf"
proof -
  have "drop off (put_at p bs buf) = drop (off - (p + length bs)) (drop (p + length bs) buf)"
    using assms by (simp add: put_at_def)
  then show ?thesis using assms(2) by (simp add: slice_def)
qed

lemma drop_put_same:
  "off + length bs \<le> length buf \<Longrightarrow> drop off (put_at off bs buf) = bs @ drop (off + length bs) buf"
  by (simp add: put_at_def)

lemma slice_0 [simp]: "slice off 0 buf = []"
  by (simp add: slice_def)

lemma drop_as_slice: "drop off buf = slice off (length buf - off) buf"
  by (simp add: slice_def)

lemma length_zeros [simp]: "length (zeros n) = n"
  by (simp add: zeros_def)

lemma zeros_0 [simp]: "zeros 0 = []"
  by (simp add: zeros_def)

lemma slice_zeros: "slice off k (zeros n) = zeros (min k (n - off))"
  by (simp add: slice_def zeros_def min.commute)

lemma drop_zeros: "drop k (zeros n) = zeros (n - k)"
  by (simp add: zeros_def)

lemma cString_zeros:
  assumes "NUL \<notin> set s"
  shows "cString (s @ zeros n) = s"
proof -
  have "takeWhile (\<lambda>c. c \<noteq> NUL) (zeros n) = []" by (cases n) (simp_all add: zeros_def)
  with assms show ?thesis by (induction s) (auto simp: cString_def)
qed

lemma and_not_7: "a AND NOT 7 = a - a mod 8" for a :: int
proof -
  have "a AND 7 = a mod 8"
    using take_bit_eq_mask [of 3 a] by (simp add: take_bit_eq_mod mask_numeral)
  moreover have "a - (a AND 7) = a AND NOT (a AND 7)"
    by (rule disjunctive_diff_eq_and_not) (auto intro: bit_eqI simp: bit_simps)
  moreover have "a AND NOT (a AND 7) = a AND NOT 7"
    by (rule bit_eqI) (auto simp: bit_simps)
  ultimately show ?thesis by simp
qed

lemma align8_eq: "align8 n = (n + 7) div 8 * 8"
proof -
  have "(int n + 7) AND NOT 7 = int ((n + 7) div 8 * 8)"
    unfolding and_not_7 by (simp add: minus_mod_eq_div_mult [symmetric] zdiv_int zmod_int)
  then show ?thesis by (simp add: align8_def)
qed

lemma align8_bounds: "n \<le> align8 n \<and> align8 n < n + 8 \<and> 8 dvd align8 n"
  unfolding align8_eq by auto

lemma encode_spec_length [simp]:
  assumes "length (t_type t) < targetTypeSize"
  shows "length (encode_spec t) = align8 (specSize + length (t_params t) + 1)"
  using align8_bounds [of "specSize + length (t_params t) + 1"] assms
  by (simp add: encode_spec_def Let_def layout)

lemma decode_encode_spec:
  assumes "length (t_type t) < targetTypeSize" and "NUL \<notin> set (t_type t)" and "NUL \<notin> set (t_params t)"
    and "t_start t < 2 ^ 64" and "t_length t < 2 ^ 64"
  shows "decode_spec (encode_spec t) = t"
proof -
  let ?n = "align8 (specSize + length (t_params t) + 1)"
  have n: "specSize + length (t_params t) + 1 \<le> ?n" using align8_bounds by blast
  let ?b0 = "zeros ?n"
  let ?b1 = "put_at offSpecStart (put_uint 8 (t_start t)) ?b0"
  let ?b2 = "put_at offSpecLength (put_uint 8 (t_length t)) ?b1"
  let ?b3 = "put_at offSpecNext (put_uint 4 ?n) ?b2"
  let ?b4 = "put_at offSpecType (t_type t) ?b3"
  have b: "encode_spec t = put_at specSize (t_params t) ?b4" by (simp add: encode_spec_def Let_def)
  have len: "length ?b1 = ?n" "length ?b2 = ?n" "length ?b3 = ?n" "length ?b4 = ?n"
    using n assms(1) by (simp_all add: layout)
  note frame = slice_put_after slice_put_before slice_put_same slice_zeros len layout
  have fit: "specSize + length (t_params t) \<le> length ?b4" using n len by simp
  have pre: "slice off k (encode_spec t) = slice off k ?b4" if "off + k \<le> specSize" for off k
    unfolding b using that fit by (intro slice_put_after)
  have "slice offSpecStart 8 (encode_spec t) = put_uint 8 (t_start t)"
    using n assms(1) by (subst pre) (simp_all add: frame)
  moreover have "slice offSpecLength 8 (encode_spec t) = put_uint 8 (t_length t)"
    using n assms(1) by (subst pre) (simp_all add: frame)
  moreover have "slice offSpecType targetTypeSize (encode_spec t)
      = t_type t @ zeros (targetTypeSize - length (t_type t))"
    using n assms(1) by (subst pre) (simp_all add: frame)
  moreover have "drop (specSize + length (t_params t)) ?b4 = zeros (?n - specSize - length (t_params t))"
    using n assms(1) by (simp add: drop_as_slice frame)
  then have "drop specSize (encode_spec t) = t_params t @ zeros (?n - specSize - length (t_params t))"
    unfolding b drop_put_same [OF fit] by (rule arg_cong)
  ultimately show ?thesis
    using assms by (simp add: decode_spec_def get_uint_slice get_put_uint cString_zeros slice_def [symmetric])
qed

text \<open>C40: what is loaded as the table of a device reads back as that table.  The buffer
  \<^verbatim>\<open>createDevice\<close> builds for the ioctl that loads a one-line table, read by \<^verbatim>\<open>decodeTargets\<close>, gives
  that line: start, length, type and parameters.\<close>

theorem target_roundtrip:
  assumes "length (t_type t) < targetTypeSize" and "NUL \<notin> set (t_type t)" and "NUL \<notin> set (t_params t)"
    and "t_start t < 2 ^ 64" and "t_length t < 2 ^ 64" and "length (t_params t) < 2 ^ 31"
    and "encodeTargets [t] = Inr payload" and "newRequest name (length payload) = Inr buf"
  shows "decodeTargets (put_at offTargetCount (put_uint 4 1) (put_at headerSize payload buf)) = Inr [t]"
proof -
  let ?n = "headerSize + length payload"
  have payload: "payload = encode_spec t" using assms(1,7) by simp
  then have len: "length payload = align8 (specSize + length (t_params t) + 1)" using assms(1) by simp
  have small: "?n < 2 ^ 32" "specSize \<le> length payload"
    using assms(6) align8_bounds [of "specSize + length (t_params t) + 1"] by (simp_all add: len layout)
  let ?b1 = "put_at offVersion (put_uint 4 4) (zeros ?n)"
  let ?b2 = "put_at offDataSize (put_uint 4 ?n) ?b1"
  let ?b3 = "put_at offDataStart (put_uint 4 headerSize) ?b2"
  let ?b5 = "put_at headerSize payload buf"
  let ?b6 = "put_at offTargetCount (put_uint 4 1) ?b5"
  have buf: "buf = put_at offName name ?b3" and name: "length name < nameSize"
    using assms(8) by (auto simp: newRequest_def Let_def split: if_splits)
  have lens: "length ?b1 = ?n" "length ?b2 = ?n" "length ?b3 = ?n" "length buf = ?n" "length ?b5 = ?n" "length ?b6 = ?n"
    using name by (simp_all add: buf layout)
  note frame = slice_put_after slice_put_before slice_put_same slice_zeros lens
  have "slice offTargetCount 4 ?b6 = put_uint 4 1"
    by (subst slice_put_same) (simp_all only: lens length_put_uint, simp_all add: layout)
  moreover have "slice offDataStart 4 ?b6 = put_uint 4 headerSize"
    using name by (simp add: frame buf layout)
  moreover have "slice offDataSize 4 ?b6 = put_uint 4 ?n"
    using name by (simp add: frame buf layout)
  moreover have "drop headerSize ?b6 = payload"
    using name by (simp add: drop_as_slice frame layout)
  moreover have "drop headerSize (take ?n ?b6) = payload"
    using calculation(4) lens by simp
  ultimately show ?thesis
    using small decode_encode_spec [OF assms(1-5)] lens
    by (simp add: decodeTargets_def get_uint_slice get_put_uint Let_def payload)
qed

theorem target_roundtrip_witness:
  "\<exists>payload buf.
     encodeTargets [\<lparr>t_start = 0, t_length = 2048, t_type = ''thin'', t_params = ''253:0 7''\<rparr>] = Inr payload
     \<and> newRequest ''fire2-sb-a'' (length payload) = Inr buf
     \<and> decodeTargets (put_at offTargetCount (put_uint 4 1) (put_at headerSize payload buf))
         = Inr [\<lparr>t_start = 0, t_length = 2048, t_type = ''thin'', t_params = ''253:0 7''\<rparr>]"
proof -
  let ?t = "\<lparr>t_start = 0, t_length = 2048, t_type = ''thin'', t_params = ''253:0 7''\<rparr>"
  obtain payload where p: "encodeTargets [?t] = Inr payload" by (simp add: layout)
  obtain buf where b: "newRequest ''fire2-sb-a'' (length payload) = Inr buf"
    by (simp add: newRequest_def Let_def layout)
  have "decodeTargets (put_at offTargetCount (put_uint 4 1) (put_at headerSize payload buf)) = Inr [?t]"
    by (rule target_roundtrip [OF _ _ _ _ _ _ p b]) (simp_all add: layout NUL_def)
  with p b show ?thesis by (intro exI conjI)
qed

end
