(* ===== verification/Thin_Pool.thy ===== *)
theory Thin_Pool
  imports Thin_Dm
begin

text \<open>
  \<^verbatim>\<open>thin/pool.go\<close>: the dm-thin pool that holds the root drives of the sandboxes.  The files read
  are a function from paths to contents, \<open>None\<close> when a file cannot be opened; the draws of the random
  generator are a function of the attempt and the bound.  The last part follows the messages sent
  to the pool through the ioctl log and shows that no operation ever names a base volume to delete.
\<close>

subsection \<open>Settings files\<close>

text \<open>\<^verbatim>\<open>bufio.Scanner\<close> refuses a line of 64 KiB or more.\<close>

definition maxScanTokenSize :: nat where "maxScanTokenSize = 65536"

definition unquote :: "string \<Rightarrow> string" where
  "unquote value =
     (if length value \<ge> 2 \<and> (hd value = CHR 0x22 \<or> hd value = CHR 0x27) \<and> last value = hd value
      then butlast (tl value) else value)"

fun env_lines :: "string list \<Rightarrow> (string \<Rightarrow> string option) \<Rightarrow> (string \<Rightarrow> string option) option" where
  "env_lines [] vars = Some vars"
| "env_lines (raw # rest) vars =
     (if length raw \<ge> maxScanTokenSize then None
      else let line = TrimSpace raw
           in if line = [] \<or> HasPrefix line ''#'' then env_lines rest vars
              else case Cut line (CHR ''='') of
                     (key, v, ok) \<Rightarrow>
                       if \<not> ok then env_lines rest vars
                       else env_lines rest (vars(TrimSpace key \<mapsto> unquote (TrimSpace v))))"

definition readEnvFile :: "string option \<Rightarrow> (string \<Rightarrow> string option) option" where
  "readEnvFile content =
     (case content of
        None \<Rightarrow> None
      | Some c \<Rightarrow> env_lines (Split c (CHR 0x0A)) Map.empty)"

definition var :: "(string \<Rightarrow> string option) \<Rightarrow> string \<Rightarrow> string" where
  "var vars k = (case vars k of None \<Rightarrow> [] | Some v \<Rightarrow> v)"

definition volumePrefix :: string where "volumePrefix = ''fire2-sb-''"
definition mapperDir :: string where "mapperDir = ''/dev/mapper''"
definition maxThinID :: nat where "maxThinID = 2 ^ 24 - 1"
definition createAttempts :: nat where "createAttempts = 16"

record Pool =
  Name :: string
  Dir :: string
  FirstSandboxID :: nat

definition LoadPool :: "(string \<Rightarrow> string option) \<Rightarrow> string \<Rightarrow> dm_error + Pool" where
  "LoadPool files confPath =
     (case readEnvFile (files confPath) of
        None \<Rightarrow> Inl (EBadConf confPath)
      | Some vars \<Rightarrow>
          if var vars ''POOL_NAME'' = [] \<or> var vars ''POOL_DIR'' = [] then Inl (EBadConf confPath)
          else case ParseUint (var vars ''FIRST_SANDBOX_ID'') 32 of
                 None \<Rightarrow> Inl (EBadConf confPath)
               | Some first \<Rightarrow>
                   if first = 0 \<or> first > maxThinID then Inl (EBadConf confPath)
                   else Inr \<lparr>Name = var vars ''POOL_NAME'', Dir = var vars ''POOL_DIR'', FirstSandboxID = first\<rparr>)"

record base =
  thinID :: nat
  sectors :: nat

definition loadBase :: "(string \<Rightarrow> string option) \<Rightarrow> Pool \<Rightarrow> dm_error + base" where
  "loadBase files p =
     (let path = Join (Dir p) ''base.env''
      in case readEnvFile (files path) of
           None \<Rightarrow> Inl ENoBase
         | Some vars \<Rightarrow>
             (case ParseUint (var vars ''BASE_THIN_ID'') 32 of
                None \<Rightarrow> Inl (EBadConf path)
              | Some i \<Rightarrow>
                  if i = 0 \<or> i \<ge> FirstSandboxID p then Inl (EBadConf path)
                  else (case ParseUint (var vars ''BASE_SECTORS'') 64 of
                          None \<Rightarrow> Inl (EBadConf path)
                        | Some n \<Rightarrow>
                            if n = 0 then Inl (EBadConf path)
                            else Inr \<lparr>thinID = i, sectors = n\<rparr>)))"

subsection \<open>Volumes\<close>

definition id_char :: "char \<Rightarrow> bool" where
  "id_char c \<longleftrightarrow>
     (let n = of_char c :: nat
      in 65 \<le> n \<and> n \<le> 90 \<or> 97 \<le> n \<and> n \<le> 122 \<or> 48 \<le> n \<and> n \<le> 57 \<or> c = CHR ''_'' \<or> c = CHR ''-'')"

definition validSandboxID :: "string \<Rightarrow> bool" where
  "validSandboxID s \<longleftrightarrow> 1 \<le> length s \<and> length s \<le> 64 \<and> list_all id_char s"

definition volumeName :: "string \<Rightarrow> dm_error + string" where
  "volumeName sandboxID =
     (if \<not> validSandboxID sandboxID then Inl (EInvalidSandboxID sandboxID)
      else Inr (volumePrefix @ sandboxID))"

definition VolumePath :: "string \<Rightarrow> string" where
  "VolumePath sandboxID = Join mapperDir (volumePrefix @ sandboxID)"

fun node_loop :: "'k kernel \<Rightarrow> string \<Rightarrow> nat \<Rightarrow> nat \<Rightarrow> 'k machine \<Rightarrow> (dm_error option) option \<times> 'k machine" where
  "node_loop K path want 0 m = (None, m)"
| "node_loop K path want (Suc left) m =
     (case do_stat K path (kern m) of
        (st, k1) \<Rightarrow>
          if (case st of Inr (blk, rdev) \<Rightarrow> blk \<and> rdev = want | Inl _ \<Rightarrow> False) then (Some None, m\<lparr>kern := k1\<rparr>)
          else
            (case (case st of Inr _ \<Rightarrow> do_unlink K path k1 | Inl _ \<Rightarrow> (None, k1)) of
               (rm, k2) \<Rightarrow>
                 if rm \<noteq> None \<and> rm \<noteq> Some ENOENT then (Some (Some (ENode (the rm))), m\<lparr>kern := k2\<rparr>)
                 else
                   (case do_mknod K path want k2 of
                      (mk, k3) \<Rightarrow>
                        if mk = None \<or> mk = Some EEXIST then node_loop K path want left (m\<lparr>kern := k3\<rparr>)
                        else (Some (Some (ENode (the mk))), m\<lparr>kern := k3\<rparr>))))"

definition ensureNode :: "'k kernel \<Rightarrow> string \<Rightarrow> nat \<Rightarrow> 'k machine \<Rightarrow> dm_error option \<times> 'k machine" where
  "ensureNode K path dev m =
     (let want = device_number K dev
      in case node_loop K path want 2 m of
           (Some r, m1) \<Rightarrow> (r, m1)
         | (None, m1) \<Rightarrow>
             (case do_stat K path (kern m1) of
                (Inr (blk, rdev), k1) \<Rightarrow>
                  (if rdev \<noteq> want then Some (ENode (EOTHER path)) else None, m1\<lparr>kern := k1\<rparr>)
              | (Inl e, k1) \<Rightarrow> (Some (ENode e), m1\<lparr>kern := k1\<rparr>)))"

definition removeNode :: "'k kernel \<Rightarrow> string \<Rightarrow> 'k machine \<Rightarrow> dm_error option \<times> 'k machine" where
  "removeNode K path m =
     (case do_unlink K path (kern m) of
        (e, k1) \<Rightarrow> (if e \<noteq> None \<and> e \<noteq> Some ENOENT then Some (ENode (the e)) else None, m\<lparr>kern := k1\<rparr>))"

definition sandboxThinID :: "Pool \<Rightarrow> string \<Rightarrow> target list \<Rightarrow> dm_error + nat" where
  "sandboxThinID p name tbl =
     (case tbl of
        [t] \<Rightarrow>
          if t_type t = ''thin'' then
            (case Fields (t_params t) of
               [_, f] \<Rightarrow>
                 (case ParseUint f 32 of
                    Some i \<Rightarrow>
                      if FirstSandboxID p \<le> i \<and> i \<le> maxThinID then Inr i else Inl (ERefusing name)
                  | None \<Rightarrow> Inl (ERefusing name))
             | _ \<Rightarrow> Inl (ERefusing name))
          else Inl (ERefusing name)
      | _ \<Rightarrow> Inl (ERefusing name))"

definition delete_msg :: "nat \<Rightarrow> string" where
  "delete_msg i = ''delete '' @ dec_digits i"

definition create_snap_msg :: "nat \<Rightarrow> nat \<Rightarrow> string" where
  "create_snap_msg i b = ''create_snap '' @ dec_digits i @ '' '' @ dec_digits b"

definition RemoveVolume :: "'k kernel \<Rightarrow> Pool \<Rightarrow> string \<Rightarrow> 'k machine \<Rightarrow> dm_error option \<times> 'k machine" where
  "RemoveVolume K p sandboxID m =
     (case volumeName sandboxID of
        Inl e \<Rightarrow> (Some e, m)
      | Inr name \<Rightarrow>
          if \<not> can_open K (kern m) then (Some EOpenControl, m)
          else (case dm_table K name m of
             (Inl e, m1) \<Rightarrow>
               if is_errno ENXIO e then removeNode K (VolumePath sandboxID) m1 else (Some e, m1)
           | (Inr tbl, m1) \<Rightarrow>
               (case sandboxThinID p name tbl of
                  Inl e \<Rightarrow> (Some e, m1)
                | Inr i \<Rightarrow>
                    (case removeDevice K name m1 of
                       (Some e, m2) \<Rightarrow> (Some e, m2)
                     | (None, m2) \<Rightarrow>
                         (case removeNode K (VolumePath sandboxID) m2 of
                            (Some e, m3) \<Rightarrow> (Some e, m3)
                          | (None, m3) \<Rightarrow> message K (Name p) 0 (delete_msg i) m3)))))"

fun snap_loop ::
    "'k kernel \<Rightarrow> Pool \<Rightarrow> nat \<Rightarrow> (nat \<Rightarrow> nat \<Rightarrow> nat) \<Rightarrow> nat \<Rightarrow> 'k machine \<Rightarrow> (dm_error + nat) \<times> 'k machine" where
  "snap_loop K p baseID draw 0 m = (Inl ENoFreeID, m)"
| "snap_loop K p baseID draw (Suc left) m =
     (let i = FirstSandboxID p + draw left (maxThinID - FirstSandboxID p + 1)
      in case message K (Name p) 0 (create_snap_msg i baseID) m of
           (None, m1) \<Rightarrow> (Inr i, m1)
         | (Some e, m1) \<Rightarrow>
             if is_errno EEXIST e then snap_loop K p baseID draw left m1 else (Inl e, m1))"

definition createSnapshot ::
    "'k kernel \<Rightarrow> Pool \<Rightarrow> nat \<Rightarrow> (nat \<Rightarrow> nat \<Rightarrow> nat) \<Rightarrow> 'k machine \<Rightarrow> (dm_error + nat) \<times> 'k machine" where
  "createSnapshot K p baseID draw m = snap_loop K p baseID draw createAttempts m"

definition thin_table :: "Pool \<Rightarrow> base \<Rightarrow> nat \<Rightarrow> target list" where
  "thin_table p b i =
     [\<lparr>t_start = 0, t_length = sectors b, t_type = ''thin'',
       t_params = Join mapperDir (Name p) @ '' '' @ dec_digits i\<rparr>]"

definition CreateVolume ::
    "'k kernel \<Rightarrow> (string \<Rightarrow> string option) \<Rightarrow> Pool \<Rightarrow> (nat \<Rightarrow> nat \<Rightarrow> nat) \<Rightarrow> string \<Rightarrow> 'k machine
       \<Rightarrow> (dm_error + string) \<times> 'k machine" where
  "CreateVolume K files p draw sandboxID m =
     (case volumeName sandboxID of
        Inl e \<Rightarrow> (Inl e, m)
      | Inr name \<Rightarrow>
     (case loadBase files p of
        Inl e \<Rightarrow> (Inl e, m)
      | Inr b \<Rightarrow>
          if \<not> can_open K (kern m) then (Inl EOpenControl, m)
          else (case createSnapshot K p (thinID b) draw m of
             (Inl e, m1) \<Rightarrow> (Inl e, m1)
           | (Inr i, m1) \<Rightarrow>
               (case createDevice K name (thin_table p b i) m1 of
                  (Inl e, m2) \<Rightarrow>
                    (case message K (Name p) 0 (delete_msg i) m2 of
                       (None, m3) \<Rightarrow> (Inl e, m3)
                     | (Some e', m3) \<Rightarrow> (Inl (EJoined e e'), m3))
                | (Inr dev, m2) \<Rightarrow>
                    (case ensureNode K (VolumePath sandboxID) dev m2 of
                       (None, m3) \<Rightarrow> (Inr (VolumePath sandboxID), m3)
                     | (Some e, m3) \<Rightarrow>
                         (case RemoveVolume K p sandboxID m3 of
                            (None, m4) \<Rightarrow> (Inl e, m4)
                          | (Some e', m4) \<Rightarrow> (Inl (EJoined e e'), m4)))))))"

subsection \<open>The messages an operation sends\<close>

definition msg_of :: "string \<Rightarrow> string" where
  "msg_of buf = cString (drop (headerSize + 8) buf)"

definition sends_only :: "(string \<Rightarrow> bool) \<Rightarrow> 'k machine \<Rightarrow> 'k machine \<Rightarrow> bool" where
  "sends_only P m m' \<longleftrightarrow>
     (\<exists>l. ioctls m' = ioctls m @ l \<and> (\<forall>(nr, buf) \<in> set l. nr = cmdTargetMsg \<longrightarrow> P (msg_of buf)))"

lemma sends_refl [simp]: "sends_only P m m"
  by (simp add: sends_only_def)

lemma sends_kern [simp]: "sends_only P m (m'\<lparr>kern := k\<rparr>) = sends_only P m m'"
  by (simp add: sends_only_def)

lemma sends_from_kern [simp]: "sends_only P (m\<lparr>kern := k\<rparr>) m' = sends_only P m m'"
  by (simp add: sends_only_def)

lemma sends_trans: "sends_only P a b \<Longrightarrow> sends_only P b c \<Longrightarrow> sends_only P a c"
  by (fastforce simp: sends_only_def)

lemma sends_mono: "sends_only P m m' \<Longrightarrow> (\<And>s. P s \<Longrightarrow> Q s) \<Longrightarrow> sends_only Q m m'"
  unfolding sends_only_def by (elim exE) (auto split: prod.splits)

lemma sends_ioctl:
  assumes "simple_ioctl K nr name buf m = (x, m')" and "nr = cmdTargetMsg \<Longrightarrow> P (msg_of buf)"
  shows "sends_only P m m'"
  using assms
  by (auto simp: simple_ioctl_def ioctl_def sends_only_def split: prod.splits option.splits)

lemma newRequest_length: "newRequest name n = Inr buf \<Longrightarrow> length buf = headerSize + n"
  by (auto simp: newRequest_def Let_def layout split: if_splits)

lemma newRequest_tail:
  assumes "newRequest name n = Inr buf"
  shows "drop headerSize buf = zeros n"
proof -
  have "drop headerSize buf = slice headerSize n buf"
    using newRequest_length [OF assms] by (simp add: drop_as_slice)
  also have "\<dots> = zeros n"
    using assms
    by (auto simp: newRequest_def Let_def slice_put_before slice_zeros layout split: if_splits)
  finally show ?thesis .
qed

lemma message_buffer:
  assumes "newRequest name (align8 (8 + length msg + 1)) = Inr buf" and "NUL \<notin> set msg"
  shows "msg_of (put_at (headerSize + 8) msg (put_at headerSize (put_uint 8 sector) buf)) = msg"
proof -
  let ?n = "align8 (8 + length msg + 1)"
  have n: "8 + length msg + 1 \<le> ?n" using align8_bounds by blast
  have len: "length buf = headerSize + ?n" by (rule newRequest_length [OF assms(1)])
  let ?b = "put_at headerSize (put_uint 8 sector) buf"
  have fit: "headerSize + 8 + length msg \<le> length ?b" using n len by simp
  have "drop (headerSize + 8 + length msg) ?b = drop (8 + length msg) (drop headerSize ?b)"
    by (simp add: add.commute add.left_commute)
  also have "\<dots> = zeros (?n - 8 - length msg)"
    using n len newRequest_tail [OF assms(1)]
    by (simp add: put_at_def) (metis add.commute diff_diff_left drop_drop drop_zeros)
  finally show ?thesis
    unfolding msg_of_def drop_put_same [OF fit] using cString_zeros [OF assms(2)] by simp
qed

lemma message_sends:
  assumes "message K name sector msg m = (e, m')" and "NUL \<notin> set msg" and "P msg"
  shows "sends_only P m m'"
proof (cases "newRequest name (align8 (8 + length msg + 1))")
  case (Inl err)
  with assms(1) show ?thesis by (simp add: message_def)
next
  case (Inr buf)
  let ?buf = "put_at (headerSize + 8) msg (put_at headerSize (put_uint 8 sector) buf)"
  obtain x m1 where run: "simple_ioctl K cmdTargetMsg name ?buf m = (x, m1)" by fastforce
  with assms(1) Inr have "m' = m1" by (cases x) (simp_all add: message_def)
  with sends_ioctl [OF run, of P] message_buffer [OF Inr assms(2)] assms(3) show ?thesis by simp
qed

lemma remove_loop_sends: "remove_loop K name left m = (e, m') \<Longrightarrow> sends_only P m m'"
proof (induction K name left m arbitrary: e m' rule: remove_loop.induct)
  case (1 K name left m)
  show ?case
  proof (cases "newRequest name 0")
    case (Inl err)
    with "1.prems" show ?thesis by (subst (asm) remove_loop.simps) simp
  next
    case (Inr buf)
    obtain x m1 where run: "simple_ioctl K cmdDevRemove name buf m = (x, m1)" by fastforce
    then have one: "sends_only P m m1" by (rule sends_ioctl) (simp add: commands)
    show ?thesis
    proof (cases x)
      case (Inl err)
      show ?thesis
      proof (cases "is_errno EBUSY err \<and> left \<noteq> 0")
        case True
        with "1.prems" Inl Inr run have "remove_loop K name (left - 1) m1 = (e, m')"
          by (subst (asm) remove_loop.simps) simp
        from "1.IH" [OF Inr run [symmetric] Inl True this] one show ?thesis by (rule sends_trans [rotated])
      next
        case False
        with "1.prems" Inl Inr run one show ?thesis by (subst (asm) remove_loop.simps) auto
      qed
    next
      case Inr': (Inr out)
      with "1.prems" Inr run one show ?thesis by (subst (asm) remove_loop.simps) simp
    qed
  qed
qed

lemma table_loop_sends: "table_loop K name sz m = (x, m') \<Longrightarrow> sends_only P m m'"
proof (induction K name sz m arbitrary: x m' rule: table_loop.induct)
  case (1 K name sz m)
  show ?case
  proof (cases "newRequest name sz")
    case (Inl err)
    with "1.prems" show ?thesis by (subst (asm) table_loop.simps) simp
  next
    case (Inr buf)
    let ?buf = "put_at offFlags (put_uint 4 flagStatusTable) buf"
    obtain y m1 where run: "simple_ioctl K cmdTableStatus name ?buf m = (y, m1)" by fastforce
    then have one: "sends_only P m m1" by (rule sends_ioctl) (simp add: commands)
    show ?thesis
    proof (cases y)
      case (Inl err)
      with "1.prems" Inr run one show ?thesis by (subst (asm) table_loop.simps) simp
    next
      case Inr': (Inr out)
      let ?full = "get_uint 4 (drop offFlags out) AND flagBufferFull \<noteq> 0 \<and> sz \<noteq> 0"
      show ?thesis
      proof (cases "?full \<and> \<not> 2 ^ 20 \<le> sz")
        case True
        with "1.prems" Inr Inr' run have "table_loop K name (sz * 2) m1 = (x, m')"
          by (subst (asm) table_loop.simps) simp
        with "1.IH" [OF Inr run [symmetric] Inr'] True have "sends_only P m1 m'" by blast
        with one show ?thesis by (rule sends_trans)
      next
        case False
        with "1.prems" Inr Inr' run one show ?thesis
          by (subst (asm) table_loop.simps) (auto split: if_splits)
      qed
    qed
  qed
qed

lemma load_and_resume_sends:
  assumes "load_and_resume K name ts m = (e, m')"
  shows "sends_only P m m'"
proof -
  have load: "sends_only P a b" if "simple_ioctl K cmdTableLoad name buf a = (x, b)" for buf x a b
    using that by (rule sends_ioctl) (simp add: commands)
  have resume: "sends_only P a b" if "simple_ioctl K cmdDevSuspend name buf a = (x, b)" for buf x a b
    using that by (rule sends_ioctl) (simp add: commands)
  show ?thesis
    using assms
    by (auto simp: load_and_resume_def split: sum.splits prod.splits dest!: load resume)
      (blast intro: sends_trans)+
qed

lemma createDevice_sends:
  assumes "createDevice K name ts m = (x, m')"
  shows "sends_only P m m'"
proof -
  have create: "sends_only P a b" if "simple_ioctl K cmdDevCreate name buf a = (y, b)" for buf y a b
    using that by (rule sends_ioctl) (simp add: commands)
  note steps = create load_and_resume_sends [where P = P] remove_loop_sends [where P = P]
  show ?thesis
    using assms
    by (auto simp: createDevice_def removeDevice_def Let_def
          split: sum.splits prod.splits option.splits dest!: steps)
      (blast intro: sends_trans)+
qed

lemma node_loop_sends: "node_loop K path want left m = (e, m') \<Longrightarrow> sends_only P m m'"
proof (induction left arbitrary: m)
  case (Suc left)
  obtain st k1 where st: "do_stat K path (kern m) = (st, k1)" by fastforce
  obtain rm k2 where rm: "(case st of Inr _ \<Rightarrow> do_unlink K path k1 | Inl _ \<Rightarrow> (None, k1)) = (rm, k2)" by fastforce
  obtain mk k3 where mk: "do_mknod K path want k2 = (mk, k3)" by fastforce
  show ?case using Suc.prems Suc.IH [of "m\<lparr>kern := k3\<rparr>"] by (auto simp: st rm mk split: if_splits)
qed simp

lemma ensureNode_sends: "ensureNode K path dev m = (e, m') \<Longrightarrow> sends_only P m m'"
  by (auto simp: ensureNode_def Let_def dest: node_loop_sends split: prod.splits option.splits sum.splits)

lemma removeNode_sends: "removeNode K path m = (e, m') \<Longrightarrow> sends_only P m m'"
  by (auto simp: removeNode_def split: prod.splits)

text \<open>A message about sandbox volumes names only ids of the sandbox range, and only the base volume as an origin.\<close>

definition sandbox_id :: "Pool \<Rightarrow> nat \<Rightarrow> bool" where
  "sandbox_id p n \<longleftrightarrow> FirstSandboxID p \<le> n \<and> n \<le> maxThinID"

definition pool_msg :: "Pool \<Rightarrow> nat \<Rightarrow> string \<Rightarrow> bool" where
  "pool_msg p b s \<longleftrightarrow> (\<exists>n. sandbox_id p n \<and> (s = delete_msg n \<or> s = create_snap_msg n b))"

lemma dec_digits_inj: "dec_digits a = dec_digits b \<longleftrightarrow> a = b"
  by (metis dec_value_digits option.inject)

lemma dec_digits_no_NUL: "NUL \<notin> set (dec_digits n)"
proof (induction n rule: dec_digits.induct)
  case (1 n)
  have "NUL \<noteq> digit_char k" if "k < 10" for k
  proof
    assume "NUL = digit_char k"
    with digit_val_char [OF that] have "digit_val NUL = Some k" by simp
    then show False by (simp add: digit_val_def NUL_def)
  qed
  with 1 show ?case by (subst dec_digits.simps) auto
qed

lemma pool_msgs_no_NUL:
  "NUL \<notin> set (delete_msg n)"
  "NUL \<notin> set (create_snap_msg n b)"
  using dec_digits_no_NUL by (auto simp: delete_msg_def create_snap_msg_def NUL_def)

lemma delete_sends:
  "message K nm sec (delete_msg n) m = (e, m') \<Longrightarrow> sandbox_id p n \<Longrightarrow> sends_only (pool_msg p b) m m'"
  by (rule message_sends) (auto simp: pool_msgs_no_NUL pool_msg_def)

lemma sandboxThinID_range: "sandboxThinID p name tbl = Inr i \<Longrightarrow> sandbox_id p i"
  by (auto simp: sandboxThinID_def sandbox_id_def split: list.splits if_splits option.splits)

lemma RemoveVolume_sends:
  assumes run: "RemoveVolume K p sid m = (e, m')"
  shows "sends_only (pool_msg p b) m m'"
proof (cases "volumeName sid")
  case (Inl err)
  with run show ?thesis by (simp add: RemoveVolume_def)
next
  case (Inr name)
  let ?P = "pool_msg p b" and ?path = "VolumePath sid"
  obtain x m1 where tbl: "dm_table K name m = (x, m1)" by fastforce
  then have one: "sends_only ?P m m1" unfolding dm_table_def by (rule table_loop_sends)
  show ?thesis
  proof (cases "can_open K (kern m)")
    case False
    with Inr run show ?thesis by (simp add: RemoveVolume_def)
  next
    case True
    note run = run [unfolded RemoveVolume_def Inr sum.case tbl prod.case]
    show ?thesis
    proof (cases x)
      case (Inl err)
      with run True have "removeNode K ?path m1 = (e, m') \<or> m' = m1" by (simp split: if_splits)
      with one show ?thesis using removeNode_sends sends_trans by blast
    next
      case Inr': (Inr ts)
      obtain e2 m2 where rm: "removeDevice K name m1 = (e2, m2)" by fastforce
      then have two: "sends_only ?P m m2"
        unfolding removeDevice_def using one remove_loop_sends sends_trans by blast
      obtain e3 m3 where node: "removeNode K ?path m2 = (e3, m3)" by fastforce
      with two have three: "sends_only ?P m m3" using removeNode_sends sends_trans by blast
      consider "m' \<in> {m1, m2, m3}"
        | i where "sandboxThinID p name ts = Inr i" "message K (Name p) 0 (delete_msg i) m3 = (e, m')"
        using run True Inr' rm node by (auto split: sum.splits option.splits)
      then show ?thesis
        using one two three delete_sends sandboxThinID_range sends_trans by cases blast+
    qed
  qed
qed

lemma snap_loop_sends:
  assumes "\<And>k n. 0 < n \<Longrightarrow> draw k n < n" and "FirstSandboxID p \<le> maxThinID"
  shows "snap_loop K p b draw left m = (x, m') \<Longrightarrow>
           sends_only (pool_msg p b) m m' \<and> (\<forall>i. x = Inr i \<longrightarrow> sandbox_id p i)"
proof (induction left arbitrary: m)
  case (Suc left)
  define i where "i = FirstSandboxID p + draw left (maxThinID - FirstSandboxID p + 1)"
  have i: "sandbox_id p i"
    using assms(1) [of "maxThinID - FirstSandboxID p + 1" left] assms(2)
    by (simp add: sandbox_id_def i_def)
  obtain e m1 where run: "message K (Name p) 0 (create_snap_msg i b) m = (e, m1)" by fastforce
  have step: "snap_loop K p b draw (Suc left) m = (case message K (Name p) 0 (create_snap_msg i b) m of
      (None, m1) \<Rightarrow> (Inr i, m1)
    | (Some e, m1) \<Rightarrow> if is_errno EEXIST e then snap_loop K p b draw left m1 else (Inl e, m1))"
    by (simp only: snap_loop.simps Let_def i_def)
  have one: "sends_only (pool_msg p b) m m1"
    by (rule message_sends [OF run]) (use i in \<open>auto simp: pool_msgs_no_NUL pool_msg_def\<close>)
  show ?case
  proof (cases e)
    case None
    with Suc.prems run one i show ?thesis by (auto simp: step simp del: snap_loop.simps)
  next
    case (Some err)
    with Suc run one show ?thesis
      by (auto simp: step simp del: snap_loop.simps split: if_splits intro: sends_trans)
  qed
qed auto

lemma CreateVolume_sends:
  assumes draws: "\<And>k n. 0 < n \<Longrightarrow> draw k n < n" and ids: "FirstSandboxID p \<le> maxThinID"
    and base: "loadBase files p = Inr b" and run: "CreateVolume K files p draw sid m = (r, m')"
  shows "sends_only (pool_msg p (thinID b)) m m'"
proof (cases "volumeName sid")
  case (Inl e)
  with run show ?thesis by (simp add: CreateVolume_def)
next
  case (Inr name)
  let ?P = "pool_msg p (thinID b)"
  obtain x m1 where snap: "createSnapshot K p (thinID b) draw m = (x, m1)" by fastforce
  have one: "sends_only ?P m m1" "\<And>i. x = Inr i \<Longrightarrow> sandbox_id p i"
    using snap_loop_sends [of draw p, OF draws ids] snap unfolding createSnapshot_def by blast+
  show ?thesis
  proof (cases "can_open K (kern m)")
    case False
    with Inr base run show ?thesis by (simp add: CreateVolume_def)
  next
    case True
    show ?thesis
    proof (cases x)
      case (Inl e)
      with Inr base run snap True have "m' = m1" by (simp add: CreateVolume_def)
      with one(1) show ?thesis by simp
    next
      case Inr': (Inr i)
      obtain y m2 where dev: "createDevice K name (thin_table p b i) m1 = (y, m2)" by fastforce
      then have two: "sends_only ?P m1 m2" by (rule createDevice_sends)
      have "sends_only ?P m2 m'"
      proof (cases y)
        case (Inl e)
        obtain e' m3 where undo: "message K (Name p) 0 (delete_msg i) m2 = (e', m3)" by fastforce
        have "snd (CreateVolume K files p draw sid m) = m3"
          by (cases e') (simp_all add: CreateVolume_def Inr base True snap Inr' dev Inl undo)
        with run have "m' = m3" by simp
        with delete_sends [OF undo one(2) [OF Inr']] show ?thesis by simp
      next
        case node: (Inr d)
        obtain e m3 where ensure: "ensureNode K (VolumePath sid) d m2 = (e, m3)" by fastforce
        then have three: "sends_only ?P m2 m3" by (rule ensureNode_sends)
        obtain e' m4 where undo: "RemoveVolume K p sid m3 = (e', m4)" by fastforce
        then have "sends_only ?P m3 m4" by (rule RemoveVolume_sends)
        with three have "sends_only ?P m2 m4" by (rule sends_trans)
        moreover have "snd (CreateVolume K files p draw sid m) = (if e = None then m3 else m4)"
          by (cases e; cases e') (simp_all add: CreateVolume_def Inr base True snap Inr' dev node ensure undo)
        ultimately show ?thesis using three run by (simp split: if_split_asm)
      qed
      with two have "sends_only ?P m1 m'" by (rule sends_trans)
      with one(1) show ?thesis by (rule sends_trans)
    qed
  qed
qed

lemma LoadPool_ids:
  assumes "LoadPool files conf = Inr p"
  shows "FirstSandboxID p \<le> maxThinID"
proof (cases "readEnvFile (files conf)")
  case None
  with assms show ?thesis by (simp add: LoadPool_def)
next
  case (Some vars)
  note run = assms [unfolded LoadPool_def Some option.case]
  show ?thesis
  proof (cases "ParseUint (var vars ''FIRST_SANDBOX_ID'') 32")
    case None
    with run show ?thesis by (simp split: if_split_asm)
  next
    case (Some i)
    with run have "i \<le> maxThinID \<and> FirstSandboxID p = i" by (auto split: if_split_asm)
    then show ?thesis by simp
  qed
qed

lemma loadBase_below:
  assumes "loadBase files p = Inr b"
  shows "thinID b < FirstSandboxID p"
proof (cases "readEnvFile (files (Join (Dir p) ''base.env''))")
  case None
  with assms show ?thesis by (simp add: loadBase_def)
next
  case (Some vars)
  note run = assms [unfolded loadBase_def Let_def Some option.case]
  show ?thesis
  proof (cases "ParseUint (var vars ''BASE_THIN_ID'') 32")
    case None
    with run show ?thesis by simp
  next
    case (Some i)
    with run have "i < FirstSandboxID p \<and> thinID b = i" by (auto split: if_split_asm option.split_asm)
    then show ?thesis by simp
  qed
qed

lemma pool_msg_spares:
  assumes "b < FirstSandboxID p" and "pool_msg p b s"
  shows "s \<noteq> delete_msg b"
  using assms by (auto simp: pool_msg_def sandbox_id_def delete_msg_def create_snap_msg_def dec_digits_inj)

text \<open>C23: with a pool configuration the worker accepts, and a random source that draws below the
  bound it is asked for, whatever the kernel answers, creating and removing a sandbox volume sends
  the pool no message but: snapshot the base volume as an id of the sandbox range, or delete an id
  of the sandbox range. In particular the base volume is never deleted.\<close>

theorem base_volume_is_safe:
  assumes pool: "LoadPool files conf = Inr p" and base: "loadBase files p = Inr b"
    and draws: "\<And>k n. 0 < n \<Longrightarrow> draw k n < n"
  shows "sends_only (\<lambda>s. pool_msg p (thinID b) s \<and> s \<noteq> delete_msg (thinID b)) m
           (snd (RemoveVolume K p gone (snd (CreateVolume K files p draw fresh m))))"
proof -
  have ids: "FirstSandboxID p \<le> maxThinID"
    using pool by (rule LoadPool_ids)
  have below: "thinID b < FirstSandboxID p"
    using base by (rule loadBase_below)
  have one: "sends_only (pool_msg p (thinID b)) m (snd (CreateVolume K files p draw fresh m))"
    by (rule CreateVolume_sends [of draw, OF draws ids base]) (auto intro: prod.collapse [symmetric])
  have "sends_only (pool_msg p (thinID b)) m'' (snd (RemoveVolume K p gone m''))" for m''
    by (rule RemoveVolume_sends) (rule prod.collapse [symmetric])
  from sends_trans [OF one this] show ?thesis
    by (rule sends_mono) (simp add: pool_msg_spares [OF below])
qed

definition example_files :: "string \<Rightarrow> string option" where
  "example_files path =
     (if path = ''/etc/thin-pool.env'' then
        Some (''POOL_NAME=fire2'' @ [CHR 0x0A] @ ''POOL_DIR=/var/lib/thin'' @ [CHR 0x0A] @ ''FIRST_SANDBOX_ID=100'')
      else if path = ''/var/lib/thin/base.env'' then
        Some (''BASE_THIN_ID=7'' @ [CHR 0x0A] @ ''BASE_SECTORS=4194304'')
      else None)"

definition example_pool :: Pool where
  "example_pool = \<lparr>Name = ''fire2'', Dir = ''/var/lib/thin'', FirstSandboxID = 100\<rparr>"

definition example_base :: base where
  "example_base = \<lparr>thinID = 7, sectors = 4194304\<rparr>"

lemmas env_eval = readEnvFile_def TrimSpace_plain plain_char_def HasPrefix_def has_prefix_def unquote_def
  maxScanTokenSize_def var_def ParseUint_def parse_digits_def digit_val_def maxThinID_def

lemma example_load: "LoadPool example_files ''/etc/thin-pool.env'' = Inr example_pool"
  by (simp add: LoadPool_def example_files_def example_pool_def env_eval)

lemma example_base_path: "Join ''/var/lib/thin'' ''base.env'' = ''/var/lib/thin/base.env''"
  by code_simp

lemma example_load_base: "loadBase example_files example_pool = Inr example_base"
  by (simp add: loadBase_def example_files_def example_pool_def example_base_def env_eval example_base_path)

theorem base_volume_is_safe_witness:
  "LoadPool example_files ''/etc/thin-pool.env'' = Inr example_pool
   \<and> loadBase example_files example_pool = Inr example_base
   \<and> (\<forall>(K :: unit kernel) m. sends_only (\<lambda>s. pool_msg example_pool 7 s \<and> s \<noteq> delete_msg 7) m
        (snd (RemoveVolume K example_pool ''old'' (snd (CreateVolume K example_files example_pool (\<lambda>k n. k mod n) ''new'' m)))))"
proof -
  have "thinID example_base = 7" by (simp add: example_base_def)
  with base_volume_is_safe [OF example_load example_load_base, where draw = "\<lambda>k n. k mod n"
      and K = "K :: unit kernel" and m = m and gone = "''old''" and fresh = "''new''" for K m]
  show ?thesis by (simp add: example_load example_load_base)
qed

end
