(* ===== verification/Sandbox_Service.thy ===== *)
theory Sandbox_Service
  imports Runtime Thin_Pool
begin

text \<open>
  \<^verbatim>\<open>sandboxmgr/service.go\<close> and \<^verbatim>\<open>sandboxmgr/vm.go\<close>: the actor of one sandbox and the Firecracker VM it
  drives.  The actor is written over the \<^verbatim>\<open>vm\<close> interface, a record of operations on a host of any type;
  the Firecracker VM is an instance of it on the host of theory \<open>Runtime\<close> with the thin pool of
  theory \<open>Thin_Pool\<close> as its volumes.
\<close>

subsection \<open>States and errors\<close>

abbreviation StateStarting :: SandboxState where "StateStarting \<equiv> SANDBOX_STATE_STARTING"
abbreviation StateRunning :: SandboxState where "StateRunning \<equiv> SANDBOX_STATE_RUNNING"
abbreviation StateUnknown :: SandboxState where "StateUnknown \<equiv> SANDBOX_STATE_UNKNOWN"
abbreviation StateDead :: SandboxState where "StateDead \<equiv> SANDBOX_STATE_DEAD"

datatype vm_error =
    NoImageDir
  | NoKernel
  | VmRuntime "dm_error runtime_error"
  | VmPool dm_error
  | VmVolume dm_error
  | ExitedWhileBooting
  | NotRunning "SandboxState option"
  | BootAborted
  | VmStop stop_error
  | VmRemoveDir

datatype mgr_error =
    InvalidSandboxID string
  | ErrSandboxNotFound string
  | ErrBusy string
  | ErrAtCapacity
  | errServiceExited
  | AlreadyCreated string
  | CreateError vm_error
  | StopSandbox string vm_error
  | RemoveSandbox string vm_error
  | StopCleanedUp string vm_error
  | ReapError "dm_error runtime_error"

record CreateInput =
  in_ID :: string
  in_VcpuCount :: int
  in_MemSizeMib :: int

record ('v, 'h) vm_ops =
  vm_new :: "CreateInput \<Rightarrow> 'h \<Rightarrow> (vm_error + 'v) \<times> 'h"
  vm_Create :: "'v \<Rightarrow> 'h \<Rightarrow> (vm_error option \<times> 'v) \<times> 'h"
  vm_Stop :: "'v \<Rightarrow> 'h \<Rightarrow> vm_error option \<times> 'h"
  vm_Cleanup :: "'v \<Rightarrow> 'h \<Rightarrow> vm_error option \<times> 'h"
  vm_State :: "'v \<Rightarrow> 'h \<Rightarrow> SandboxState option \<times> 'h"

subsection \<open>The actor\<close>

datatype command = CmdCreate CreateInput | CmdStop | CmdRemove

record 'v Service =
  svc_id :: string
  svc_vm :: "'v option"
  svc_state :: SandboxState
  svc_exited :: bool

definition newService :: "string \<Rightarrow> 'v Service" where
  "newService i = \<lparr>svc_id = i, svc_vm = None, svc_state = StateStarting, svc_exited = False\<rparr>"

text \<open>The state to report, if it changed.\<close>

definition setState :: "SandboxState \<Rightarrow> 'v Service \<Rightarrow> SandboxState option \<times> 'v Service" where
  "setState st s = (if st = svc_state s then (None, s) else (Some st, s\<lparr>svc_state := st\<rparr>))"

definition poll :: "('v, 'h) vm_ops \<Rightarrow> 'v Service \<Rightarrow> 'h \<Rightarrow> (SandboxState option \<times> 'v Service) \<times> 'h" where
  "poll ops s h =
     (case svc_vm s of
        None \<Rightarrow> ((None, s), h)
      | Some v \<Rightarrow>
          if svc_state s = StateDead then ((None, s), h)
          else (case vm_State ops v h of
                  (answer, h1) \<Rightarrow>
                    (setState (case answer of None \<Rightarrow> StateUnknown | Some st \<Rightarrow> st) s, h1)))"

definition watch :: "'v Service \<Rightarrow> 'v Service" where
  "watch s = s\<lparr>svc_exited := True\<rparr>"

definition svc_remove :: "('v, 'h) vm_ops \<Rightarrow> 'v Service \<Rightarrow> 'h \<Rightarrow> mgr_error option \<times> 'h" where
  "svc_remove ops s h =
     (case svc_vm s of
        None \<Rightarrow> (None, h)
      | Some v \<Rightarrow>
          (case vm_Stop ops v h of
             (stopErr, h1) \<Rightarrow>
               (case vm_Cleanup ops v h1 of
                  (Some e, h2) \<Rightarrow> (Some (RemoveSandbox (svc_id s) e), h2)
                | (None, h2) \<Rightarrow>
                    (case stopErr of
                       Some e \<Rightarrow> (Some (StopCleanedUp (svc_id s) e), h2)
                     | None \<Rightarrow> (None, h2)))))"

definition svc_create ::
    "('v, 'h) vm_ops \<Rightarrow> CreateInput \<Rightarrow> 'v Service \<Rightarrow> 'h
       \<Rightarrow> (mgr_error option \<times> SandboxState option \<times> 'v Service) \<times> 'h" where
  "svc_create ops inp s h =
     (if svc_vm s \<noteq> None then ((Some (AlreadyCreated (svc_id s)), None, s), h)
      else
        (case vm_new ops inp h of
           (Inl e, h1) \<Rightarrow> ((Some (CreateError e), None, s), h1)
         | (Inr v, h1) \<Rightarrow>
             (case vm_Create ops v h1 of
                ((Some e, v1), h2) \<Rightarrow>
                  (let s1 = s\<lparr>svc_vm := Some v1\<rparr>
                   in ((Some (CreateError e), None, s1), snd (svc_remove ops s1 h2)))
              | ((None, v1), h2) \<Rightarrow>
                  (case poll ops (watch (s\<lparr>svc_vm := Some v1\<rparr>)) h2 of
                     ((rep, s2), h3) \<Rightarrow> ((None, rep, s2), h3)))))"

definition svc_adopt :: "'v \<Rightarrow> SandboxState \<Rightarrow> 'v Service \<Rightarrow> 'v Service" where
  "svc_adopt v st s = watch (s\<lparr>svc_vm := Some v, svc_state := st\<rparr>)"

text \<open>\<^verbatim>\<open>handle\<close>: whether the actor is done, the reply, the state to report, and the service.\<close>

definition handle_cmd ::
    "('v, 'h) vm_ops \<Rightarrow> command \<Rightarrow> 'v Service \<Rightarrow> 'h
       \<Rightarrow> (bool \<times> mgr_error option \<times> SandboxState option \<times> 'v Service) \<times> 'h" where
  "handle_cmd ops cmd s h =
     (case cmd of
        CmdCreate inp \<Rightarrow>
          (case svc_create ops inp s h of
             ((err, rep, s1), h1) \<Rightarrow> ((err \<noteq> None, err, rep, s1), h1))
      | CmdStop \<Rightarrow>
          (case svc_vm s of
             None \<Rightarrow> ((False, None, None, s), h)
           | Some v \<Rightarrow>
               (case vm_Stop ops v h of
                  (Some e, h1) \<Rightarrow> ((False, Some (StopSandbox (svc_id s) e), None, s), h1)
                | (None, h1) \<Rightarrow> ((False, None, None, s), h1)))
      | CmdRemove \<Rightarrow>
          (case svc_remove ops s h of (err, h1) \<Rightarrow> ((True, err, None, s), h1)))"

text \<open>The exit of the VM arrives: \<^verbatim>\<open>exited\<close> is cleared and the state is \<^verbatim>\<open>DEAD\<close>.\<close>

definition on_exited :: "'v Service \<Rightarrow> SandboxState option \<times> 'v Service" where
  "on_exited s = setState StateDead (s\<lparr>svc_exited := False\<rparr>)"

subsection \<open>Waiting for a VM to boot\<close>

definition bootTimeout_ms :: nat where "bootTimeout_ms = 30000"
definition bootPoll_ms :: nat where "bootPoll_ms = 50"

text \<open>The answers to the polls that a tick follows, then the last one and what ends the wait.\<close>

datatype boot_event = VmGone | Deadline | CtxDone

fun waitRunning :: "SandboxState option list \<Rightarrow> SandboxState option \<Rightarrow> boot_event \<Rightarrow> vm_error option" where
  "waitRunning (answer # rest) lastAnswer ev =
     (if answer = Some StateRunning then None else waitRunning rest lastAnswer ev)"
| "waitRunning [] answer ev =
     (if answer = Some StateRunning then None
      else
        (case ev of
           VmGone \<Rightarrow> Some ExitedWhileBooting
         | Deadline \<Rightarrow> Some (NotRunning answer)
         | CtxDone \<Rightarrow> Some BootAborted))"

subsection \<open>The Firecracker VM\<close>

record Config =
  ImageDir :: string
  ThinPoolConf :: string
  BaseDir :: string
  cfg_ShimPath :: string
  cfg_FirecrackerPath :: string

text \<open>An environment gives the value of a variable, empty when unset.\<close>

definition envOr :: "(string \<Rightarrow> string) \<Rightarrow> string \<Rightarrow> string \<Rightarrow> string" where
  "envOr env key fallback = (if env key \<noteq> [] then env key else fallback)"

definition DefaultConfPath :: string where "DefaultConfPath = ''/etc/fire2/thinpool.conf''"

definition ConfigFromEnv :: "(string \<Rightarrow> string) \<Rightarrow> Config" where
  "ConfigFromEnv env =
     \<lparr>ImageDir = env ''FIRECRACKER_IMAGE_DIR'',
      ThinPoolConf = envOr env ''FIRE2_THINPOOL_CONF'' DefaultConfPath,
      BaseDir = SandboxBaseDir (env ''FIRECRACKER_SANDBOX_DIR''),
      cfg_ShimPath = envOr env ''FIRE2_SHIM_PATH'' ''/opt/fire2/fire2-shim'',
      cfg_FirecrackerPath = envOr env ''FIRECRACKER_BIN'' ''/usr/local/bin/firecracker''\<rparr>"

definition defaultBootArgs :: string where
  "defaultBootArgs = ''console=ttyS0 reboot=k panic=1 pci=off''"

text \<open>The answers of the host to one call: the kernel of the volumes, system calls, processes and random
  draws; and the value of \<^verbatim>\<open>FIRECRACKER_SANDBOX_DIR\<close>, which the runtime reads again on each call.\<close>

record 'k vm_env =
  env_K :: "'k kernel"
  env_sandbox_dir :: string
  env_draw :: "nat \<Rightarrow> nat \<Rightarrow> nat"
  env_parse :: "string \<Rightarrow> bool"
  env_kill :: "int \<Rightarrow> kill_result"
  env_rm_ok :: bool
  env_mkdir_ok :: bool
  env_stat_ok :: bool
  env_dial_ok :: bool
  env_marshal :: "vmConfig \<Rightarrow> string"
  env_config_write :: write_outcome
  env_log_ok :: bool
  env_remove_ok :: bool
  env_start_pid :: "int option"
  env_attempts :: "attempt list"
  env_boot :: "SandboxState option list \<times> SandboxState option \<times> boot_event"
  env_stop :: "bool \<times> kill_result \<times> bool \<times> kill_result \<times> bool"
  env_api :: api_answer
  env_listing :: read_dir

definition kernelPath :: "bool \<Rightarrow> Config \<Rightarrow> vm_error + string" where
  "kernelPath stat_ok c =
     (if ImageDir c = [] then Inl NoImageDir
      else if \<not> stat_ok then Inl NoKernel
      else Inr (Join (ImageDir c) ''vmlinux''))"

definition cfg_pool :: "Config \<Rightarrow> files \<Rightarrow> dm_error + Pool" where
  "cfg_pool c fs = LoadPool fs (ThinPoolConf c)"

definition cfg_RemoveVolume ::
    "'k kernel \<Rightarrow> Config \<Rightarrow> files \<Rightarrow> string \<Rightarrow> 'k machine \<Rightarrow> dm_error option \<times> 'k machine" where
  "cfg_RemoveVolume K c fs i m =
     (case cfg_pool c fs of Inl e \<Rightarrow> (Some e, m) | Inr p \<Rightarrow> RemoveVolume K p i m)"

record firecrackerVM =
  fc_client :: Client
  fc_cfg :: Config
  fc_kernelPath :: string
  fc_in :: CreateInput

definition newFirecrackerVM ::
    "'k vm_env \<Rightarrow> Config \<Rightarrow> CreateInput \<Rightarrow> 'k machine host \<Rightarrow> (vm_error + firecrackerVM) \<times> 'k machine host" where
  "newFirecrackerVM env c inp h =
     (case kernelPath (env_stat_ok env) c of
        Inl e \<Rightarrow> (Inl e, h)
      | Inr kpath \<Rightarrow>
          (case NewClient (env_parse env) (env_mkdir_ok env) (SandboxBaseDir (env_sandbox_dir env)) (in_ID inp) h of
             (Inl e, h1) \<Rightarrow> (Inl (VmRuntime e), h1)
           | (Inr client, h1) \<Rightarrow>
               (Inr \<lparr>fc_client = client, fc_cfg = c, fc_kernelPath = kpath, fc_in = inp\<rparr>, h1)))"

definition fc_attach :: "'k vm_env \<Rightarrow> Config \<Rightarrow> string \<Rightarrow> 'k machine host \<Rightarrow> vm_error + firecrackerVM" where
  "fc_attach env c i h =
     (case client_Attach (env_parse env) (env_dial_ok env) (SandboxBaseDir (env_sandbox_dir env)) i h of
        Inl e \<Rightarrow> Inl (VmRuntime e)
      | Inr client \<Rightarrow>
          Inr \<lparr>fc_client = client, fc_cfg = c, fc_kernelPath = [],
               fc_in = \<lparr>in_ID = i, in_VcpuCount = 0, in_MemSizeMib = 0\<rparr>\<rparr>)"

definition fc_reap ::
    "'k vm_env \<Rightarrow> Config \<Rightarrow> string \<Rightarrow> 'k machine host \<Rightarrow> dm_error runtime_error option \<times> 'k machine host" where
  "fc_reap env c i h =
     ReapSandbox (env_parse env) (env_kill env) (env_rm_ok env) (BaseDir c) i
       (cfg_RemoveVolume (env_K env) c (host_files h)) h"

definition fc_listDisk :: "'k vm_env \<Rightarrow> dm_error runtime_error + string list" where
  "fc_listDisk env = ListSandboxDirs (env_parse env) (env_listing env)"

definition fc_Create ::
    "'k vm_env \<Rightarrow> firecrackerVM \<Rightarrow> 'k machine host \<Rightarrow> (vm_error option \<times> firecrackerVM) \<times> 'k machine host" where
  "fc_Create env f h =
     (case cfg_pool (fc_cfg f) (host_files h) of
        Inl e \<Rightarrow> ((Some (VmPool e), f), h)
      | Inr p \<Rightarrow>
          (case CreateVolume (env_K env) (host_files h) p (env_draw env) (in_ID (fc_in f)) (volumes h) of
             (Inl e, m) \<Rightarrow> ((Some (VmVolume e), f), h\<lparr>volumes := m\<rparr>)
           | (Inr rootDrive, m) \<Rightarrow>
               (case client_Spawn (env_marshal env) (env_config_write env) (env_log_ok env) (env_remove_ok env)
                       (env_start_pid env) (env_attempts env)
                       \<lparr>ShimPath = cfg_ShimPath (fc_cfg f), FirecrackerPath = cfg_FirecrackerPath (fc_cfg f),
                        KernelPath = fc_kernelPath f, RootDrivePath = rootDrive,
                        spawn_VcpuCount = in_VcpuCount (fc_in f), spawn_MemSizeMib = in_MemSizeMib (fc_in f),
                        BootArgs = defaultBootArgs\<rparr>
                       (fc_client f) (h\<lparr>volumes := m\<rparr>) of
                  ((Some e, client), h1) \<Rightarrow> ((Some (VmRuntime e), f\<lparr>fc_client := client\<rparr>), h1)
                | ((None, client), h1) \<Rightarrow>
                    (case env_boot env of
                       (answers, lastAnswer, ev) \<Rightarrow>
                         ((waitRunning answers lastAnswer ev, f\<lparr>fc_client := client\<rparr>), h1)))))"

definition fc_Stop :: "'k vm_env \<Rightarrow> firecrackerVM \<Rightarrow> 'k machine host \<Rightarrow> vm_error option \<times> 'k machine host" where
  "fc_Stop env f h =
     (case env_stop env of
        (d, t, g, k, a) \<Rightarrow>
          (case client_Stop d t g k a (fc_client f) of (_, e) \<Rightarrow> (map_option VmStop e, h)))"

definition fc_Cleanup :: "'k vm_env \<Rightarrow> firecrackerVM \<Rightarrow> 'k machine host \<Rightarrow> vm_error option \<times> 'k machine host" where
  "fc_Cleanup env f h =
     (case cfg_RemoveVolume (env_K env) (fc_cfg f) (host_files h) (in_ID (fc_in f)) (volumes h) of
        (Some e, m) \<Rightarrow> (Some (VmVolume e), h\<lparr>volumes := m\<rparr>)
      | (None, m) \<Rightarrow>
          (case RemoveAll (env_rm_ok env) (client_Dir (fc_client f)) (h\<lparr>volumes := m\<rparr>) of
             (ok, h1) \<Rightarrow> (if ok then None else Some VmRemoveDir, h1)))"

definition fc_State :: "'k vm_env \<Rightarrow> firecrackerVM \<Rightarrow> 'k machine host \<Rightarrow> SandboxState option \<times> 'k machine host" where
  "fc_State env f h = (client_State (env_api env), h)"

definition firecracker_ops :: "'k vm_env \<Rightarrow> Config \<Rightarrow> (firecrackerVM, 'k machine host) vm_ops" where
  "firecracker_ops env c =
     \<lparr>vm_new = newFirecrackerVM env c, vm_Create = fc_Create env, vm_Stop = fc_Stop env,
      vm_Cleanup = fc_Cleanup env, vm_State = fc_State env\<rparr>"

subsection \<open>The directory outlives the volume\<close>

text \<open>
  The directory of a sandbox is what the reconciliation finds on a host, so a volume must not be left
  behind without its directory.  \<open>volume_safe\<close> says so of a host: the directory is there, or the volumes
  are as they were before the sandbox, or the last thing done to them was to remove that volume.
\<close>

definition volume_safe :: "'k kernel \<Rightarrow> Config \<Rightarrow> string \<Rightarrow> 'k machine \<Rightarrow> 'k machine host \<Rightarrow> bool" where
  "volume_safe K c i before h \<longleftrightarrow>
     Join (BaseDir c) i \<in> set (dirs h) \<or> volumes h = before
     \<or> (\<exists>fs m. cfg_RemoveVolume K c fs i m = (None, volumes h))"

lemma volume_safe_refl [simp]: "volume_safe K c i (volumes h) h"
  by (simp add: volume_safe_def)

definition vm_of :: "Config \<Rightarrow> string \<Rightarrow> firecrackerVM \<Rightarrow> bool" where
  "vm_of c i f \<longleftrightarrow> fc_cfg f = c \<and> in_ID (fc_in f) = i \<and> client_Dir (fc_client f) = Join (BaseDir c) i"

lemma newFirecrackerVM_result:
  assumes "newFirecrackerVM env c inp h = (r, h')" and "BaseDir c = SandboxBaseDir (env_sandbox_dir env)"
  shows "volumes h' = volumes h
    \<and> (\<forall>f. r = Inr f \<longrightarrow> vm_of c (in_ID inp) f \<and> Join (BaseDir c) (in_ID inp) \<in> set (dirs h'))"
  using assms
  by (auto simp: newFirecrackerVM_def NewClient_def Let_def vm_of_def split: sum.splits option.splits if_splits)

lemma client_Spawn_frame:
  assumes "client_Spawn marshal out log_ok remove_ok start_pid attempts req cl h = ((e, cl'), h')"
  shows "dirs h' = dirs h \<and> volumes h' = volumes h \<and> client_Dir cl' = client_Dir cl"
  using assms by (auto simp: client_Spawn_def split: prod.splits sum.splits bool.splits if_splits)

lemma fc_Create_result:
  assumes "fc_Create env f h = ((e, f'), h')" and "vm_of c i f"
  shows "dirs h' = dirs h \<and> vm_of c i f'"
  using assms client_Spawn_frame
  by (fastforce simp: fc_Create_def vm_of_def split: sum.splits prod.splits option.splits)

lemma fc_Stop_frame [simp]: "snd (fc_Stop env f h) = h"
  by (simp add: fc_Stop_def split: prod.split)

lemma fc_State_frame [simp]: "snd (fc_State env f h) = h"
  by (simp add: fc_State_def)

lemma fc_Cleanup_safe:
  assumes "vm_of c i f" and "Join (BaseDir c) i \<in> set (dirs h)"
  shows "volume_safe (env_K env) c i before (snd (fc_Cleanup env f h))"
proof (cases "cfg_RemoveVolume (env_K env) c (host_files h) i (volumes h)")
  case (Pair e m)
  show ?thesis
  proof (cases e)
    case None
    with Pair have "\<exists>fs m'. cfg_RemoveVolume (env_K env) c fs i m' = (None, m)" by blast
    with Pair None assms(1) show ?thesis
      by (simp add: fc_Cleanup_def vm_of_def RemoveAll_def volume_safe_def)
  next
    case (Some x)
    with Pair assms show ?thesis by (simp add: fc_Cleanup_def vm_of_def volume_safe_def)
  qed
qed

lemma svc_remove_safe:
  assumes "svc_vm s = Some f" and "vm_of c i f" and "Join (BaseDir c) i \<in> set (dirs h)"
  shows "volume_safe (env_K env) c i before (snd (svc_remove (firecracker_ops env c') s h))"
proof -
  obtain st where stop: "fc_Stop env f h = (st, h)" using fc_Stop_frame [of env f h] by (metis prod.collapse)
  obtain ce h2 where clean: "fc_Cleanup env f h = (ce, h2)" by fastforce
  have "snd (svc_remove (firecracker_ops env c') s h) = snd (fc_Cleanup env f h)"
    by (cases st; cases ce) (simp_all add: svc_remove_def firecracker_ops_def assms(1) stop clean)
  with fc_Cleanup_safe [OF assms(2,3)] show ?thesis by simp
qed

lemma firecracker_ops_sel [simp]:
  "vm_new (firecracker_ops env c) = newFirecrackerVM env c" "vm_Create (firecracker_ops env c) = fc_Create env"
  "vm_Stop (firecracker_ops env c) = fc_Stop env" "vm_Cleanup (firecracker_ops env c) = fc_Cleanup env"
  "vm_State (firecracker_ops env c) = fc_State env"
  by (simp_all add: firecracker_ops_def)

lemma poll_frame [simp]: "snd (poll (firecracker_ops env c) s h) = h"
  by (simp add: poll_def firecracker_ops_def fc_State_def split: option.split)

lemma svc_create_safe:
  assumes "BaseDir c = SandboxBaseDir (env_sandbox_dir env)"
  shows "volume_safe (env_K env) c (in_ID inp) (volumes h)
     (snd (svc_create (firecracker_ops env c) inp (newService (in_ID inp)) h))"
proof -
  let ?ops = "firecracker_ops env c" and ?i = "in_ID inp" and ?s = "newService (in_ID inp) :: firecrackerVM Service"
  let ?safe = "volume_safe (env_K env) c ?i (volumes h)"
  have none: "svc_vm ?s = None" by (simp add: newService_def)
  obtain r h1 where new: "newFirecrackerVM env c inp h = (r, h1)" by fastforce
  note made = newFirecrackerVM_result [OF new assms]
  show ?thesis
  proof (cases r)
    case (Inl e)
    with none new made show ?thesis by (simp add: svc_create_def firecracker_ops_def volume_safe_def)
  next
    case (Inr f)
    obtain e f' h2 where run: "fc_Create env f h1 = ((e, f'), h2)" by (metis prod.exhaust)
    from made Inr fc_Create_result [OF run] have vm: "vm_of c ?i f'" and dir: "Join (BaseDir c) ?i \<in> set (dirs h2)" by auto
    show ?thesis
    proof (cases e)
      case None
      obtain rep s2 where "poll ?ops (watch (?s\<lparr>svc_vm := Some f'\<rparr>)) h2 = ((rep, s2), h2)"
        using poll_frame by (metis prod.collapse)
      then have "snd (svc_create ?ops inp ?s h) = h2"
        using none new Inr run None by (simp add: svc_create_def)
      with dir show ?thesis by (simp add: volume_safe_def)
    next
      case (Some x)
      then have "snd (svc_create ?ops inp ?s h) = snd (svc_remove ?ops (?s\<lparr>svc_vm := Some f'\<rparr>) h2)"
        using none new Inr run by (simp add: svc_create_def Let_def)
      with svc_remove_safe [OF _ vm dir] show ?thesis by simp
    qed
  qed
qed

lemma fc_reap_safe:
  assumes "Join (BaseDir c) i \<in> set (dirs h)"
  shows "volume_safe (env_K env) c i before (snd (fc_reap env c i h))"
proof -
  let ?rv = "cfg_RemoveVolume (env_K env) c (host_files h)" and ?dir = "Join (BaseDir c) i"
  obtain pids ok where stale: "KillStale (cmdline_of h) (env_kill env) ?dir (host_files h) = (pids, ok)" by fastforce
  obtain e m where rv: "?rv i (volumes h) = (e, m)" by fastforce
  then have removed: "\<exists>fs m'. cfg_RemoveVolume (env_K env) c fs i m' = (None, m)" if "e = None" using that by blast
  show ?thesis
  proof (cases "IsSandboxID (env_parse env) i")
    case True
    note eq = ReapSandbox_unfold [where rv = ?rv, OF True stale refl refl rv]
    show ?thesis unfolding fc_reap_def eq
      using assms removed by (cases e) (auto simp: volume_safe_def RemoveAll_def)
  next
    case False
    with assms show ?thesis by (simp add: fc_reap_def ReapSandbox_def volume_safe_def)
  qed
qed


definition example_config :: Config where
  "example_config = ConfigFromEnv (\<lambda>k. if k = ''FIRECRACKER_SANDBOX_DIR'' then ''/srv/sb'' else [])"

definition example_env :: "unit vm_env" where
  "example_env =
     \<lparr>env_K = \<lparr>can_open = \<lambda>_. False, do_ioctl = \<lambda>nr buf k. ((None, buf), k), do_stat = \<lambda>path k. (Inl ENOENT, k),
              do_unlink = \<lambda>path k. (None, k), do_mknod = \<lambda>path d k. (None, k), device_number = id\<rparr>,
      env_sandbox_dir = ''/srv/sb'',
      env_draw = \<lambda>k n. 0, env_parse = list_all uuid_char, env_kill = \<lambda>_. KillOk, env_rm_ok = True,
      env_mkdir_ok = True, env_stat_ok = True, env_dial_ok = True, env_marshal = \<lambda>_. [], env_config_write = Written,
      env_log_ok = True, env_remove_ok = True, env_start_pid = Some 7, env_attempts = [],
      env_boot = ([], None, Deadline), env_stop = (True, KillOk, True, KillOk, True), env_api = ApiUnreachable,
      env_listing = NotExist\<rparr>"

definition example_host :: "unit machine host" where
  "example_host =
     \<lparr>host_files = (\<lambda>_. None), dirs = [Join ''/srv/sb'' ''x''], procs = [],
      volumes = \<lparr>kern = (), ioctls = []\<rparr>, killed_pids = [], removed_dirs = []\<rparr>"

definition example_vm :: firecrackerVM where
  "example_vm =
     \<lparr>fc_client = \<lparr>sandboxId = ''x'', client_Dir = Join ''/srv/sb'' ''x'', handle = None\<rparr>, fc_cfg = example_config,
      fc_kernelPath = [], fc_in = \<lparr>in_ID = ''x'', in_VcpuCount = 1, in_MemSizeMib = 256\<rparr>\<rparr>"


end
