(* ===== verification/Sandbox_Manager.thy ===== *)
theory Sandbox_Manager
  imports Sandbox_Service "HOL-Library.AList" "HOL-Library.Multiset"
begin

text \<open>
  \<^verbatim>\<open>sandboxmgr/manager.go\<close> and \<^verbatim>\<open>sandboxmgr/audit.go\<close>: the map of the sandboxes of one worker and everything
  that runs on it at the same time.  Each section under the manager's lock is one definition; the
  callers of \<^verbatim>\<open>Create\<close>, \<^verbatim>\<open>Stop\<close> and \<^verbatim>\<open>Remove\<close>, the audit and the actors then interleave in a step relation,
  one lock section, one channel operation or one call to the host at a time.
\<close>

subsection \<open>The sections under the lock\<close>

text \<open>A service is named by its number, which stands for the pointer.\<close>

record entry =
  e_svc :: nat
  e_state :: SandboxState

record StateChange =
  chg_SandboxID :: string
  chg_State :: SandboxState
  chg_At :: time

record Manager =
  services :: "(string \<times> entry) list"
  deleting :: "string list"
  mgr_capacity :: int
  mgr_events :: "StateChange list"

definition eventBuffer :: nat where "eventBuffer = 256"

definition newManager :: Manager where
  "newManager = \<lparr>services = [], deleting = [], mgr_capacity = 0, mgr_events = []\<rparr>"

definition SetCapacity :: "int \<Rightarrow> Manager \<Rightarrow> Manager" where
  "SetCapacity n m = m\<lparr>mgr_capacity := n\<rparr>"

text \<open>\<^verbatim>\<open>Create\<close> up to the end of its lock: what it returns at once, or \<open>None\<close> once service \<open>n\<close> is registered.\<close>

definition Create_lock ::
    "(string \<Rightarrow> bool) \<Rightarrow> CreateInput \<Rightarrow> nat \<Rightarrow> Manager \<Rightarrow> mgr_error option option \<times> Manager" where
  "Create_lock parse inp n m =
     (let i = in_ID inp
      in if CheckSandboxID parse i \<noteq> (None :: unit runtime_error option) then (Some (Some (InvalidSandboxID i)), m)
         else if map_of (services m) i \<noteq> None then (Some None, m)
         else if i \<in> set (deleting m) then (Some (Some (ErrBusy i)), m)
         else
           (let hosted = length (services m) + length (deleting m)
            in if mgr_capacity m > 0 \<and> int hosted \<ge> mgr_capacity m then (Some (Some ErrAtCapacity), m)
               else (None, m\<lparr>services := AList.update i \<lparr>e_svc = n, e_state = StateStarting\<rparr> (services m)\<rparr>)))"

definition Create_drop :: "string \<Rightarrow> nat \<Rightarrow> Manager \<Rightarrow> Manager" where
  "Create_drop i n m =
     (case map_of (services m) i of
        Some e \<Rightarrow> if e_svc e = n then m\<lparr>services := AList.delete i (services m)\<rparr> else m
      | None \<Rightarrow> m)"

definition Stop_lock :: "string \<Rightarrow> Manager \<Rightarrow> mgr_error + nat" where
  "Stop_lock i m =
     (case map_of (services m) i of None \<Rightarrow> Inl (ErrSandboxNotFound i) | Some e \<Rightarrow> Inr (e_svc e))"

definition Remove_lock :: "(string \<Rightarrow> bool) \<Rightarrow> string \<Rightarrow> Manager \<Rightarrow> (mgr_error + nat) \<times> Manager" where
  "Remove_lock parse i m =
     (if CheckSandboxID parse i \<noteq> (None :: unit runtime_error option) then (Inl (InvalidSandboxID i), m)
      else if i \<in> set (deleting m) then (Inl (ErrBusy i), m)
      else (case map_of (services m) i of
              None \<Rightarrow> (Inl (ErrSandboxNotFound i), m)
            | Some e \<Rightarrow>
                (Inr (e_svc e),
                 m\<lparr>services := AList.delete i (services m), deleting := deleting m @ [i]\<rparr>)))"

definition release :: "string \<Rightarrow> Manager \<Rightarrow> Manager" where
  "release i m = m\<lparr>deleting := filter (\<lambda>j. j \<noteq> i) (deleting m)\<rparr>"

definition Snapshot :: "Manager \<Rightarrow> SandboxInventoryEntry list" where
  "Snapshot m = map (\<lambda>(i, e). \<lparr>SandboxId = i, entry_State = e_state e\<rparr>) (services m)"

text \<open>Whether the report counts, and the manager.\<close>

definition report_lock :: "string \<Rightarrow> nat \<Rightarrow> SandboxState \<Rightarrow> Manager \<Rightarrow> bool \<times> Manager" where
  "report_lock i n st m =
     (case map_of (services m) i of
        None \<Rightarrow> (False, m)
      | Some e \<Rightarrow>
          if e_svc e \<noteq> n then (False, m)
          else (True, m\<lparr>services := AList.update i (e\<lparr>e_state := st\<rparr>) (services m)\<rparr>))"

definition emit :: "string \<Rightarrow> SandboxState \<Rightarrow> time \<Rightarrow> Manager \<Rightarrow> Manager" where
  "emit i st now m =
     (if length (mgr_events m) < eventBuffer
      then m\<lparr>mgr_events := mgr_events m @ [\<lparr>chg_SandboxID = i, chg_State = st, chg_At = now\<rparr>]\<rparr>
      else m)"

text \<open>\<^verbatim>\<open>checkLiveness\<close>: the entries whose service is done and not yet \<^verbatim>\<open>DEAD\<close>.\<close>

definition newly_dead :: "(nat \<Rightarrow> bool) \<Rightarrow> entry \<Rightarrow> bool" where
  "newly_dead gone e \<longleftrightarrow> gone (e_svc e) \<and> e_state e \<noteq> StateDead"

definition checkLiveness_lock :: "(nat \<Rightarrow> bool) \<Rightarrow> Manager \<Rightarrow> string list \<times> Manager" where
  "checkLiveness_lock gone m =
     (map fst (filter (\<lambda>(i, e). newly_dead gone e) (services m)),
      m\<lparr>services := map (\<lambda>(i, e). (i, if newly_dead gone e then e\<lparr>e_state := StateDead\<rparr> else e)) (services m)\<rparr>)"

fun claim_orphans :: "string list \<Rightarrow> Manager \<Rightarrow> string list \<times> Manager" where
  "claim_orphans [] m = ([], m)"
| "claim_orphans (i # is) m =
     (if map_of (services m) i \<noteq> None then claim_orphans is m
      else if i \<in> set (deleting m) then claim_orphans is m
      else (case claim_orphans is (m\<lparr>deleting := deleting m @ [i]\<rparr>) of
              (orphans, m1) \<Rightarrow> (i # orphans, m1)))"

definition adopt_lock :: "string \<Rightarrow> nat \<Rightarrow> SandboxState \<Rightarrow> Manager \<Rightarrow> Manager" where
  "adopt_lock i n st m = m\<lparr>services := AList.update i \<lparr>e_svc = n, e_state = st\<rparr> (services m)\<rparr>"

subsection \<open>Actors and callers\<close>

text \<open>
  Where an actor is: waiting in its \<^verbatim>\<open>select\<close>, about to take the manager's lock for a report, about to
  emit the event, about to reply, on its way out, or gone (its \<^verbatim>\<open>done\<close> channel closed).  A report or an
  event is followed by a reply to a caller, by the loop or by the way out.
\<close>

datatype cont = ThenReply nat "mgr_error option" bool | ThenLoop | ThenLeave

datatype pc =
    Waiting
  | Reporting SandboxState cont
  | Emitting SandboxState cont
  | Replying nat "mgr_error option" bool
  | Leaving
  | Gone

record 'v actor =
  service :: "'v Service"
  pc :: pc

fun resume :: "cont \<Rightarrow> pc" where
  "resume (ThenReply t err exit) = Replying t err exit"
| "resume ThenLoop = Waiting"
| "resume ThenLeave = Leaving"

definition after_state :: "SandboxState option \<Rightarrow> cont \<Rightarrow> pc" where
  "after_state rep k = (case rep of None \<Rightarrow> resume k | Some st \<Rightarrow> Reporting st k)"

text \<open>
  Where a caller is.  \<^verbatim>\<open>do\<close> is in two parts, sending the command and waiting for the reply; then come
  the rest of \<^verbatim>\<open>Create\<close> and \<^verbatim>\<open>Remove\<close> and the two halves of the audit.
\<close>

datatype op = OpCreate | OpStop | OpRemove

datatype caller =
    Sending op string nat command
  | AwaitingReply op string nat
  | CreateFailed string nat mgr_error
  | Reaping string
  | Releasing string "mgr_error option"
  | AuditListed "string list"
  | AuditReaping string "string list"
  | AuditReleasing string "string list"
  | AuditEmitting "string list"
  | Returned "mgr_error option"

text \<open>What a caller does with the outcome of \<^verbatim>\<open>do\<close>.\<close>

fun after_do :: "op \<Rightarrow> string \<Rightarrow> nat \<Rightarrow> mgr_error option \<Rightarrow> caller" where
  "after_do OpCreate i n None = Returned None"
| "after_do OpCreate i n (Some e) = CreateFailed i n e"
| "after_do OpStop i n err = Returned (if err = Some errServiceExited then None else err)"
| "after_do OpRemove i n err = (if err = Some errServiceExited then Reaping i else Releasing i err)"

fun next_orphan :: "string list \<Rightarrow> caller" where
  "next_orphan [] = Returned None"
| "next_orphan (i # is) = AuditReaping i is"

record ('v, 'h) sys =
  mgr :: Manager
  actors :: "'v actor list"
  callers :: "caller list"
  host :: 'h

definition set_actor :: "nat \<Rightarrow> 'v Service \<Rightarrow> pc \<Rightarrow> ('v, 'h) sys \<Rightarrow> ('v, 'h) sys" where
  "set_actor n s p x = x\<lparr>actors := (actors x)[n := \<lparr>service = s, pc = p\<rparr>]\<rparr>"

definition set_caller :: "nat \<Rightarrow> caller \<Rightarrow> ('v, 'h) sys \<Rightarrow> ('v, 'h) sys" where
  "set_caller t c x = x\<lparr>callers := (callers x)[t := c]\<rparr>"

definition add_caller :: "caller \<Rightarrow> ('v, 'h) sys \<Rightarrow> ('v, 'h) sys" where
  "add_caller c x = x\<lparr>callers := callers x @ [c]\<rparr>"

definition add_actor :: "'v Service \<Rightarrow> ('v, 'h) sys \<Rightarrow> ('v, 'h) sys" where
  "add_actor s x = x\<lparr>actors := actors x @ [\<lparr>service = s, pc = Waiting\<rparr>]\<rparr>"

definition actor_at :: "('v, 'h) sys \<Rightarrow> nat \<Rightarrow> 'v Service \<Rightarrow> pc \<Rightarrow> bool" where
  "actor_at x n s p \<longleftrightarrow> n < length (actors x) \<and> actors x ! n = \<lparr>service = s, pc = p\<rparr>"

definition caller_at :: "('v, 'h) sys \<Rightarrow> nat \<Rightarrow> caller \<Rightarrow> bool" where
  "caller_at x t c \<longleftrightarrow> t < length (callers x) \<and> callers x ! t = c"

definition is_gone :: "('v, 'h) sys \<Rightarrow> nat \<Rightarrow> bool" where
  "is_gone x n \<longleftrightarrow> n < length (actors x) \<and> pc (actors x ! n) = Gone"

subsection \<open>Steps\<close>

text \<open>
  The VM operations, the reaping and what they find on the host are whatever they are at that step.
  A panic in an actor leaves its VM and the host in any state; the deferred handler marks it \<^verbatim>\<open>DEAD\<close>.
\<close>

inductive mgr_step :: "(string \<Rightarrow> bool) \<Rightarrow> ('v, 'h) sys \<Rightarrow> ('v, 'h) sys \<Rightarrow> bool" for parse :: "string \<Rightarrow> bool" where
  create_returns: "Create_lock parse inp (length (actors x)) (mgr x) = (Some r, m)
      \<Longrightarrow> mgr_step parse x (add_caller (Returned r) (x\<lparr>mgr := m\<rparr>))"
| create_registers: "Create_lock parse inp (length (actors x)) (mgr x) = (None, m)
      \<Longrightarrow> mgr_step parse x (add_caller (Sending OpCreate (in_ID inp) (length (actors x)) (CmdCreate inp))
             (add_actor (newService (in_ID inp)) (x\<lparr>mgr := m\<rparr>)))"
| stop_returns: "Stop_lock i (mgr x) = Inl e \<Longrightarrow> mgr_step parse x (add_caller (Returned (Some e)) x)"
| stop_sends: "Stop_lock i (mgr x) = Inr n \<Longrightarrow> mgr_step parse x (add_caller (Sending OpStop i n CmdStop) x)"
| remove_returns: "Remove_lock parse i (mgr x) = (Inl e, m)
      \<Longrightarrow> mgr_step parse x (add_caller (Returned (Some e)) (x\<lparr>mgr := m\<rparr>))"
| remove_sends: "Remove_lock parse i (mgr x) = (Inr n, m)
      \<Longrightarrow> mgr_step parse x (add_caller (Sending OpRemove i n CmdRemove) (x\<lparr>mgr := m\<rparr>))"
| command: "caller_at x t (Sending op i n cmd) \<Longrightarrow> actor_at x n s Waiting
      \<Longrightarrow> handle_cmd ops cmd s (host x) = ((exit, err, rep, s'), h)
      \<Longrightarrow> mgr_step parse x (set_caller t (AwaitingReply op i n)
             (set_actor n s' (after_state rep (ThenReply t err exit)) (x\<lparr>host := h\<rparr>)))"
| command_panics: "caller_at x t (Sending op i n cmd) \<Longrightarrow> actor_at x n s Waiting
      \<Longrightarrow> setState StateDead (s\<lparr>svc_vm := v\<rparr>) = (rep, s')
      \<Longrightarrow> mgr_step parse x (set_caller t (AwaitingReply op i n) (set_actor n s' (after_state rep ThenLeave) (x\<lparr>host := h\<rparr>)))"
| nobody_home: "caller_at x t (Sending op i n cmd) \<Longrightarrow> is_gone x n
      \<Longrightarrow> mgr_step parse x (set_caller t (after_do op i n (Some errServiceExited)) x)"
| replies: "actor_at x n s (Replying t err exit) \<Longrightarrow> caller_at x t (AwaitingReply op i n)
      \<Longrightarrow> mgr_step parse x (set_caller t (after_do op i n err) (set_actor n s (if exit then Leaving else Waiting) x))"
| no_reply: "caller_at x t (AwaitingReply op i n) \<Longrightarrow> is_gone x n
      \<Longrightarrow> mgr_step parse x (set_caller t (after_do op i n (Some errServiceExited)) x)"
| vm_exits: "actor_at x n s Waiting \<Longrightarrow> svc_exited s \<Longrightarrow> on_exited s = (rep, s')
      \<Longrightarrow> mgr_step parse x (set_actor n s' (after_state rep ThenLoop) x)"
| polls: "actor_at x n s Waiting \<Longrightarrow> poll ops s (host x) = ((rep, s'), h)
      \<Longrightarrow> mgr_step parse x (set_actor n s' (after_state rep ThenLoop) (x\<lparr>host := h\<rparr>))"
| poll_panics: "actor_at x n s Waiting \<Longrightarrow> setState StateDead s = (rep, s')
      \<Longrightarrow> mgr_step parse x (set_actor n s' (after_state rep ThenLeave) (x\<lparr>host := h\<rparr>))"
| shut_down: "actor_at x n s Waiting \<Longrightarrow> mgr_step parse x (set_actor n s Leaving x)"
| reports: "actor_at x n s (Reporting st k) \<Longrightarrow> report_lock (svc_id s) n st (mgr x) = (ok, m)
      \<Longrightarrow> mgr_step parse x (set_actor n s (if ok then Emitting st k else resume k) (x\<lparr>mgr := m\<rparr>))"
| emits: "actor_at x n s (Emitting st k)
      \<Longrightarrow> mgr_step parse x (set_actor n s (resume k) (x\<lparr>mgr := emit (svc_id s) st now (mgr x)\<rparr>))"
| leaves: "actor_at x n s Leaving \<Longrightarrow> mgr_step parse x (set_actor n s Gone x)"
| create_drops: "caller_at x t (CreateFailed i n e)
      \<Longrightarrow> mgr_step parse x (set_caller t (Returned (Some e)) (x\<lparr>mgr := Create_drop i n (mgr x)\<rparr>))"
| reaps: "caller_at x t (Reaping i) \<Longrightarrow> reap i (host x) = (err, h)
      \<Longrightarrow> mgr_step parse x (set_caller t (Releasing i err) (x\<lparr>host := h\<rparr>))"
| releases: "caller_at x t (Releasing i err)
      \<Longrightarrow> mgr_step parse x (set_caller t (Returned err) (x\<lparr>mgr := release i (mgr x)\<rparr>))"
| audit_lists: "listDisk (host x) = ids \<Longrightarrow> mgr_step parse x (add_caller (AuditListed ids) x)"
| audit_claims: "caller_at x t (AuditListed ids) \<Longrightarrow> claim_orphans ids (mgr x) = (orphans, m)
      \<Longrightarrow> mgr_step parse x (set_caller t (next_orphan orphans) (x\<lparr>mgr := m\<rparr>))"
| audit_reaps: "caller_at x t (AuditReaping i is) \<Longrightarrow> reap i (host x) = (err :: mgr_error option, h)
      \<Longrightarrow> mgr_step parse x (set_caller t (AuditReleasing i is) (x\<lparr>host := h\<rparr>))"
| audit_releases: "caller_at x t (AuditReleasing i is)
      \<Longrightarrow> mgr_step parse x (set_caller t (next_orphan is) (x\<lparr>mgr := release i (mgr x)\<rparr>))"
| audit_checks: "checkLiveness_lock (is_gone x) (mgr x) = (dead, m)
      \<Longrightarrow> mgr_step parse x (add_caller (AuditEmitting dead) (x\<lparr>mgr := m\<rparr>))"
| audit_emits: "caller_at x t (AuditEmitting (i # is))
      \<Longrightarrow> mgr_step parse x (set_caller t (AuditEmitting is) (x\<lparr>mgr := emit i StateDead now (mgr x)\<rparr>))"
| sets_capacity: "mgr_step parse x (x\<lparr>mgr := SetCapacity n (mgr x)\<rparr>)"
| forwards: "mgr_events (mgr x) = c # cs \<Longrightarrow> mgr_step parse x (x\<lparr>mgr := (mgr x)\<lparr>mgr_events := cs\<rparr>\<rparr>)"

subsection \<open>Starting up\<close>

definition init_sys :: "'h \<Rightarrow> ('v, 'h) sys" where
  "init_sys h = \<lparr>mgr = newManager, actors = [], callers = [], host = h\<rparr>"

definition adopt_vm :: "string \<Rightarrow> 'v \<Rightarrow> SandboxState \<Rightarrow> ('v, 'h) sys \<Rightarrow> ('v, 'h) sys" where
  "adopt_vm i v st x =
     add_actor (svc_adopt v st (newService i)) (x\<lparr>mgr := adopt_lock i (length (actors x)) st (mgr x)\<rparr>)"

fun recover_each ::
    "(string \<Rightarrow> 'h \<Rightarrow> vm_error + 'v) \<Rightarrow> (string \<Rightarrow> 'h \<Rightarrow> mgr_error option \<times> 'h) \<Rightarrow> ('v \<Rightarrow> 'h \<Rightarrow> SandboxState option \<times> 'h)
       \<Rightarrow> string list \<Rightarrow> ('v, 'h) sys \<Rightarrow> nat \<times> ('v, 'h) sys" where
  "recover_each att reap query [] x = (0, x)"
| "recover_each att reap query (i # is) x =
     (case att i (host x) of
        Inl e \<Rightarrow> recover_each att reap query is (x\<lparr>host := snd (reap i (host x))\<rparr>)
      | Inr v \<Rightarrow>
          (case query v (host x) of
             (answer, h) \<Rightarrow>
               (case recover_each att reap query is
                       (adopt_vm i v (case answer of None \<Rightarrow> StateUnknown | Some st \<Rightarrow> st) (x\<lparr>host := h\<rparr>)) of
                  (adopted, x1) \<Rightarrow> (Suc adopted, x1))))"

definition Recover ::
    "(string \<Rightarrow> 'h \<Rightarrow> vm_error + 'v) \<Rightarrow> (string \<Rightarrow> 'h \<Rightarrow> mgr_error option \<times> 'h) \<Rightarrow> ('v \<Rightarrow> 'h \<Rightarrow> SandboxState option \<times> 'h)
       \<Rightarrow> ('h \<Rightarrow> unit + string list) \<Rightarrow> ('v, 'h) sys \<Rightarrow> (unit + nat) \<times> ('v, 'h) sys" where
  "Recover att reap query listDisk x =
     (case listDisk (host x) of
        Inl e \<Rightarrow> (Inl e, x)
      | Inr ids \<Rightarrow> (case recover_each att reap query ids x of (adopted, x1) \<Rightarrow> (Inr adopted, x1)))"

end
