(* ===== verification/Manager_Ownership.thy ===== *)
theory Manager_Ownership
  imports Sandbox_Manager
begin

text \<open>
  The ownership rule of \<^verbatim>\<open>manager.go\<close>: an identifier in \<^verbatim>\<open>services\<close> or \<^verbatim>\<open>deleting\<close> has one owner, the only one that
  touches what the sandbox has on the host.  The invariant is stated on a view of the system that
  forgets states, events and VMs: who owns which identifier, what is being deleted, where the actors
  and the callers are.
\<close>

subsection \<open>The view and its invariant\<close>

definition owned :: "Manager \<Rightarrow> (string \<times> nat) list" where
  "owned m = map (\<lambda>(i, e). (i, e_svc e)) (services m)"

definition places :: "'v actor list \<Rightarrow> (string \<times> pc) list" where
  "places as = map (\<lambda>a. (svc_id (service a), pc a)) as"

definition live :: "pc \<Rightarrow> bool" where
  "live p \<longleftrightarrow> p \<noteq> Leaving \<and> p \<noteq> Gone"

text \<open>The identifiers of \<^verbatim>\<open>deleting\<close> a caller answers for.\<close>

fun held :: "caller \<Rightarrow> string list" where
  "held (Sending op i n cmd) = (if op = OpRemove then [i] else [])"
| "held (AwaitingReply op i n) = (if op = OpRemove then [i] else [])"
| "held (Reaping i) = [i]"
| "held (Releasing i err) = [i]"
| "held (AuditReaping i is) = i # is"
| "held (AuditReleasing i is) = i # is"
| "held _ = []"

text \<open>A caller that has taken actor \<open>n\<close> of \<open>i\<close> out of the map and has not heard of it yet.\<close>

fun removing :: "string \<Rightarrow> nat \<Rightarrow> caller \<Rightarrow> bool" where
  "removing i n (Sending op j k cmd) \<longleftrightarrow> op = OpRemove \<and> j = i \<and> k = n"
| "removing i n (AwaitingReply op j k) \<longleftrightarrow> op = OpRemove \<and> j = i \<and> k = n"
| "removing i n _ \<longleftrightarrow> False"

fun matching :: "op \<Rightarrow> command \<Rightarrow> bool" where
  "matching OpCreate cmd \<longleftrightarrow> (\<exists>inp. cmd = CmdCreate inp)"
| "matching OpStop cmd \<longleftrightarrow> cmd = CmdStop"
| "matching OpRemove cmd \<longleftrightarrow> cmd = CmdRemove"

fun caller_ok :: "(string \<times> pc) list \<Rightarrow> caller \<Rightarrow> bool" where
  "caller_ok ps (Sending op i n cmd) \<longleftrightarrow> n < length ps \<and> fst (ps ! n) = i \<and> matching op cmd"
| "caller_ok ps (AwaitingReply op i n) \<longleftrightarrow> n < length ps \<and> fst (ps ! n) = i"
| "caller_ok ps (CreateFailed i n e) \<longleftrightarrow> n < length ps \<and> \<not> live (snd (ps ! n))"
| "caller_ok ps _ \<longleftrightarrow> True"

fun pending_cont :: "cont \<Rightarrow> (nat \<times> mgr_error option \<times> bool) option" where
  "pending_cont (ThenReply t err exit) = Some (t, err, exit)"
| "pending_cont _ = None"

fun pending :: "pc \<Rightarrow> (nat \<times> mgr_error option \<times> bool) option" where
  "pending (Reporting st k) = pending_cont k"
| "pending (Emitting st k) = pending_cont k"
| "pending (Replying t err exit) = Some (t, err, exit)"
| "pending _ = None"

text \<open>After a removal, or a create that failed, the actor ends.\<close>

definition ends :: "op \<Rightarrow> mgr_error option \<Rightarrow> bool \<Rightarrow> bool" where
  "ends op err exit \<longleftrightarrow> (op = OpRemove \<longrightarrow> exit) \<and> (op = OpCreate \<longrightarrow> err \<noteq> None \<longrightarrow> exit)"

definition replies_ok :: "(string \<times> pc) list \<Rightarrow> caller list \<Rightarrow> bool" where
  "replies_ok ps cs \<longleftrightarrow>
     (\<forall>n t err exit. n < length ps \<longrightarrow> pending (snd (ps ! n)) = Some (t, err, exit) \<longrightarrow>
        t < length cs \<and> (\<exists>op. cs ! t = AwaitingReply op (fst (ps ! n)) n \<and> ends op err exit))"

definition owners_ok :: "(string \<times> nat) list \<Rightarrow> (string \<times> pc) list \<Rightarrow> caller list \<Rightarrow> bool" where
  "owners_ok os ps cs \<longleftrightarrow>
     (\<forall>n. n < length ps \<longrightarrow> live (snd (ps ! n)) \<longrightarrow>
        (fst (ps ! n), n) \<in> set os \<or> (\<exists>c \<in> set cs. removing (fst (ps ! n)) n c))"

definition own_inv :: "(string \<times> nat) list \<Rightarrow> string list \<Rightarrow> (string \<times> pc) list \<Rightarrow> caller list \<Rightarrow> bool" where
  "own_inv os del ps cs \<longleftrightarrow>
     distinct (map fst os) \<and> distinct del \<and> set (map fst os) \<inter> set del = {}
     \<and> mset del = mset (concat (map held cs))
     \<and> (\<forall>(i, n) \<in> set os. n < length ps \<and> fst (ps ! n) = i)
     \<and> (\<forall>c \<in> set cs. caller_ok ps c)
     \<and> owners_ok os ps cs \<and> replies_ok ps cs"

lemma own_invD:
  assumes "own_inv os del ps cs"
  shows "distinct (map fst os)" "distinct del" "set (map fst os) \<inter> set del = {}"
    "mset del = mset (concat (map held cs))"
    "\<And>i n. (i, n) \<in> set os \<Longrightarrow> n < length ps \<and> fst (ps ! n) = i"
    "\<And>c. c \<in> set cs \<Longrightarrow> caller_ok ps c"
    "owners_ok os ps cs" "replies_ok ps cs"
  using assms unfolding own_inv_def by auto

lemma own_owner:
  assumes "own_inv os del ps cs" and "n < length ps" and "live (snd (ps ! n))"
  obtains "(fst (ps ! n), n) \<in> set os" | c where "c \<in> set cs" "removing (fst (ps ! n)) n c"
  using own_invD(7) [OF assms(1)] assms(2,3) unfolding owners_ok_def by auto

lemma own_reply:
  assumes "own_inv os del ps cs" and "n < length ps" and "pending (snd (ps ! n)) = Some (t, err, exit)"
  obtains op where "t < length cs" "cs ! t = AwaitingReply op (fst (ps ! n)) n" "ends op err exit"
  using own_invD(8) [OF assms(1)] assms(2,3) unfolding replies_ok_def by blast

lemma own_invI:
  assumes "distinct (map fst os)" "distinct del" "set (map fst os) \<inter> set del = {}"
    "mset del = mset (concat (map held cs))"
    "\<And>i n. (i, n) \<in> set os \<Longrightarrow> n < length ps \<and> fst (ps ! n) = i"
    "\<And>c. c \<in> set cs \<Longrightarrow> caller_ok ps c"
    "\<And>n. n < length ps \<Longrightarrow> live (snd (ps ! n)) \<Longrightarrow>
       (fst (ps ! n), n) \<in> set os \<or> (\<exists>c \<in> set cs. removing (fst (ps ! n)) n c)"
    "\<And>n t err exit. n < length ps \<Longrightarrow> pending (snd (ps ! n)) = Some (t, err, exit) \<Longrightarrow>
       t < length cs \<and> (\<exists>op. cs ! t = AwaitingReply op (fst (ps ! n)) n \<and> ends op err exit)"
  shows "own_inv os del ps cs"
  using assms unfolding own_inv_def owners_ok_def replies_ok_def by auto

subsection \<open>Changing one caller or one actor\<close>

lemma mset_concat_update:
  "t < length cs \<Longrightarrow>
   mset (concat (map f (cs[t := c]))) + mset (f (cs ! t)) = mset (concat (map f cs)) + mset (f c)"
proof (induction cs arbitrary: t)
  case (Cons x cs)
  show ?case
  proof (cases t)
    case 0
    then show ?thesis by (simp add: ac_simps)
  next
    case (Suc u)
    with Cons.prems have "u < length cs" by simp
    from Cons.IH [OF this] Suc show ?thesis by (simp add: ac_simps)
  qed
qed simp

lemma mset_concat_same:
  "t < length cs \<Longrightarrow> mset (f c) = mset (f (cs ! t)) \<Longrightarrow> mset (concat (map f (cs[t := c]))) = mset (concat (map f cs))"
  using mset_concat_update [of t cs f c] by simp

lemma removing_held: "removing i n c \<Longrightarrow> i \<in> set (held c)"
  by (cases "(i, n, c)" rule: removing.cases) auto

lemma in_update: "t < length cs \<Longrightarrow> P c \<Longrightarrow> \<exists>x \<in> set (cs[t := c]). P x"
  by (metis set_update_memI)

lemma in_update_other:
  assumes "x \<in> set cs" and "P x" and "P (cs ! t) \<Longrightarrow> P c"
  shows "\<exists>y \<in> set (cs[t := c]). P y"
proof -
  from assms(1) obtain k where k: "k < length cs" "cs ! k = x" by (auto simp: in_set_conv_nth)
  show ?thesis
  proof (cases "k = t")
    case True
    with k assms(2,3) show ?thesis by (metis set_update_memI)
  next
    case False
    with k have "cs[t := c] ! k = x" by simp
    with k assms(2) show ?thesis by (metis length_list_update nth_mem)
  qed
qed

text \<open>A caller whose part in the invariant does not change.\<close>

lemma own_caller:
  assumes inv: "own_inv os del ps cs" and t: "t < length cs" and same: "mset (held c) = mset (held (cs ! t))"
    and ok: "caller_ok ps c" and rem: "\<And>i n. removing i n (cs ! t) \<Longrightarrow> removing i n c \<or> \<not> live (snd (ps ! n))"
    and pend: "\<And>n err exit. n < length ps \<Longrightarrow> pending (snd (ps ! n)) \<noteq> Some (t, err, exit)"
  shows "own_inv os del ps (cs[t := c])"
proof (rule own_invI)
  show "mset del = mset (concat (map held (cs[t := c])))"
    using own_invD(4) [OF inv] mset_concat_same [OF t same] by simp
  show "caller_ok ps x" if "x \<in> set (cs[t := c])" for x
    using that ok own_invD(6) [OF inv] set_update_subset_insert [of cs t c] by blast
next
  fix n assume n: "n < length ps" "live (snd (ps ! n))"
  from inv n show "(fst (ps ! n), n) \<in> set os \<or> (\<exists>c \<in> set (cs[t := c]). removing (fst (ps ! n)) n c)"
  proof (cases rule: own_owner)
    case (2 x)
    with n rem have "\<exists>y \<in> set (cs[t := c]). removing (fst (ps ! n)) n y"
      by (intro in_update_other) auto
    then show ?thesis by blast
  qed simp
next
  fix n u err exit assume n: "n < length ps" and p: "pending (snd (ps ! n)) = Some (u, err, exit)"
  from inv n p obtain op where "u < length cs" "cs ! u = AwaitingReply op (fst (ps ! n)) n" "ends op err exit"
    by (rule own_reply)
  moreover have "u \<noteq> t" using pend n p by blast
  ultimately show "u < length (cs[t := c]) \<and> (\<exists>op. cs[t := c] ! u = AwaitingReply op (fst (ps ! n)) n \<and> ends op err exit)"
    by simp
qed (use own_invD [OF inv] in auto)

text \<open>An actor that moves without a new claim or a new reply.\<close>

lemma own_actor:
  assumes inv: "own_inv os del ps cs" and n: "n < length ps" and "ps ! n = (i, p)" and alive: "live p' \<Longrightarrow> live p"
    and pend: "pending p' = None \<or> pending p' = pending p"
  shows "own_inv os del (ps[n := (i, p')]) cs"
proof (rule own_invI)
  fix j m assume "(j, m) \<in> set os"
  with own_invD(5) [OF inv, of j m] assms(3) show "m < length (ps[n := (i, p')]) \<and> fst (ps[n := (i, p')] ! m) = j"
    by (cases "m = n") auto
next
  fix c assume "c \<in> set cs"
  with own_invD(6) [OF inv] have "caller_ok ps c" by blast
  with assms(3) alive n show "caller_ok (ps[n := (i, p')]) c"
    by (cases "(ps, c)" rule: caller_ok.cases) (auto simp: nth_list_update)
next
  fix m assume m: "m < length (ps[n := (i, p')])" "live (snd (ps[n := (i, p')] ! m))"
  then have "m < length ps" "live (snd (ps ! m))" "fst (ps[n := (i, p')] ! m) = fst (ps ! m)"
    using assms(3) alive n by (auto simp: nth_list_update split: if_splits)
  with own_owner [OF inv, of m] show "(fst (ps[n := (i, p')] ! m), m) \<in> set os \<or> (\<exists>c \<in> set cs. removing (fst (ps[n := (i, p')] ! m)) m c)"
    by metis
next
  fix m t err exit assume m: "m < length (ps[n := (i, p')])" "pending (snd (ps[n := (i, p')] ! m)) = Some (t, err, exit)"
  then have "m < length ps" "pending (snd (ps ! m)) = Some (t, err, exit)" "fst (ps[n := (i, p')] ! m) = fst (ps ! m)"
    using assms(3) pend n by (auto simp: nth_list_update split: if_splits)
  with own_reply [OF inv, of m t err exit]
  show "t < length cs \<and> (\<exists>op. cs ! t = AwaitingReply op (fst (ps[n := (i, p')] ! m)) m \<and> ends op err exit)" by metis
qed (use own_invD [OF inv] in auto)

text \<open>A caller hands its command to a waiting actor.\<close>

lemma own_command:
  assumes inv: "own_inv os del ps cs" and t: "t < length cs" and cs: "cs ! t = Sending op i n cmd"
    and ps: "ps ! n = (i, Waiting)" and pend: "pending p' = None \<or> (\<exists>err exit. pending p' = Some (t, err, exit) \<and> ends op err exit)"
  shows "own_inv os del (ps[n := (i, p')]) (cs[t := AwaitingReply op i n])"
proof -
  have n: "n < length ps" using own_invD(6) [OF inv nth_mem [OF t]] cs by simp
  have quiet: "pending (snd (ps ! m)) \<noteq> Some (t, err, exit)" if "m < length ps" for m err exit
  proof
    assume "pending (snd (ps ! m)) = Some (t, err, exit)"
    from own_reply [OF inv that this] cs show False by auto
  qed
  let ?cs = "cs[t := AwaitingReply op i n]"
  have sent: "own_inv os del ps ?cs"
    using own_caller [OF inv t, of "AwaitingReply op i n"] quiet n ps cs by simp
  show ?thesis
  proof (cases "pending p' = None")
    case True
    with own_actor [OF sent n ps, of p'] show ?thesis by (simp add: live_def)
  next
    case False
    with pend obtain err exit where p': "pending p' = Some (t, err, exit)" and ends: "ends op err exit" by blast
    have base: "own_inv os del (ps[n := (i, Replying t err exit)]) ?cs"
    proof (rule own_invI)
      fix m u e x assume m: "m < length (ps[n := (i, Replying t err exit)])"
        "pending (snd (ps[n := (i, Replying t err exit)] ! m)) = Some (u, e, x)"
      show "u < length ?cs \<and> (\<exists>op. ?cs ! u = AwaitingReply op (fst (ps[n := (i, Replying t err exit)] ! m)) m \<and> ends op e x)"
      proof (cases "m = n")
        case True
        with m n t ends show ?thesis by auto
      next
        case False
        with m have "m < length ps" "pending (snd (ps ! m)) = Some (u, e, x)" by simp_all
        from own_reply [OF sent this] False show ?thesis by (metis nth_list_update_neq)
      qed
    next
      fix m assume m: "m < length (ps[n := (i, Replying t err exit)])" "live (snd (ps[n := (i, Replying t err exit)] ! m))"
      then have "m < length ps" "live (snd (ps ! m))" "fst (ps[n := (i, Replying t err exit)] ! m) = fst (ps ! m)"
        using ps n by (auto simp: nth_list_update live_def split: if_splits)
      with own_owner [OF sent, of m]
      show "(fst (ps[n := (i, Replying t err exit)] ! m), m) \<in> set os
          \<or> (\<exists>c \<in> set ?cs. removing (fst (ps[n := (i, Replying t err exit)] ! m)) m c)" by metis
    next
      fix c assume "c \<in> set ?cs"
      with own_invD(6) [OF sent] have "caller_ok ps c" by blast
      with ps n show "caller_ok (ps[n := (i, Replying t err exit)]) c"
        by (cases "(ps, c)" rule: caller_ok.cases) (auto simp: nth_list_update live_def)
    next
      fix j m assume "(j, m) \<in> set os"
      with own_invD(5) [OF inv, of j m] ps
      show "m < length (ps[n := (i, Replying t err exit)]) \<and> fst (ps[n := (i, Replying t err exit)] ! m) = j"
        by (cases "m = n") auto
    qed (use own_invD [OF sent] in auto)
    from own_actor [OF base, of n i "Replying t err exit" p'] n p' show ?thesis by (simp add: live_def)
  qed
qed

text \<open>A caller gives up on an actor that is gone.\<close>

lemma after_do_held: "mset (held (after_do op i n err)) = mset (if op = OpRemove then [i] else [])"
  by (cases "(op, i, n, err)" rule: after_do.cases) auto

lemma after_do_removing [simp]: "\<not> removing j m (after_do op i n err)"
  by (cases "(op, i, n, err)" rule: after_do.cases) auto

lemma after_do_ok: "caller_ok ps (after_do op i n err) \<longleftrightarrow> (op = OpCreate \<and> err \<noteq> None \<longrightarrow> n < length ps \<and> \<not> live (snd (ps ! n)))"
  by (cases "(op, i, n, err)" rule: after_do.cases) auto

lemma own_unanswered:
  assumes inv: "own_inv os del ps cs" and t: "t < length cs"
    and cs: "cs ! t = AwaitingReply op i n \<or> (\<exists>cmd. cs ! t = Sending op i n cmd)" and dead: "\<not> live (snd (ps ! n))"
    and none: "pending (snd (ps ! n)) = None"
  shows "own_inv os del ps (cs[t := after_do op i n err])"
proof (rule own_caller [OF inv t])
  have ok: "caller_ok ps (cs ! t)" using own_invD(6) [OF inv nth_mem [OF t]] .
  then have n: "n < length ps" "fst (ps ! n) = i" using cs by auto
  show "mset (held (after_do op i n err)) = mset (held (cs ! t))"
    using cs by (auto simp: after_do_held)
  show "caller_ok ps (after_do op i n err)"
    using n dead by (simp add: after_do_ok)
  show "removing j m (after_do op i n err) \<or> \<not> live (snd (ps ! m))" if "removing j m (cs ! t)" for j m
  proof -
    have "m = n" using cs that by (elim disjE exE) simp_all
    with dead show ?thesis by simp
  qed
  show "pending (snd (ps ! m)) \<noteq> Some (t, e, exit)" if "m < length ps" for m e exit
  proof
    assume "pending (snd (ps ! m)) = Some (t, e, exit)"
    from inv that this obtain op' where "cs ! t = AwaitingReply op' (fst (ps ! m)) m" by (rule own_reply)
    with cs have "m = n" by (elim disjE exE) simp_all
    with none \<open>pending (snd (ps ! m)) = Some (t, e, exit)\<close> show False by simp
  qed
qed

text \<open>An actor replies to its caller.\<close>

lemma own_replied:
  assumes inv: "own_inv os del ps cs" and n: "n < length ps" and ps: "ps ! n = (j, Replying t err exit)"
    and cs: "t < length cs" "cs ! t = AwaitingReply op i n"
  shows "own_inv os del (ps[n := (j, if exit then Leaving else Waiting)]) (cs[t := after_do op i n err])"
proof -
  let ?p = "if exit then Leaving else Waiting" and ?c = "after_do op i n err"
  have ends: "ends op err exit" using own_reply [OF inv n, of t err exit] ps cs by auto
  have moved: "own_inv os del (ps[n := (j, ?p)]) cs"
    by (rule own_actor [OF inv n ps]) (simp_all add: live_def)
  show ?thesis
  proof (rule own_caller [OF moved cs(1)])
    show "mset (held ?c) = mset (held (cs ! t))" using cs by (simp add: after_do_held)
    show "caller_ok (ps[n := (j, ?p)]) ?c" using n ends by (auto simp: after_do_ok ends_def live_def)
    show "removing k m ?c \<or> \<not> live (snd (ps[n := (j, ?p)] ! m))" if "removing k m (cs ! t)" for k m
      using that cs n ends by (auto simp: ends_def live_def)
    show "pending (snd (ps[n := (j, ?p)] ! m)) \<noteq> Some (t, e, x)" if "m < length (ps[n := (j, ?p)])" for m e x
    proof
      assume "pending (snd (ps[n := (j, ?p)] ! m)) = Some (t, e, x)"
      from own_reply [OF moved that this] cs have "m = n" by auto
      with n \<open>pending (snd (ps[n := (j, ?p)] ! m)) = Some (t, e, x)\<close> show False by (auto split: if_splits)
    qed
  qed
qed

subsection \<open>Changing the map\<close>

lemma own_new_caller:
  assumes inv: "own_inv os del ps cs" and "held c = []" and "caller_ok ps c"
  shows "own_inv os del ps (cs @ [c])"
proof (rule own_invI)
  fix n assume n: "n < length ps" "live (snd (ps ! n))"
  with own_owner [OF inv n] show "(fst (ps ! n), n) \<in> set os \<or> (\<exists>c \<in> set (cs @ [c]). removing (fst (ps ! n)) n c)"
    by (metis UnI1 set_append)
next
  fix n t err exit assume n: "n < length ps" "pending (snd (ps ! n)) = Some (t, err, exit)"
  from own_reply [OF inv n]
  show "t < length (cs @ [c]) \<and> (\<exists>op. (cs @ [c]) ! t = AwaitingReply op (fst (ps ! n)) n \<and> ends op err exit)"
    by (metis length_append_singleton less_SucI nth_append)
qed (use own_invD [OF inv] assms(2,3) in auto)

lemma own_drop:
  assumes inv: "own_inv os del ps cs" and "\<And>n. (i, n) \<in> set os \<Longrightarrow> \<not> live (snd (ps ! n))"
  shows "own_inv (filter (\<lambda>(j, n). j \<noteq> i) os) del ps cs"
proof (rule own_invI)
  show "distinct (map fst (filter (\<lambda>(j, n). j \<noteq> i) os))"
    using own_invD(1) [OF inv] by (rule distinct_map_filter)
  show "set (map fst (filter (\<lambda>(j, n). j \<noteq> i) os)) \<inter> set del = {}"
    using own_invD(3) [OF inv] by auto
next
  fix n assume n: "n < length ps" "live (snd (ps ! n))"
  from inv n show "(fst (ps ! n), n) \<in> set (filter (\<lambda>(j, n). j \<noteq> i) os) \<or> (\<exists>c \<in> set cs. removing (fst (ps ! n)) n c)"
  proof (cases rule: own_owner)
    case 1
    with n assms(2) [of n] have "fst (ps ! n) \<noteq> i" by auto
    with 1 show ?thesis by simp
  qed blast
qed (use own_invD [OF inv] in \<open>auto simp: own_invD(8) [OF inv, unfolded replies_ok_def]\<close>)

text \<open>An identifier moves from \<^verbatim>\<open>services\<close> to \<^verbatim>\<open>deleting\<close>, with its owner.\<close>

lemma own_remove:
  assumes inv: "own_inv os del ps cs" and mem: "(i, n) \<in> set os"
  shows "own_inv (filter (\<lambda>(j, n). j \<noteq> i) os) (del @ [i]) ps (cs @ [Sending OpRemove i n CmdRemove])"
proof (rule own_invI)
  have fresh: "i \<notin> set del" using own_invD(3) [OF inv] mem by force
  then show "distinct (del @ [i])" using own_invD(2) [OF inv] by simp
  show "distinct (map fst (filter (\<lambda>(j, n). j \<noteq> i) os))"
    using own_invD(1) [OF inv] by (rule distinct_map_filter)
  show "set (map fst (filter (\<lambda>(j, n). j \<noteq> i) os)) \<inter> set (del @ [i]) = {}"
    using own_invD(3) [OF inv] by auto
  show "mset (del @ [i]) = mset (concat (map held (cs @ [Sending OpRemove i n CmdRemove])))"
    using own_invD(4) [OF inv] by simp
  show "caller_ok ps c" if "c \<in> set (cs @ [Sending OpRemove i n CmdRemove])" for c
    using that own_invD(6) [OF inv] own_invD(5) [OF inv mem] by auto
next
  fix m assume m: "m < length ps" "live (snd (ps ! m))"
  from inv m show "(fst (ps ! m), m) \<in> set (filter (\<lambda>(j, n). j \<noteq> i) os)
      \<or> (\<exists>c \<in> set (cs @ [Sending OpRemove i n CmdRemove]). removing (fst (ps ! m)) m c)"
  proof (cases rule: own_owner)
    case 1
    show ?thesis
    proof (cases "fst (ps ! m) = i")
      case True
      with 1 mem own_invD(1) [OF inv] have "m = n" by (metis eq_key_imp_eq_value)
      with True show ?thesis by simp
    next
      case False
      with 1 show ?thesis by simp
    qed
  qed auto
next
  fix m t err exit assume m: "m < length ps" "pending (snd (ps ! m)) = Some (t, err, exit)"
  from own_reply [OF inv m]
  show "t < length (cs @ [Sending OpRemove i n CmdRemove])
      \<and> (\<exists>op. (cs @ [Sending OpRemove i n CmdRemove]) ! t = AwaitingReply op (fst (ps ! m)) m \<and> ends op err exit)"
    by (metis length_append_singleton less_SucI nth_append)
qed (use own_invD [OF inv] in auto)

lemma own_release:
  assumes inv: "own_inv os del ps cs" and t: "t < length cs" and held: "held (cs ! t) = i # held c" and ok: "caller_ok ps c"
    and "\<And>j n. \<not> removing j n (cs ! t)" and "\<And>op j n. cs ! t \<noteq> AwaitingReply op j n"
  shows "own_inv os (filter (\<lambda>j. j \<noteq> i) del) ps (cs[t := c])"
proof (rule own_invI)
  have "filter (\<lambda>j. j \<noteq> i) del = remove1 i del"
    using own_invD(2) [OF inv] by (simp add: distinct_remove1_removeAll removeAll_filter_not_eq)
      (metis (mono_tags, lifting) filter_cong)
  then have "mset (filter (\<lambda>j. j \<noteq> i) del) = mset del - {#i#}" by simp
  moreover have "mset (concat (map held (cs[t := c]))) + {#i#} = mset (concat (map held cs))"
    using mset_concat_update [OF t, of held c] held by simp
  ultimately show "mset (filter (\<lambda>j. j \<noteq> i) del) = mset (concat (map held (cs[t := c])))"
    using own_invD(4) [OF inv] by (metis add_diff_cancel_right')
  show "caller_ok ps x" if "x \<in> set (cs[t := c])" for x
    using that ok own_invD(6) [OF inv] set_update_subset_insert [of cs t c] by blast
next
  fix n assume n: "n < length ps" "live (snd (ps ! n))"
  from inv n show "(fst (ps ! n), n) \<in> set os \<or> (\<exists>c \<in> set (cs[t := c]). removing (fst (ps ! n)) n c)"
  proof (cases rule: own_owner)
    case (2 x)
    with assms(5) have "\<exists>y \<in> set (cs[t := c]). removing (fst (ps ! n)) n y"
      by (intro in_update_other) auto
    then show ?thesis by blast
  qed simp
next
  fix n u err exit assume n: "n < length ps" and p: "pending (snd (ps ! n)) = Some (u, err, exit)"
  from inv n p obtain op where "u < length cs" "cs ! u = AwaitingReply op (fst (ps ! n)) n" "ends op err exit"
    by (rule own_reply)
  moreover from this assms(6) have "u \<noteq> t" by auto
  ultimately show "u < length (cs[t := c]) \<and> (\<exists>op. cs[t := c] ! u = AwaitingReply op (fst (ps ! n)) n \<and> ends op err exit)"
    by simp
qed (use own_invD [OF inv] in auto)

lemma own_claim:
  assumes inv: "own_inv os del ps cs" and t: "t < length cs" and cs: "cs ! t = AuditListed ids"
    and new: "distinct new" "set new \<inter> set del = {}" "set new \<inter> set (map fst os) = {}"
  shows "own_inv os (del @ new) ps (cs[t := next_orphan new])"
proof (rule own_invI)
  have held: "held (next_orphan new) = new" by (cases new) auto
  show "mset (del @ new) = mset (concat (map held (cs[t := next_orphan new])))"
    using mset_concat_update [OF t, of held "next_orphan new"] own_invD(4) [OF inv] cs held by simp
  show "caller_ok ps x" if "x \<in> set (cs[t := next_orphan new])" for x
  proof -
    have "caller_ok ps (next_orphan new)" by (cases new) auto
    with that own_invD(6) [OF inv] set_update_subset_insert [of cs t "next_orphan new"] show ?thesis by blast
  qed
next
  fix n assume n: "n < length ps" "live (snd (ps ! n))"
  from inv n show "(fst (ps ! n), n) \<in> set os \<or> (\<exists>c \<in> set (cs[t := next_orphan new]). removing (fst (ps ! n)) n c)"
  proof (cases rule: own_owner)
    case (2 x)
    with cs have "\<exists>y \<in> set (cs[t := next_orphan new]). removing (fst (ps ! n)) n y"
      by (intro in_update_other) auto
    then show ?thesis by blast
  qed simp
next
  fix n u err exit assume n: "n < length ps" and p: "pending (snd (ps ! n)) = Some (u, err, exit)"
  from inv n p obtain op where "u < length cs" "cs ! u = AwaitingReply op (fst (ps ! n)) n" "ends op err exit"
    by (rule own_reply)
  moreover from this cs have "u \<noteq> t" by auto
  ultimately show "u < length (cs[t := next_orphan new]) \<and> (\<exists>op. cs[t := next_orphan new] ! u = AwaitingReply op (fst (ps ! n)) n \<and> ends op err exit)"
    by simp
qed (use own_invD [OF inv] new in auto)

lemma own_register:
  assumes inv: "own_inv os del ps cs" and "i \<notin> set (map fst os)" and "i \<notin> set del"
  shows "own_inv (os @ [(i, length ps)]) del (ps @ [(i, Waiting)]) cs"
proof (rule own_invI)
  fix j n assume "(j, n) \<in> set (os @ [(i, length ps)])"
  then show "n < length (ps @ [(i, Waiting)]) \<and> fst ((ps @ [(i, Waiting)]) ! n) = j"
    using own_invD(5) [OF inv, of j n] by (auto simp: nth_append)
next
  fix c assume "c \<in> set cs"
  with own_invD(6) [OF inv] have "caller_ok ps c" by blast
  then show "caller_ok (ps @ [(i, Waiting)]) c"
    by (cases "(ps, c)" rule: caller_ok.cases) (auto simp: nth_append)
next
  fix n assume n: "n < length (ps @ [(i, Waiting)])" "live (snd ((ps @ [(i, Waiting)]) ! n))"
  show "(fst ((ps @ [(i, Waiting)]) ! n), n) \<in> set (os @ [(i, length ps)])
      \<or> (\<exists>c \<in> set cs. removing (fst ((ps @ [(i, Waiting)]) ! n)) n c)"
  proof (cases "n < length ps")
    case True
    with n have "live (snd (ps ! n))" by (simp add: nth_append)
    from own_owner [OF inv True this] True show ?thesis by (auto simp: nth_append)
  next
    case False
    with n show ?thesis by (simp add: nth_append less_Suc_eq)
  qed
next
  fix n t err exit assume n: "n < length (ps @ [(i, Waiting)])" "pending (snd ((ps @ [(i, Waiting)]) ! n)) = Some (t, err, exit)"
  then have "n < length ps" "pending (snd (ps ! n)) = Some (t, err, exit)"
    by (auto simp: nth_append less_Suc_eq split: if_splits)
  from own_reply [OF inv this] this(1)
  show "t < length cs \<and> (\<exists>op. cs ! t = AwaitingReply op (fst ((ps @ [(i, Waiting)]) ! n)) n \<and> ends op err exit)"
    by (metis nth_append)
qed (use own_invD [OF inv] assms(2,3) in auto)

subsection \<open>The sections under the lock\<close>

lemma owned_update_new: "map_of al i = None \<Longrightarrow> map (\<lambda>(i, e). (i, f e)) (AList.update i e al) = map (\<lambda>(i, e). (i, f e)) al @ [(i, f e)]"
  by (induction al) (auto split: if_splits)

lemma owned_update_same:
  "map_of al i = Some e \<Longrightarrow> f e' = f e \<Longrightarrow> map (\<lambda>(i, e). (i, f e)) (AList.update i e' al) = map (\<lambda>(i, e). (i, f e)) al"
  by (induction al) (auto split: if_splits)

lemma owned_delete: "map (\<lambda>(i, e). (i, f e)) (AList.delete i al) = filter (\<lambda>(j, n). j \<noteq> i) (map (\<lambda>(i, e). (i, f e)) al)"
  by (induction al) (auto simp: AList.delete_eq)

lemma owned_None: "map_of (services m) i = None \<longleftrightarrow> i \<notin> set (map fst (owned m))"
  by (simp add: owned_def map_of_eq_None_iff image_image split_beta)

lemma owned_Some: "map_of (services m) i = Some e \<Longrightarrow> (i, e_svc e) \<in> set (owned m)"
  by (force simp: owned_def dest: map_of_SomeD)

lemma owned_services [simp]: "owned (m\<lparr>mgr_events := es\<rparr>) = owned m" "owned (m\<lparr>mgr_capacity := k\<rparr>) = owned m"
    "owned (m\<lparr>deleting := d\<rparr>) = owned m"
  by (simp_all add: owned_def)

lemma emit_view [simp]: "owned (emit i st now m) = owned m" "deleting (emit i st now m) = deleting m"
  by (simp_all add: emit_def)

lemma release_view [simp]: "owned (release i m) = owned m" "deleting (release i m) = filter (\<lambda>j. j \<noteq> i) (deleting m)"
  by (simp_all add: release_def)

lemma report_view: "report_lock i n st m = (ok, m') \<Longrightarrow> owned m' = owned m \<and> deleting m' = deleting m"
  by (auto simp: report_lock_def owned_def owned_update_same split: option.splits if_splits)

lemma checkLiveness_view: "checkLiveness_lock gone m = (dead, m') \<Longrightarrow> owned m' = owned m \<and> deleting m' = deleting m"
  by (auto simp: checkLiveness_lock_def owned_def)

lemma Create_view:
  assumes "Create_lock parse inp n m = (r, m')"
  shows "deleting m' = deleting m"
    and "r = None \<Longrightarrow> in_ID inp \<notin> set (map fst (owned m)) \<and> in_ID inp \<notin> set (deleting m)
       \<and> owned m' = owned m @ [(in_ID inp, n)]"
    and "r \<noteq> None \<Longrightarrow> owned m' = owned m"
  using assms owned_None [of m "in_ID inp"]
  by (auto simp: Create_lock_def Let_def owned_def owned_update_new split: if_splits)

lemma Remove_view:
  assumes "Remove_lock parse i m = (r, m')"
  shows "case r of Inl e \<Rightarrow> owned m' = owned m \<and> deleting m' = deleting m
    | Inr n \<Rightarrow> (i, n) \<in> set (owned m) \<and> owned m' = filter (\<lambda>(j, n). j \<noteq> i) (owned m) \<and> deleting m' = deleting m @ [i]"
  using assms owned_Some [of m i]
  by (auto simp: Remove_lock_def owned_def owned_delete split: if_splits option.splits)

lemma Create_drop_view:
  "owned (Create_drop i n m) = (if map_of (owned m) i = Some n then filter (\<lambda>(j, n). j \<noteq> i) (owned m) else owned m)
   \<and> deleting (Create_drop i n m) = deleting m"
proof -
  have "map_of (owned m) i = map_option e_svc (map_of (services m) i)"
    by (simp add: owned_def map_of_map)
  then show ?thesis by (simp add: Create_drop_def owned_def owned_delete split: option.split)
qed

lemma claim_view:
  assumes "claim_orphans ids m = (new, m')"
  shows "owned m' = owned m \<and> deleting m' = deleting m @ new \<and> distinct new \<and> set new \<inter> set (deleting m) = {}
    \<and> set new \<inter> set (map fst (owned m)) = {}"
  using assms
proof (induction ids arbitrary: m new)
  case (Cons i ids)
  show ?case
  proof (cases "map_of (services m) i \<noteq> None \<or> i \<in> set (deleting m)")
    case True
    with Cons show ?thesis by (auto split: if_splits)
  next
    case False
    let ?m = "m\<lparr>deleting := deleting m @ [i]\<rparr>"
    obtain new' where rest: "claim_orphans ids ?m = (new', m')" and new: "new = i # new'"
      using Cons.prems False by (auto split: prod.splits)
    from Cons.IH [OF rest] False owned_None [of m i] show ?thesis unfolding new by auto
  qed
qed simp

subsection \<open>The actor\<close>

lemma setState_facts:
  "setState st s = (rep, s') \<Longrightarrow> svc_id s' = svc_id s \<and> svc_state s' = st
     \<and> rep = (if st = svc_state s then None else Some st)"
  by (auto simp: setState_def split: if_splits)

text \<open>The state to report is the new state when it changed, and \<^verbatim>\<open>DEAD\<close> is final.\<close>

definition moved :: "'v Service \<Rightarrow> SandboxState option \<Rightarrow> 'v Service \<Rightarrow> bool" where
  "moved s rep s' \<longleftrightarrow> svc_id s' = svc_id s \<and> (svc_state s = StateDead \<longrightarrow> svc_state s' = StateDead)
     \<and> rep = (if svc_state s' = svc_state s then None else Some (svc_state s'))"

lemma poll_moved: "poll ops s h = ((rep, s'), h') \<Longrightarrow> moved s rep s'"
  by (auto simp: moved_def poll_def dest!: setState_facts split: option.splits if_splits prod.splits)

lemma on_exited_moved: "on_exited s = (rep, s') \<Longrightarrow> moved s rep s'"
  by (auto simp: on_exited_def moved_def dest!: setState_facts)

lemma setState_Dead_moved: "setState StateDead s = (rep, s') \<Longrightarrow> moved s rep s'"
  by (auto simp: moved_def dest!: setState_facts)

lemma svc_create_moved:
  assumes "svc_create ops inp s h = ((err, rep, s'), h')"
  shows "moved s rep s'"
proof -
  have same: "moved s rep s' \<longleftrightarrow> moved (watch (s\<lparr>svc_vm := v\<rparr>)) rep s'" for v
    by (simp add: moved_def watch_def)
  have "moved s None s" "moved s None (s\<lparr>svc_vm := v\<rparr>)" for v by (simp_all add: moved_def)
  with assms show ?thesis
    by (auto simp: svc_create_def Let_def split: if_splits prod.splits sum.splits option.splits
          dest: poll_moved same [THEN iffD2])
qed

lemma handle_cmd_moved:
  assumes "handle_cmd ops cmd s h = ((exit, err, rep, s'), h')"
  shows "moved s rep s'" and "matching op cmd \<Longrightarrow> ends op err exit"
proof -
  have "moved s None s" by (simp add: moved_def)
  with assms show "moved s rep s'"
    by (cases cmd; auto simp: handle_cmd_def dest: svc_create_moved split: prod.splits option.splits)
  show "ends op err exit" if "matching op cmd"
    using assms that by (cases op; auto simp: ends_def handle_cmd_def split: prod.splits option.splits)
qed

subsection \<open>Every step keeps the invariant\<close>

definition mgr_inv :: "('v, 'h) sys \<Rightarrow> bool" where
  "mgr_inv x \<longleftrightarrow> own_inv (owned (mgr x)) (deleting (mgr x)) (places (actors x)) (callers x)"

lemma sys_parts [simp]:
  "mgr (set_actor n s p x) = mgr x" "callers (set_actor n s p x) = callers x" "host (set_actor n s p x) = host x"
  "mgr (set_caller t c x) = mgr x" "actors (set_caller t c x) = actors x" "callers (set_caller t c x) = (callers x)[t := c]"
  "mgr (add_caller c x) = mgr x" "actors (add_caller c x) = actors x" "callers (add_caller c x) = callers x @ [c]"
  "mgr (add_actor s x) = mgr x" "callers (add_actor s x) = callers x"
  "host (set_caller t c x) = host x" "host (add_caller c x) = host x" "host (add_actor s x) = host x"
  by (simp_all add: set_actor_def set_caller_def add_caller_def add_actor_def)

lemma places_set_actor [simp]: "places (actors (set_actor n s p x)) = (places (actors x))[n := (svc_id s, p)]"
  by (simp add: places_def set_actor_def map_update)

lemma places_add_actor [simp]: "places (actors (add_actor s x)) = places (actors x) @ [(svc_id s, Waiting)]"
  by (simp add: places_def add_actor_def)

lemma places_length [simp]: "length (places as) = length as"
  by (simp add: places_def)

lemma actor_at_place: "actor_at x n s p \<Longrightarrow> n < length (actors x) \<and> places (actors x) ! n = (svc_id s, p)"
  by (auto simp: actor_at_def places_def)

lemma is_gone_place: "is_gone x n \<Longrightarrow> n < length (actors x) \<and> snd (places (actors x) ! n) = Gone"
  by (auto simp: is_gone_def places_def)

lemma resume_pending [simp]: "pending (resume k) = pending_cont k"
  by (cases k) auto

lemma after_state_pending [simp]: "pending (after_state rep k) = pending_cont k"
  by (cases rep) (simp_all add: after_state_def)

text \<open>An actor moves by itself.\<close>

lemma inv_actor:
  assumes "mgr_inv x" and "actor_at x n s p" and "svc_id s' = svc_id s" and "live p'  \<longrightarrow> live p"
    and "pending p' = None \<or> pending p' = pending p"
  shows "mgr_inv (set_actor n s' p' x)"
  using own_actor [of _ _ "places (actors x)" "callers x" n "svc_id s" p p'] assms actor_at_place [OF assms(2)]
  by (simp add: mgr_inv_def)

text \<open>What the invariant does not see.\<close>

lemma inv_unseen:
  "mgr_inv (x\<lparr>host := h\<rparr>) = mgr_inv x"
  "owned m = owned (mgr x) \<Longrightarrow> deleting m = deleting (mgr x) \<Longrightarrow> mgr_inv (x\<lparr>mgr := m\<rparr>) = mgr_inv x"
  by (simp_all add: mgr_inv_def)

lemma at_unseen [simp]:
  "actor_at (x\<lparr>host := h\<rparr>) n s p = actor_at x n s p" "actor_at (x\<lparr>mgr := m\<rparr>) n s p = actor_at x n s p"
  "caller_at (x\<lparr>host := h\<rparr>) t c = caller_at x t c" "caller_at (x\<lparr>mgr := m\<rparr>) t c = caller_at x t c"
  by (simp_all add: actor_at_def caller_at_def)

text \<open>A new caller with nothing to answer for.\<close>

lemma inv_new_caller:
  assumes "mgr_inv x" and "held c = []" and "caller_ok (places (actors x)) c"
  shows "mgr_inv (add_caller c x)"
  using own_new_caller assms by (simp add: mgr_inv_def)

lemma inv_command:
  assumes "mgr_inv x" and "caller_at x t (Sending op i n cmd)" and "actor_at x n s Waiting" and "svc_id s' = svc_id s"
    and "pending_cont k = None \<or> (\<exists>err exit. pending_cont k = Some (t, err, exit) \<and> (matching op cmd \<longrightarrow> ends op err exit))"
  shows "mgr_inv (set_caller t (AwaitingReply op i n) (set_actor n s' (after_state rep k) x))"
proof -
  let ?ps = "places (actors x)"
  from assms(2) have t: "t < length (callers x)" "callers x ! t = Sending op i n cmd" by (simp_all add: caller_at_def)
  with assms(1) own_invD(6) nth_mem [OF t(1)] have "caller_ok ?ps (Sending op i n cmd)" unfolding mgr_inv_def by metis
  then have "?ps ! n = (i, Waiting)" "matching op cmd" using actor_at_place [OF assms(3)] by auto
  moreover from this have "svc_id s' = i" using actor_at_place [OF assms(3)] assms(4) by simp
  ultimately show ?thesis
    using own_command [of _ _ ?ps "callers x" t op i n cmd "after_state rep k"] assms(1,5) t by (simp add: mgr_inv_def)
qed

lemma inv_unanswered:
  assumes "mgr_inv x" and "caller_at x t (AwaitingReply op i n) \<or> caller_at x t (Sending op i n cmd)" and "is_gone x n"
  shows "mgr_inv (set_caller t (after_do op i n err) x)"
  using own_unanswered [of _ _ "places (actors x)" "callers x" t op i n err] assms is_gone_place [OF assms(3)]
  by (auto simp: mgr_inv_def caller_at_def live_def)

lemma inv_replied:
  assumes "mgr_inv x" and "actor_at x n s (Replying t err exit)" and "caller_at x t (AwaitingReply op i n)"
  shows "mgr_inv (set_caller t (after_do op i n err) (set_actor n s (if exit then Leaving else Waiting) x))"
  using own_replied [of _ _ "places (actors x)" "callers x" n "svc_id s" t err exit op i] assms actor_at_place [OF assms(2)]
  by (simp add: mgr_inv_def caller_at_def)

text \<open>A caller moves on and answers for the same identifiers.\<close>

lemma inv_caller:
  assumes "mgr_inv x" and "caller_at x t c" and "held c' = held c" and "caller_ok (places (actors x)) c'"
    and "\<And>op i n. c \<noteq> AwaitingReply op i n" and "\<And>op i n cmd. c \<noteq> Sending op i n cmd"
  shows "mgr_inv (set_caller t c' x)"
proof -
  let ?ps = "places (actors x)"
  from assms(2) have t: "t < length (callers x)" "callers x ! t = c" by (simp_all add: caller_at_def)
  have "\<not> removing i n c" for i n using assms(5,6) by (cases c) auto
  moreover have "pending (snd (?ps ! n)) \<noteq> Some (t, err, exit)" if "n < length ?ps" for n err exit
  proof
    assume "pending (snd (?ps ! n)) = Some (t, err, exit)"
    with assms(1) that obtain op where "callers x ! t = AwaitingReply op (fst (?ps ! n)) n"
      unfolding mgr_inv_def by (blast elim: own_reply)
    with t assms(5) show False by metis
  qed
  ultimately show ?thesis
    using own_caller [of _ _ ?ps "callers x" t c'] assms(1,3,4) t by (simp add: mgr_inv_def)
qed

lemma inv_release:
  assumes "mgr_inv x" and "caller_at x t c" and "held c = i # held c'" and "caller_ok (places (actors x)) c'"
    and "\<And>op i n. c \<noteq> AwaitingReply op i n" and "\<And>op i n cmd. c \<noteq> Sending op i n cmd"
  shows "mgr_inv (set_caller t c' (x\<lparr>mgr := release i (mgr x)\<rparr>))"
proof -
  have "\<not> removing j n c" for j n using assms(5,6) by (cases c) auto
  with own_release [of _ _ "places (actors x)" "callers x" t i c'] assms show ?thesis
    by (simp add: mgr_inv_def caller_at_def)
qed

lemma inv_drop:
  assumes inv: "mgr_inv x" and at: "caller_at x t (CreateFailed i n e)"
  shows "mgr_inv (x\<lparr>mgr := Create_drop i n (mgr x)\<rparr>)"
proof (cases "map_of (owned (mgr x)) i = Some n")
  case True
  let ?ps = "places (actors x)"
  from at own_invD(6) [OF inv [unfolded mgr_inv_def]] have "\<not> live (snd (?ps ! n))"
    unfolding caller_at_def by (metis caller_ok.simps(3) nth_mem)
  moreover have "m = n" if "(i, m) \<in> set (owned (mgr x))" for m
    using that True own_invD(1) [OF inv [unfolded mgr_inv_def]] by simp
  ultimately have "own_inv (filter (\<lambda>(j, n). j \<noteq> i) (owned (mgr x))) (deleting (mgr x)) ?ps (callers x)"
    using own_drop [OF inv [unfolded mgr_inv_def]] by metis
  with True Create_drop_view [of i n "mgr x"] show ?thesis by (simp add: mgr_inv_def)
next
  case False
  with Create_drop_view [of i n "mgr x"] inv show ?thesis by (simp add: mgr_inv_def)
qed

lemma inv_register:
  assumes inv: "mgr_inv x" and lock: "Create_lock parse inp (length (actors x)) (mgr x) = (None, m)"
  shows "mgr_inv (add_actor (newService (in_ID inp)) (x\<lparr>mgr := m\<rparr>))"
proof -
  note view = Create_view(1,2) [OF lock]
  have "own_inv (owned (mgr x) @ [(in_ID inp, length (places (actors x)))]) (deleting (mgr x))
      (places (actors x) @ [(in_ID inp, Waiting)]) (callers x)"
    using own_register [OF inv [unfolded mgr_inv_def]] view by blast
  with view show ?thesis by (simp add: mgr_inv_def newService_def)
qed

lemma inv_remove:
  assumes inv: "mgr_inv x" and lock: "Remove_lock parse i (mgr x) = (Inr n, m)"
  shows "mgr_inv (add_caller (Sending OpRemove i n CmdRemove) (x\<lparr>mgr := m\<rparr>))"
  using own_remove [OF inv [unfolded mgr_inv_def], of i n] Remove_view [OF lock] by (simp add: mgr_inv_def)

lemma inv_claim:
  assumes inv: "mgr_inv x" and at: "caller_at x t (AuditListed ids)" and lock: "claim_orphans ids (mgr x) = (orphans, m)"
  shows "mgr_inv (set_caller t (next_orphan orphans) (x\<lparr>mgr := m\<rparr>))"
  using own_claim [OF inv [unfolded mgr_inv_def], of t ids orphans] at claim_view [OF lock]
  by (simp add: mgr_inv_def caller_at_def)

lemma next_orphan_view [simp]: "held (next_orphan is) = is" "caller_ok ps (next_orphan is)"
  by (cases "is"; simp)+

lemmas inv_facts = inv_unseen sys_parts at_unseen live_def

theorem mgr_step_inv:
  assumes "mgr_step parse x y" and inv: "mgr_inv x"
  shows "mgr_inv y"
  using assms(1)
proof (cases rule: mgr_step.cases)
  case (create_returns inp r m)
  with Create_view(1,3) [OF create_returns(2)] inv show ?thesis by (auto simp: inv_facts intro!: inv_new_caller)
next
  case (create_registers inp m)
  let ?x = "add_actor (newService (in_ID inp)) (x\<lparr>mgr := m\<rparr>)"
  have "mgr_inv ?x" by (rule inv_register [OF inv create_registers(2)])
  then show ?thesis unfolding create_registers(1)
    by (rule inv_new_caller) (simp_all add: nth_append newService_def)
next
  case (stop_returns i e)
  with inv show ?thesis by (auto intro!: inv_new_caller)
next
  case (stop_sends i n)
  then obtain e where "map_of (services (mgr x)) i = Some e" "n = e_svc e" by (auto simp: Stop_lock_def split: option.splits)
  with owned_Some own_invD(5) [OF inv [unfolded mgr_inv_def]] have "n < length (places (actors x)) \<and> fst (places (actors x) ! n) = i"
    by metis
  with stop_sends inv show ?thesis by (auto intro!: inv_new_caller)
next
  case (remove_returns i e m)
  with Remove_view [OF remove_returns(2)] inv show ?thesis by (auto simp: inv_facts intro!: inv_new_caller)
next
  case (remove_sends i n m)
  with inv_remove [OF inv] show ?thesis by simp
next
  case (command t op i n cmd s ops exit err rep s' h)
  with handle_cmd_moved [OF command(4)] inv show ?thesis
    by (auto simp: inv_facts moved_def intro!: inv_command)
next
  case (command_panics t op i n cmd s v rep s' h)
  with setState_facts [OF command_panics(4)] inv show ?thesis by (auto simp: inv_facts intro!: inv_command)
next
  case (replies n s t err exit op i)
  with inv_replied [OF inv] show ?thesis by simp
next
  case (releases t i err)
  with inv_release [OF inv releases(2)] show ?thesis by simp
next
  case (audit_claims t ids orphans m)
  with inv_claim [OF inv] show ?thesis by simp
next
  case (audit_releases t i "is")
  with inv_release [OF inv audit_releases(2)] show ?thesis by simp
next
  case (create_drops t i n e)
  with inv_drop [OF inv] show ?thesis by (auto intro!: inv_caller)
next
  case (polls n s ops rep s' h)
  with poll_moved [OF polls(3)] inv show ?thesis by (auto simp: inv_facts moved_def intro!: inv_actor)
next
  case (vm_exits n s rep s')
  with on_exited_moved [OF vm_exits(4)] inv show ?thesis by (auto simp: inv_facts moved_def intro!: inv_actor)
next
  case (poll_panics n s rep s' h)
  with setState_facts [OF poll_panics(3)] inv show ?thesis by (auto simp: inv_facts intro!: inv_actor)
next
  case (reports n s st k ok m)
  with report_view [OF reports(3)] inv show ?thesis by (auto simp: inv_facts intro!: inv_actor)
next
  case (audit_checks dead m)
  with checkLiveness_view [OF audit_checks(2)] inv show ?thesis by (auto simp: inv_facts intro!: inv_new_caller)
qed (use inv in \<open>auto simp: inv_facts SetCapacity_def intro!: inv_actor inv_caller inv_new_caller inv_unanswered\<close>)

lemma mgr_run_inv: "(mgr_step parse)\<^sup>*\<^sup>* x y \<Longrightarrow> mgr_inv x \<Longrightarrow> mgr_inv y"
  by (induction rule: rtranclp_induct) (auto intro: mgr_step_inv)

subsection \<open>Starting up\<close>

lemma mgr_inv_init: "mgr_inv (init_sys h)"
  by (simp add: mgr_inv_def init_sys_def newManager_def owned_def places_def own_inv_def owners_ok_def replies_ok_def)

lemma init_sys_host [simp]: "host (init_sys h) = h"
  by (simp add: init_sys_def)

lemma adopt_vm_view:
  assumes "i \<notin> set (map fst (owned (mgr x)))"
  shows "owned (mgr (adopt_vm i v st x)) = owned (mgr x) @ [(i, length (actors x))]"
    "deleting (mgr (adopt_vm i v st x)) = deleting (mgr x)" "callers (adopt_vm i v st x) = callers x"
    "places (actors (adopt_vm i v st x)) = places (actors x) @ [(i, Waiting)]"
  using assms owned_None [of "mgr x" i]
  by (simp_all add: adopt_vm_def adopt_lock_def owned_def owned_update_new svc_adopt_def watch_def newService_def)

lemma recover_each_inv:
  assumes "mgr_inv x" and "deleting (mgr x) = []" and "distinct ids" and "set ids \<inter> set (map fst (owned (mgr x))) = {}"
    and "recover_each att reap query ids x = (k, y)"
  shows "mgr_inv y"
  using assms
proof (induction ids arbitrary: x k)
  case (Cons i ids)
  show ?case
  proof (cases "att i (host x)")
    case (Inl e)
    let ?x = "x\<lparr>host := snd (reap i (host x))\<rparr>"
    have "recover_each att reap query ids ?x = (k, y)" using Cons.prems(5) Inl by simp
    with Cons.IH [of ?x k] Cons.prems(1-4) show ?thesis by (simp add: inv_unseen)
  next
    case (Inr v)
    obtain answer h where query: "query v (host x) = (answer, h)" by fastforce
    let ?x = "adopt_vm i v (case answer of None \<Rightarrow> StateUnknown | Some st \<Rightarrow> st) (x\<lparr>host := h\<rparr>)"
    obtain k' where rest: "recover_each att reap query ids ?x = (k', y)"
      using Cons.prems(5) Inr query by (auto split: prod.splits)
    have fresh: "i \<notin> set (map fst (owned (mgr (x\<lparr>host := h\<rparr>))))" using Cons.prems(4) by simp
    note view = adopt_vm_view [OF fresh]
    have "mgr_inv ?x"
      using own_register [OF Cons.prems(1) [unfolded mgr_inv_def], of i] fresh Cons.prems(2) by (simp add: mgr_inv_def view)
    then show ?thesis
      using Cons.IH [OF _ _ _ _ rest] Cons.prems(2-4) by (simp add: view)
  qed
qed simp

lemma Recover_inv:
  assumes "Recover att reap query listDisk (init_sys h) = (r, x)" and "\<And>ids. listDisk h = Inr ids \<Longrightarrow> distinct ids"
  shows "mgr_inv x"
proof (cases "listDisk h")
  case (Inl e)
  with assms(1) show ?thesis by (auto simp: Recover_def mgr_inv_init)
next
  case (Inr ids)
  then obtain k where "recover_each att reap query ids (init_sys h) = (k, x)"
    using assms(1) by (auto simp: Recover_def split: prod.splits)
  then show ?thesis
    by (rule recover_each_inv [OF mgr_inv_init _ assms(2) [OF Inr], rotated 2])
      (simp_all add: init_sys_def newManager_def owned_def)
qed

subsection \<open>One owner on the host\<close>

text \<open>Who may touch what identifier \<open>i\<close> has on the host: an actor of \<open>i\<close> that has not left, a \<^verbatim>\<open>Remove\<close> or an
  audit that is reaping \<open>i\<close>.\<close>

datatype toucher = ByActor nat | ByCaller nat

fun touches :: "('v, 'h) sys \<Rightarrow> string \<Rightarrow> toucher \<Rightarrow> bool" where
  "touches x i (ByActor n) \<longleftrightarrow>
     n < length (actors x) \<and> svc_id (service (actors x ! n)) = i \<and> live (pc (actors x ! n))"
| "touches x i (ByCaller t) \<longleftrightarrow>
     t < length (callers x) \<and> (callers x ! t = Reaping i \<or> (\<exists>is. callers x ! t = AuditReaping i is))"

lemma distinct_concat_index:
  "distinct (concat (map f cs)) \<Longrightarrow> a < length cs \<Longrightarrow> b < length cs \<Longrightarrow> i \<in> set (f (cs ! a)) \<Longrightarrow> i \<in> set (f (cs ! b)) \<Longrightarrow> a = b"
proof (induction cs arbitrary: a b)
  case (Cons c cs)
  have other: "i \<notin> set (f c)" if "k < length cs" "i \<in> set (f (cs ! k))" for k
  proof -
    have "i \<in> set (concat (map f cs))" using that nth_mem [OF that(1)] by fastforce
    then show ?thesis using Cons.prems(1) by auto
  qed
  show ?case using Cons.IH [of "a - 1" "b - 1"] Cons.prems other [of "a - 1"] other [of "b - 1"]
    by (cases a; cases b) auto
qed simp

text \<open>A toucher is the owner of the identifier, or the caller that answers for it.\<close>

lemma toucher_cases:
  assumes inv: "mgr_inv x" and "touches x i u"
  obtains n where "u = ByActor n" "(i, n) \<in> set (owned (mgr x))"
  | t where "t < length (callers x)" "i \<in> set (held (callers x ! t))"
      "(\<exists>n. u = ByActor n \<and> removing i n (callers x ! t)) \<or> u = ByCaller t \<and> (\<forall>n. \<not> removing i n (callers x ! t))"
proof (cases u)
  case (ByActor n)
  with assms(2) have n: "n < length (places (actors x))" "live (snd (places (actors x) ! n))" "fst (places (actors x) ! n) = i"
    by (simp_all add: places_def)
  from inv [unfolded mgr_inv_def] n(1,2) show ?thesis
  proof (cases rule: own_owner)
    case 1
    with n that(1) ByActor show ?thesis by simp
  next
    case (2 c)
    then obtain t where "t < length (callers x)" "callers x ! t = c" by (auto simp: in_set_conv_nth)
    with 2 n that(2) [of t] ByActor removing_held [of i n c] show ?thesis by auto
  qed
next
  case (ByCaller t)
  with assms(2) that(2) [of t] show ?thesis by auto
qed

lemma toucher_unique:
  assumes inv: "mgr_inv x" and u: "touches x i u" and v: "touches x i v"
  shows "u = v"
proof -
  note D = own_invD [OF inv [unfolded mgr_inv_def]]
  have "distinct (concat (map held (callers x)))" using D(2,4) by (metis mset_eq_imp_distinct_iff)
  note index = distinct_concat_index [OF this]
  have deleting: "i \<in> set (deleting (mgr x))" if "t < length (callers x)" "i \<in> set (held (callers x ! t))" for t
  proof -
    have "i \<in> set (concat (map held (callers x)))" using that nth_mem [OF that(1)] by auto
    then show ?thesis using mset_eq_setD [OF D(4)] by metis
  qed
  have owner: False if "(i, n) \<in> set (owned (mgr x))" "i \<in> set (deleting (mgr x))" for n
    using that D(3) by force
  have same: "n = m" if "removing i n c" "removing i m c" for n m c
    using that by (cases c) auto
  from inv u show ?thesis
  proof (cases rule: toucher_cases)
    case (1 n)
    from inv v show ?thesis
    proof (cases rule: toucher_cases)
      case (1 m)
      with \<open>u = ByActor n\<close> \<open>(i, n) \<in> set (owned (mgr x))\<close> D(1) show ?thesis by (metis eq_key_imp_eq_value)
    qed (use 1 owner deleting in blast)
  next
    case (2 t)
    note ut = this
    from inv v show ?thesis
    proof (cases rule: toucher_cases)
      case (2 s)
      with ut index [of t s] have "t = s" by blast
      with ut 2 same show ?thesis by blast
    qed (use ut owner deleting in blast)
  qed
qed

lemma toucher_owned:
  assumes inv: "mgr_inv x" and u: "touches x i u"
  shows "i \<in> set (map fst (owned (mgr x))) \<or> i \<in> set (deleting (mgr x))"
    and "u = ByCaller t \<Longrightarrow> i \<in> set (deleting (mgr x))"
proof -
  note D = own_invD [OF inv [unfolded mgr_inv_def]]
  have deleting: "i \<in> set (deleting (mgr x))" if "t < length (callers x)" "i \<in> set (held (callers x ! t))" for t
  proof -
    have "i \<in> set (concat (map held (callers x)))" using that nth_mem [OF that(1)] by auto
    then show ?thesis using mset_eq_setD [OF D(4)] by metis
  qed
  from inv u show "i \<in> set (map fst (owned (mgr x))) \<or> i \<in> set (deleting (mgr x))"
    by (cases rule: toucher_cases) (force dest: deleting)+
  from inv u show "i \<in> set (deleting (mgr x))" if "u = ByCaller t"
    by (cases rule: toucher_cases) (use that deleting in auto)
qed

lemma host_change_touches:
  assumes "mgr_step parse x y" and "host y \<noteq> host x"
  shows "\<exists>j w. touches x j w"
  using assms(1)
proof (cases rule: mgr_step.cases)
  case (reaps t i reap err h)
  then have "touches x i (ByCaller t)" by (simp add: caller_at_def)
  then show ?thesis by blast
next
  case (audit_reaps t i "is" reap err h)
  then have "touches x i (ByCaller t)" by (simp add: caller_at_def)
  then show ?thesis by blast
next
  case (command t op i n cmd s ops exit err rep s' h)
  then have "touches x (svc_id s) (ByActor n)" by (simp add: actor_at_def live_def)
  then show ?thesis by blast
next
  case (command_panics t op i n cmd s v rep s' h)
  then have "touches x (svc_id s) (ByActor n)" by (simp add: actor_at_def live_def)
  then show ?thesis by blast
next
  case (polls n s ops rep s' h)
  then have "touches x (svc_id s) (ByActor n)" by (simp add: actor_at_def live_def)
  then show ?thesis by blast
next
  case (poll_panics n s rep s' h)
  then have "touches x (svc_id s) (ByActor n)" by (simp add: actor_at_def live_def)
  then show ?thesis by blast
qed (use assms(2) in simp_all)

text \<open>C1: the ownership rule holds at every moment of every run of the manager after \<^verbatim>\<open>Recover\<close>, whatever callers,
  actors, panics and audits interleave.  No two parties ever touch the same identifier on the host; whoever
  touches one finds it in \<^verbatim>\<open>services\<close> or in \<^verbatim>\<open>deleting\<close>, which are disjoint; a \<^verbatim>\<open>Remove\<close> or an audit that reaps finds
  it in \<^verbatim>\<open>deleting\<close>, so a sandbox that is booting or hosted is never reaped; and every step that changes the
  host is taken by a party that touches some identifier.  The directory listing is assumed to name each
  entry once.\<close>

theorem one_owner_on_the_host:
  assumes "\<And>ids. listDisk h = Inr ids \<Longrightarrow> distinct ids" and "Recover att reap query listDisk (init_sys h) = (r, x0)"
    and "(mgr_step parse)\<^sup>*\<^sup>* x0 x"
  shows "(touches x i u \<longrightarrow> touches x i v \<longrightarrow> u = v)
    \<and> (touches x i u \<longrightarrow> i \<in> fst ` set (services (mgr x)) \<union> set (deleting (mgr x)))
    \<and> (touches x i (ByCaller t) \<longrightarrow> i \<in> set (deleting (mgr x)))
    \<and> fst ` set (services (mgr x)) \<inter> set (deleting (mgr x)) = {}
    \<and> (mgr_step parse x y \<longrightarrow> host y \<noteq> host x \<longrightarrow> (\<exists>j w. touches x j w))"
proof -
  have inv: "mgr_inv x" by (rule mgr_run_inv [OF assms(3) Recover_inv [OF assms(2,1)]])
  have keys: "set (map fst (owned (mgr x))) = fst ` set (services (mgr x))"
    by (force simp: owned_def)
  show ?thesis
    using toucher_unique [OF inv] toucher_owned [OF inv] host_change_touches [of parse x y]
      own_invD(3) [OF inv [unfolded mgr_inv_def]] unfolding keys by blast
qed

text \<open>A recovered sandbox is removed: its actor stays the only one to touch it.\<close>

theorem one_owner_on_the_host_witness:
  "let i = replicate 36 CHR ''a'';
       rec = Recover (\<lambda>i h. Inr ()) (\<lambda>i h. (None, h)) (\<lambda>v h. (None, h)) (\<lambda>h. Inr [i]) (init_sys ())
   in \<exists>x. fst rec = Inr 1 \<and> (mgr_step (\<lambda>_. True))\<^sup>*\<^sup>* (snd rec) x \<and> deleting (mgr x) = [i]
        \<and> touches x i (ByActor 0) \<and> (\<forall>u. touches x i u \<longrightarrow> u = ByActor 0)"
proof -
  let ?i = "replicate 36 CHR ''a''"
  let ?rec = "Recover (\<lambda>i h. Inr ()) (\<lambda>i h. (None, h)) (\<lambda>v h. (None, h)) (\<lambda>h. Inr [?i]) (init_sys ())"
  have rec: "?rec = (Inr 1, snd ?rec)" by (simp add: Recover_def)
  let ?m = "newManager\<lparr>services := [], deleting := [?i]\<rparr>"
  let ?x = "add_caller (Sending OpRemove ?i 0 CmdRemove) ((snd ?rec)\<lparr>mgr := ?m\<rparr>)"
  have "Remove_lock (\<lambda>_. True) ?i (mgr (snd ?rec)) = (Inr 0, ?m)"
    by (simp add: Remove_lock_def Recover_def adopt_vm_def adopt_lock_def init_sys_def newManager_def add_actor_def
        CheckSandboxID_def IsSandboxID_def)
  from mgr_step.remove_sends [OF this] have run: "(mgr_step (\<lambda>_. True))\<^sup>*\<^sup>* (snd ?rec) ?x" ..
  have touch: "touches ?x ?i (ByActor 0)"
    by (simp add: Recover_def adopt_vm_def adopt_lock_def init_sys_def newManager_def add_actor_def svc_adopt_def
        watch_def newService_def live_def)
  then have "\<forall>u. touches ?x ?i u \<longrightarrow> u = ByActor 0"
    using one_owner_on_the_host [OF _ rec run, of ?i _ "ByActor 0"] by simp
  moreover have "fst ?rec = Inr 1" by (simp add: Recover_def)
  moreover have "deleting (mgr ?x) = [?i]" by simp
  ultimately show ?thesis using run touch unfolding Let_def by blast
qed

end
