(* ===== verification/Manager_States.thy ===== *)
theory Manager_States
  imports Manager_Ownership
begin

text \<open>
  What the manager says of its sandboxes: the state of an entry follows the state of its actor, \<^verbatim>\<open>DEAD\<close> is
  final, and seen through one identifier the manager is a small automaton.
\<close>

subsection \<open>The state of an entry\<close>

text \<open>An entry agrees with its actor unless a report is on its way, or the actor is gone and the audit has marked the
  entry; and it is \<^verbatim>\<open>DEAD\<close> only for an actor that is \<^verbatim>\<open>DEAD\<close> or gone.\<close>

definition entry_ok :: "'v actor \<Rightarrow> SandboxState \<Rightarrow> bool" where
  "entry_ok a st \<longleftrightarrow>
     (st = svc_state (service a) \<or> (\<exists>rst k. pc a = Reporting rst k) \<or> pc a = Gone \<and> st = StateDead)
     \<and> (st = StateDead \<longrightarrow> svc_state (service a) = StateDead \<or> pc a = Gone)"

definition report_ok :: "'v actor \<Rightarrow> bool" where
  "report_ok a \<longleftrightarrow> (\<forall>st k. pc a = Reporting st k \<longrightarrow> svc_state (service a) = st)"

definition states_ok :: "(string \<times> entry) list \<Rightarrow> 'v actor list \<Rightarrow> bool" where
  "states_ok es as \<longleftrightarrow>
     (\<forall>(i, e) \<in> set es. e_svc e < length as \<and> entry_ok (as ! e_svc e) (e_state e)) \<and> (\<forall>a \<in> set as. report_ok a)"

lemma states_okD:
  assumes "states_ok es as"
  shows "(i, e) \<in> set es \<Longrightarrow> e_svc e < length as \<and> entry_ok (as ! e_svc e) (e_state e)"
    and "a \<in> set as \<Longrightarrow> report_ok a"
  using assms by (auto simp: states_ok_def)

lemma states_subset: "states_ok es as \<Longrightarrow> set es' \<subseteq> set es \<Longrightarrow> states_ok es' as"
  by (auto simp: states_ok_def)

lemma states_actor:
  assumes ok: "states_ok es as" and n: "n < length as" and "\<And>st. entry_ok (as ! n) st \<Longrightarrow> entry_ok a st" and "report_ok a"
  shows "states_ok es (as[n := a])"
  unfolding states_ok_def
proof (intro conjI ballI)
  fix p assume "p \<in> set es"
  moreover obtain i e where p: "p = (i, e)" by fastforce
  ultimately have "(i, e) \<in> set es" by simp
  from states_okD(1) [OF ok this] assms(3) n
  show "case p of (i, e) \<Rightarrow> e_svc e < length (as[n := a]) \<and> entry_ok (as[n := a] ! e_svc e) (e_state e)"
    unfolding p by (cases "e_svc e = n") auto
next
  fix b assume "b \<in> set (as[n := a])"
  with assms(4) states_okD(2) [OF ok] set_update_subset_insert [of as n a] show "report_ok b" by blast
qed

lemma states_entry:
  assumes "states_ok es as" and "e_svc e < length as" and "entry_ok (as ! e_svc e) (e_state e)"
  shows "states_ok (AList.update i e es) as"
proof -
  have "set (AList.update i e es) \<subseteq> insert (i, e) (set es)"
    by (induction es) auto
  with assms show ?thesis by (auto simp: states_ok_def)
qed

lemma states_append: "states_ok es as \<Longrightarrow> report_ok a \<Longrightarrow> states_ok es (as @ [a])"
  by (auto simp: states_ok_def nth_append)

text \<open>An actor that is not reporting does something and may have a new state to report.\<close>

lemma moved_entry:
  assumes "moved s rep s'" and "entry_ok \<lparr>service = s, pc = p\<rparr> st" and "\<forall>rst k. p \<noteq> Reporting rst k" and "p \<noteq> Gone"
  shows "entry_ok \<lparr>service = s', pc = after_state rep k\<rparr> st"
  using assms by (auto simp: entry_ok_def moved_def after_state_def split: if_splits)

lemma after_state_report: "moved s rep s' \<Longrightarrow> report_ok \<lparr>service = s', pc = after_state rep k\<rparr>"
  by (cases k) (auto simp: report_ok_def moved_def after_state_def split: if_splits)

lemma quiet_entry:
  assumes "entry_ok \<lparr>service = s, pc = p\<rparr> st" and "\<forall>rst k. p \<noteq> Reporting rst k" and "p \<noteq> Gone"
  shows "entry_ok \<lparr>service = s, pc = p'\<rparr> st"
  using assms by (auto simp: entry_ok_def)

lemma resume_not_reporting [simp]: "resume k \<noteq> Reporting st k'" "resume k \<noteq> Gone"
  by (cases k; simp)+


subsection \<open>Every step keeps the states\<close>

definition state_inv :: "('v, 'h) sys \<Rightarrow> bool" where
  "state_inv x \<longleftrightarrow> states_ok (services (mgr x)) (actors x)"

lemma actors_set_actor [simp]: "actors (set_actor n s p x) = (actors x)[n := \<lparr>service = s, pc = p\<rparr>]"
  by (simp add: set_actor_def)

lemma actors_add_actor [simp]: "actors (add_actor s x) = actors x @ [\<lparr>service = s, pc = Waiting\<rparr>]"
  by (simp add: add_actor_def)

lemma state_moved:
  assumes "state_inv x" and "actor_at x n s Waiting" and "moved s rep s'"
  shows "state_inv (set_actor n s' (after_state rep k) x)"
  using assms states_actor [of _ "actors x" n] moved_entry [OF assms(3), of Waiting] after_state_report [OF assms(3)]
  by (simp add: state_inv_def actor_at_def)

lemma state_quiet:
  assumes "state_inv x" and "actor_at x n s p" and "\<forall>st k. p \<noteq> Reporting st k" and "p \<noteq> Gone"
    and "\<forall>st k. p' \<noteq> Reporting st k"
  shows "state_inv (set_actor n s p' x)"
proof -
  have "report_ok \<lparr>service = s, pc = p'\<rparr>" using assms(5) by (simp add: report_ok_def)
  with assms states_actor [of _ "actors x" n] quiet_entry [of s p] show ?thesis
    by (simp add: state_inv_def actor_at_def)
qed

lemma state_unseen:
  "state_inv (x\<lparr>host := h\<rparr>) = state_inv x" "state_inv (set_caller t c x) = state_inv x" "state_inv (add_caller c x) = state_inv x"
  "services m = services (mgr x) \<Longrightarrow> state_inv (x\<lparr>mgr := m\<rparr>) = state_inv x"
  by (simp_all add: state_inv_def)

lemma services_frame [simp]:
  "services (emit i st now m) = services m" "services (release i m) = services m" "services (SetCapacity c m) = services m"
  "claim_orphans ids m = (new, m') \<Longrightarrow> services m' = services m"
proof -
  show "services m' = services m" if "claim_orphans ids m = (new, m')"
    using that by (induction ids arbitrary: m new) (fastforce split: if_splits prod.splits)+
qed (simp_all add: emit_def release_def SetCapacity_def)

lemma states_other:
  assumes "states_ok es as" and "\<And>i e. (i, e) \<in> set es' \<Longrightarrow> (i, e) \<in> set es \<and> e_svc e \<noteq> n" and "report_ok a"
  shows "states_ok es' (as[n := a])"
  unfolding states_ok_def
proof (intro conjI ballI)
  fix p assume "p \<in> set es'"
  moreover obtain i e where p: "p = (i, e)" by fastforce
  ultimately have "(i, e) \<in> set es'" by simp
  from assms(2) [OF this] states_okD(1) [OF assms(1), of i e]
  show "case p of (i, e) \<Rightarrow> e_svc e < length (as[n := a]) \<and> entry_ok (as[n := a] ! e_svc e) (e_state e)"
    unfolding p by simp
next
  fix b assume "b \<in> set (as[n := a])"
  with assms(3) states_okD(2) [OF assms(1)] set_update_subset_insert [of as n a] show "report_ok b" by blast
qed

lemma set_update_distinct:
  "distinct (map fst es) \<Longrightarrow> set (AList.update i e es) = insert (i, e) (set (AList.delete i es))"
proof (induction es)
  case (Cons p es)
  have "AList.delete (fst p) es = es" using Cons.prems by (simp add: AList.delete_idem)
  with Cons show ?case by (cases p) auto
qed simp

text \<open>The report of the owner is recorded, whoever else reports is ignored.\<close>

lemma state_report:
  assumes inv: "mgr_inv x" and ok: "state_inv x" and at: "actor_at x n s (Reporting st k)"
    and lock: "report_lock (svc_id s) n st (mgr x) = (b, m)" and p: "\<forall>st k. p \<noteq> Reporting st k"
  shows "state_inv (set_actor n s p (x\<lparr>mgr := m\<rparr>))"
proof -
  let ?as = "(actors x)[n := \<lparr>service = s, pc = p\<rparr>]" and ?es = "services (mgr x)"
  note ok = ok [unfolded state_inv_def]
  from at have n: "n < length (actors x)" "actors x ! n = \<lparr>service = s, pc = Reporting st k\<rparr>" by (simp_all add: actor_at_def)
  have st: "svc_state s = st" using states_okD(2) [OF ok nth_mem [OF n(1)]] n(2) by (simp add: report_ok_def)
  have quiet: "report_ok \<lparr>service = s, pc = p\<rparr>" using p by (simp add: report_ok_def)
  have keys: "distinct (map fst ?es)"
    using own_invD(1) [OF inv [unfolded mgr_inv_def]] by (simp add: owned_def comp_def split_beta)
  have mine: "i = svc_id s \<and> map_of ?es (svc_id s) = Some e" if "(i, e) \<in> set ?es" "e_svc e = n" for i e
  proof -
    have "(i, n) \<in> set (owned (mgr x))" using that by (force simp: owned_def)
    from own_invD(5) [OF inv [unfolded mgr_inv_def] this] n have "i = svc_id s" by (simp add: places_def)
    with that keys show ?thesis by simp
  qed
  show ?thesis
  proof (cases "\<exists>e. map_of ?es (svc_id s) = Some e \<and> e_svc e = n")
    case True
    then obtain e where e: "map_of ?es (svc_id s) = Some e" "e_svc e = n" by blast
    let ?e = "e\<lparr>e_state := st\<rparr>"
    have "states_ok (AList.delete (svc_id s) ?es) ?as"
      by (intro states_other [OF ok _ quiet]) (auto simp: AList.delete_eq dest: mine)
    then have "states_ok (AList.update (svc_id s) ?e ?es) ?as"
      using set_update_distinct [OF keys, of "svc_id s" ?e] n e st by (auto simp: states_ok_def entry_ok_def)
    moreover have "m = (mgr x)\<lparr>services := AList.update (svc_id s) ?e ?es\<rparr>" using lock e by (simp add: report_lock_def)
    ultimately show ?thesis by (simp add: state_inv_def)
  next
    case False
    then have "m = mgr x" using lock by (auto simp: report_lock_def split: option.splits if_splits)
    moreover have "states_ok ?es ?as"
      using mine False by (intro states_other [OF ok _ quiet]) blast
    ultimately show ?thesis by (simp add: state_inv_def)
  qed
qed


lemma state_Create:
  assumes ok: "state_inv x" and lock: "Create_lock parse inp (length (actors x)) (mgr x) = (None, m)"
  shows "state_inv (add_actor (newService (in_ID inp)) (x\<lparr>mgr := m\<rparr>))"
proof -
  let ?e = "\<lparr>e_svc = length (actors x), e_state = StateStarting\<rparr>" and ?a = "\<lparr>service = newService (in_ID inp), pc = Waiting\<rparr>"
  have "states_ok (AList.update (in_ID inp) ?e (services (mgr x))) (actors x @ [?a])"
    using ok unfolding state_inv_def
    by (intro states_entry states_append) (simp_all add: report_ok_def entry_ok_def newService_def)
  with lock show ?thesis by (auto simp: state_inv_def Create_lock_def Let_def split: if_splits)
qed

lemma state_fewer: "state_inv x \<Longrightarrow> set (services m) \<subseteq> set (services (mgr x)) \<Longrightarrow> state_inv (x\<lparr>mgr := m\<rparr>)"
  unfolding state_inv_def by (auto intro: states_subset)

lemma state_liveness:
  assumes "state_inv x" and "checkLiveness_lock (is_gone x) (mgr x) = (dead, m)"
  shows "state_inv (x\<lparr>mgr := m\<rparr>)"
proof -
  let ?mark = "\<lambda>e. if newly_dead (is_gone x) e then e\<lparr>e_state := StateDead\<rparr> else e"
  have m: "m = (mgr x)\<lparr>services := map (\<lambda>(i, e). (i, ?mark e)) (services (mgr x))\<rparr>"
    using assms(2) by (simp add: checkLiveness_lock_def)
  have mark: "e_svc (?mark e) = e_svc e \<and> entry_ok (actors x ! e_svc e) (e_state (?mark e))"
    if "entry_ok (actors x ! e_svc e) (e_state e)" for e
    using that by (auto simp: entry_ok_def newly_dead_def is_gone_def)
  have "e_svc f < length (actors x) \<and> entry_ok (actors x ! e_svc f) (e_state f)" if "(i, f) \<in> set (services m)" for i f
  proof -
    from that obtain e where "(i, e) \<in> set (services (mgr x))" and f: "f = ?mark e" by (auto simp: m)
    with states_okD(1) [OF assms(1) [unfolded state_inv_def], of i e] mark [of e] show ?thesis by metis
  qed
  with states_okD(2) [OF assms(1) [unfolded state_inv_def]] show ?thesis by (auto simp: state_inv_def states_ok_def)
qed

lemmas state_facts = state_unseen sys_parts at_unseen services_frame

theorem mgr_step_states:
  assumes "mgr_step parse x y" and inv: "mgr_inv x" and ok: "state_inv x"
  shows "state_inv y"
  using assms(1)
proof (cases rule: mgr_step.cases)
  case (create_returns inp r m)
  then have "m = mgr x" by (auto simp: Create_lock_def Let_def split: if_splits)
  with create_returns ok show ?thesis by (simp add: state_facts)
next
  case (create_registers inp m)
  with state_Create [OF ok] show ?thesis by (simp add: state_facts)
next
  case (remove_returns i e m)
  then have "m = mgr x" by (auto simp: Remove_lock_def split: if_splits option.splits)
  with remove_returns ok show ?thesis by (simp add: state_facts)
next
  case (remove_sends i n m)
  then have "set (services m) \<subseteq> set (services (mgr x))"
    by (auto simp: Remove_lock_def AList.delete_eq split: if_splits option.splits)
  with remove_sends state_fewer [OF ok] show ?thesis by (simp add: state_facts)
next
  case (command t op i n cmd s ops exit err rep s' h)
  with handle_cmd_moved(1) [OF command(4)] ok show ?thesis by (auto simp: state_facts intro!: state_moved)
next
  case (command_panics t op i n cmd s v rep s' h)
  have "moved s rep s'" using setState_Dead_moved [OF command_panics(4)] by (simp add: moved_def)
  with command_panics ok show ?thesis by (auto simp: state_facts intro!: state_moved)
next
  case (vm_exits n s rep s')
  with on_exited_moved [OF vm_exits(4)] ok show ?thesis by (auto simp: state_facts intro!: state_moved)
next
  case (polls n s ops rep s' h)
  with poll_moved [OF polls(3)] ok show ?thesis by (auto simp: state_facts intro!: state_moved)
next
  case (poll_panics n s rep s' h)
  with setState_Dead_moved [OF poll_panics(3)] ok show ?thesis by (auto simp: state_facts intro!: state_moved)
next
  case (reports n s st k b m)
  with state_report [OF inv ok reports(2,3)] show ?thesis by simp
next
  case (create_drops t i n e)
  have "set (services (Create_drop i n (mgr x))) \<subseteq> set (services (mgr x))"
    by (auto simp: Create_drop_def AList.delete_eq split: option.splits)
  with create_drops state_fewer [OF ok] show ?thesis by (simp add: state_facts)
next
  case (audit_checks dead m)
  with state_liveness [OF ok] show ?thesis by (simp add: state_facts)
next
  case (emits n s st k now)
  with state_quiet [OF ok, of n s "Emitting st k" "resume k"] show ?thesis by (simp add: state_facts state_inv_def)
qed (use ok in \<open>auto simp: state_facts intro!: state_quiet\<close>)


subsection \<open>A create that fails\<close>

text \<open>The actor a \<^verbatim>\<open>Create\<close> still answers for.\<close>

fun creates :: "caller \<Rightarrow> nat list" where
  "creates (Sending op i n cmd) = (if op = OpCreate then [n] else [])"
| "creates (AwaitingReply op i n) = (if op = OpCreate then [n] else [])"
| "creates (CreateFailed i n e) = [n]"
| "creates _ = []"

definition unborn :: "'v Service \<Rightarrow> bool" where
  "unborn s \<longleftrightarrow> svc_state s = StateStarting \<or> svc_state s = StateDead"

text \<open>Until its command is taken the actor has no VM; once it is, either a failure is on its way and the state has not
  changed, or the actor panicked; in the end the sandbox has never been seen running.\<close>

fun create_ok :: "'v actor list \<Rightarrow> nat \<Rightarrow> caller \<Rightarrow> bool" where
  "create_ok as t (Sending op i n cmd) \<longleftrightarrow>
     (op = OpCreate \<longrightarrow> svc_state (service (as ! n)) = StateDead \<or> svc_vm (service (as ! n)) = None \<and> unborn (service (as ! n)))"
| "create_ok as t (AwaitingReply op i n) \<longleftrightarrow>
     (op = OpCreate \<longrightarrow> svc_state (service (as ! n)) = StateDead
        \<or> (\<exists>err exit. pending (pc (as ! n)) = Some (t, err, exit) \<and> (err \<noteq> None \<longrightarrow> unborn (service (as ! n)))))"
| "create_ok as t (CreateFailed i n e) \<longleftrightarrow> unborn (service (as ! n))"
| "create_ok as t _ \<longleftrightarrow> True"

lemma create_ok_other: "n \<notin> set (creates c) \<Longrightarrow> create_ok (as[n := a]) t c = create_ok as t c"
  by (cases "(as, t, c)" rule: create_ok.cases) auto

definition calm :: "nat \<Rightarrow> 'v actor \<Rightarrow> 'v actor \<Rightarrow> bool" where
  "calm t a b \<longleftrightarrow>
     svc_state (service b) = StateDead
     \<or> svc_state (service a) \<noteq> StateDead
       \<and> (svc_vm (service a) = None \<longrightarrow> svc_vm (service b) = None \<and> svc_state (service b) = svc_state (service a))
       \<and> (\<forall>err exit. pending (pc a) = Some (t, err, exit) \<longrightarrow>
            pending (pc b) = pending (pc a) \<and> svc_state (service b) = svc_state (service a))
       \<and> (\<not> live (pc a) \<longrightarrow> svc_state (service b) = svc_state (service a))"

lemma create_ok_actor:
  assumes "create_ok as t c" and "caller_ok (places as) c" and "n < length as" and "calm t (as ! n) b"
  shows "create_ok (as[n := b]) t c"
proof (cases "n \<in> set (creates c)")
  case True
  with assms show ?thesis
    by (cases "(as, t, c)" rule: create_ok.cases) (auto simp: calm_def unborn_def places_def split: if_splits)
qed (simp add: create_ok_other assms(1))

definition create_all :: "'v actor list \<Rightarrow> caller list \<Rightarrow> bool" where
  "create_all as cs \<longleftrightarrow> distinct (concat (map creates cs)) \<and> (\<forall>t < length cs. create_ok as t (cs ! t))"

lemma distinct_concat_update:
  "distinct (concat (map f cs)) \<Longrightarrow> t < length cs \<Longrightarrow> f c = f (cs ! t) \<or> f c = [] \<Longrightarrow> distinct (concat (map f (cs[t := c])))"
proof -
  assume d: "distinct (concat (map f cs))" and t: "t < length cs" and c: "f c = f (cs ! t) \<or> f c = []"
  have "mset (concat (map f (cs[t := c]))) + mset (f (cs ! t)) = mset (concat (map f cs)) + mset (f c)"
    by (rule mset_concat_update [OF t])
  with c have "mset (concat (map f (cs[t := c]))) = mset (concat (map f cs))
      \<or> mset (concat (map f (cs[t := c])) @ f (cs ! t)) = mset (concat (map f cs))" by auto
  with d show ?thesis by (metis distinct_append mset_eq_imp_distinct_iff)
qed

lemma create_step:
  assumes ok: "create_all as cs" and t: "t < length cs" and c: "creates c = creates (cs ! t) \<or> creates c = []"
    and "create_ok as' t c" and other: "\<And>u. u < length cs \<Longrightarrow> u \<noteq> t \<Longrightarrow> create_ok as u (cs ! u) \<Longrightarrow> create_ok as' u (cs ! u)"
  shows "create_all as' (cs[t := c])"
proof -
  have "create_ok as' u (cs[t := c] ! u)" if "u < length cs" for u
    using that assms ok by (cases "u = t") (auto simp: create_all_def)
  moreover have "distinct (concat (map creates (cs[t := c])))"
    using ok t c by (intro distinct_concat_update) (auto simp: create_all_def)
  ultimately show ?thesis by (simp add: create_all_def)
qed

lemma create_actor:
  assumes "create_all as cs" and "\<forall>c \<in> set cs. caller_ok (places as) c" and "n < length as" and "\<And>t. calm t (as ! n) b"
  shows "create_all (as[n := b]) cs"
  using assms unfolding create_all_def by (simp add: create_ok_actor)

lemma create_new: "create_all as cs \<Longrightarrow> creates c = [] \<Longrightarrow> create_all as (cs @ [c])"
  by (cases c) (auto simp: create_all_def nth_append less_Suc_eq split: if_splits)

lemma create_alone:
  assumes "create_all as cs" and "t < length cs" and "u < length cs" and "u \<noteq> t" and "n \<in> set (creates (cs ! t))"
  shows "n \<notin> set (creates (cs ! u))"
  using assms distinct_concat_index [of creates cs t u n] by (auto simp: create_all_def)

lemma svc_create_failed:
  "svc_create ops inp s h = ((Some e, rep, s'), h') \<Longrightarrow> svc_state s' = svc_state s"
  by (auto simp: svc_create_def Let_def split: if_splits prod.splits sum.splits option.splits)

lemma handle_cmd_calm:
  assumes "handle_cmd ops cmd s h = ((exit, err, rep, s'), h')" and "\<And>inp. cmd \<noteq> CmdCreate inp" 
  shows "s' = s"
  using assms by (cases cmd) (auto simp: handle_cmd_def split: option.splits prod.splits)

lemma poll_calm:
  assumes "poll ops s h = ((rep, s'), h')"
  shows "svc_vm s' = svc_vm s \<and> (svc_vm s = None \<longrightarrow> s' = s)"
  using assms by (auto simp: poll_def setState_def split: option.splits if_splits prod.splits)


definition create_inv :: "('v, 'h) sys \<Rightarrow> bool" where
  "create_inv x \<longleftrightarrow> create_all (actors x) (callers x)"

lemma create_unseen:
  "create_inv (x\<lparr>host := h\<rparr>) = create_inv x" "create_inv (x\<lparr>mgr := m\<rparr>) = create_inv x"
  by (simp_all add: create_inv_def)

lemma inv_callers: "mgr_inv x \<Longrightarrow> \<forall>c \<in> set (callers x). caller_ok (places (actors x)) c"
  using own_invD(6) by (auto simp: mgr_inv_def)

lemma create_calm:
  assumes "create_inv x" and "mgr_inv x" and "actor_at x n s p" and "\<And>t. calm t \<lparr>service = s, pc = p\<rparr> \<lparr>service = s', pc = p'\<rparr>"
  shows "create_inv (set_actor n s' p' x)"
  using create_actor [OF assms(1) [unfolded create_inv_def] inv_callers [OF assms(2)], of n] assms(3,4)
  by (simp add: create_inv_def actor_at_def)

lemma create_caller:
  assumes "create_inv x" and "caller_at x t c" and "creates c' = []"
  shows "create_inv (set_caller t c' x)"
proof -
  have "create_ok (actors x) t c'" using assms(3) by (cases c') (auto split: if_splits)
  with assms create_step [of "actors x" "callers x" t c' "actors x"] show ?thesis
    by (simp add: create_inv_def caller_at_def)
qed

lemma create_added: "create_inv x \<Longrightarrow> creates c = [] \<Longrightarrow> create_inv (add_caller c x)"
  by (simp add: create_inv_def create_new)

lemma next_orphan_creates [simp]: "creates (next_orphan is) = []"
  by (cases "is") simp_all

lemma create_unanswered:
  assumes inv: "create_inv x" and at: "caller_at x t (AwaitingReply op i n) \<or> caller_at x t (Sending op i n cmd)" and gone: "is_gone x n"
  shows "create_inv (set_caller t (after_do op i n (Some e)) x)"
proof -
  have t: "t < length (callers x)" and c: "callers x ! t = AwaitingReply op i n \<or> callers x ! t = Sending op i n cmd"
    using at by (auto simp: caller_at_def)
  then have "create_ok (actors x) t (callers x ! t)" using inv by (simp add: create_inv_def create_all_def)
  with c gone have "create_ok (actors x) t (after_do op i n (Some e))"
    by (cases op) (auto simp: is_gone_def unborn_def)
  moreover have "creates (after_do op i n (Some e)) = creates (callers x ! t) \<or> creates (after_do op i n (Some e)) = []"
    using c by (cases op) auto
  ultimately show ?thesis
    using inv create_step [of "actors x" "callers x" t] t by (simp add: create_inv_def)
qed

text \<open>A command is taken by an actor, or panics there.\<close>

lemma create_command:
  assumes inv: "create_inv x" and own: "mgr_inv x" and caller: "caller_at x t (Sending op i n cmd)" and at: "actor_at x n s Waiting"
    and "create_ok ((actors x)[n := b]) t (AwaitingReply op i n)"
    and "op \<noteq> OpCreate \<Longrightarrow> \<forall>u. calm u \<lparr>service = s, pc = Waiting\<rparr> b"
  shows "create_all ((actors x)[n := b]) ((callers x)[t := AwaitingReply op i n])"
proof (rule create_step)
  show "create_all (actors x) (callers x)" using inv by (simp add: create_inv_def)
  show t: "t < length (callers x)" using caller by (simp add: caller_at_def)
  show "creates (AwaitingReply op i n) = creates (callers x ! t) \<or> creates (AwaitingReply op i n) = []"
    using caller by (simp add: caller_at_def)
  fix u assume u: "u < length (callers x)" "u \<noteq> t" "create_ok (actors x) u (callers x ! u)"
  show "create_ok ((actors x)[n := b]) u (callers x ! u)"
  proof (cases "op = OpCreate")
    case True
    with caller have "n \<in> set (creates (callers x ! t))" by (simp add: caller_at_def)
    with u t create_alone [OF inv [unfolded create_inv_def], of t u n] show ?thesis by (simp add: create_ok_other)
  next
    case False
    with assms(6) at u inv_callers [OF own] show ?thesis
      by (intro create_ok_actor) (auto simp: actor_at_def)
  qed
qed (rule assms(5))

lemma create_replied:
  assumes inv: "create_inv x" and own: "mgr_inv x" and at: "actor_at x n s (Replying t err exit)"
    and caller: "caller_at x t (AwaitingReply op i n)"
  shows "create_inv (set_caller t (after_do op i n err) (set_actor n s p x))"
proof -
  let ?as = "(actors x)[n := \<lparr>service = s, pc = p\<rparr>]"
  have t: "t < length (callers x)" "callers x ! t = AwaitingReply op i n" using caller by (simp_all add: caller_at_def)
  have n: "n < length (actors x)" "actors x ! n = \<lparr>service = s, pc = Replying t err exit\<rparr>" using at by (simp_all add: actor_at_def)
  from inv t have "create_ok (actors x) t (AwaitingReply op i n)" by (metis create_inv_def create_all_def)
  with n have "create_ok ?as t (after_do op i n err)"
    by (cases "(op, i, n, err)" rule: after_do.cases) (auto simp: unborn_def)
  moreover have "creates (after_do op i n err) = creates (callers x ! t) \<or> creates (after_do op i n err) = []"
    using t by (cases "(op, i, n, err)" rule: after_do.cases) auto
  moreover have "calm u (actors x ! n) \<lparr>service = s, pc = p\<rparr>" if "u \<noteq> t" for u
    using that n by (auto simp: calm_def)
  ultimately have "create_all ?as ((callers x)[t := after_do op i n err])"
    using inv t n inv_callers [OF own] create_ok_actor [OF _ _ n(1)]
    by (intro create_step [OF inv [unfolded create_inv_def]]) auto
  then show ?thesis by (simp add: create_inv_def)
qed

lemma calm_same: "pending p = None \<or> pending p' = pending p \<Longrightarrow> calm t \<lparr>service = s, pc = p\<rparr> \<lparr>service = s, pc = p'\<rparr>"
  by (auto simp: calm_def)

lemma create_handled:
  assumes inv: "create_inv x" and own: "mgr_inv x" and caller: "caller_at x t (Sending op i n cmd)" and at: "actor_at x n s Waiting"
    and run: "handle_cmd ops cmd s (host x) = ((exit, err, rep, s'), h)"
  shows "create_all ((actors x)[n := \<lparr>service = s', pc = after_state rep (ThenReply t err exit)\<rparr>])
    ((callers x)[t := AwaitingReply op i n])"
proof (rule create_command [OF inv own caller at])
  let ?b = "\<lparr>service = s', pc = after_state rep (ThenReply t err exit)\<rparr>"
  have t: "t < length (callers x)" "callers x ! t = Sending op i n cmd" using caller by (simp_all add: caller_at_def)
  have match: "matching op cmd" using inv_callers [OF own] nth_mem [OF t(1)] t(2) by fastforce
  have n: "n < length (actors x)" "actors x ! n = \<lparr>service = s, pc = Waiting\<rparr>" using at by (simp_all add: actor_at_def)
  from inv t have before: "create_ok (actors x) t (Sending op i n cmd)" by (metis create_inv_def create_all_def)
  have moved: "moved s rep s'" by (rule handle_cmd_moved(1) [OF run])
  have same: "svc_state s' = svc_state s" if "op = OpCreate" "err \<noteq> None"
    using that match run by (auto simp: handle_cmd_def dest: svc_create_failed split: prod.splits)
  show "create_ok ((actors x)[n := ?b]) t (AwaitingReply op i n)"
    using before n moved same by (auto simp: moved_def unborn_def)
  assume "op \<noteq> OpCreate"
  with match run have "s' = s" by (cases op) (auto intro: handle_cmd_calm)
  then show "\<forall>u. calm u \<lparr>service = s, pc = Waiting\<rparr> ?b" by (simp add: calm_same)
qed

theorem mgr_step_creates:
  assumes "mgr_step parse x y" and own: "mgr_inv x" and inv: "create_inv x"
  shows "create_inv y"
  using assms(1)
proof (cases rule: mgr_step.cases)
  case (create_registers inp m)
  let ?n = "length (actors x)" and ?a = "\<lparr>service = newService (in_ID inp), pc = Waiting\<rparr>"
  have bound: "k < ?n" if "c \<in> set (callers x)" "k \<in> set (creates c)" for c k
    using inv_callers [OF own] that by (cases c) (auto split: if_splits)
  have "create_ok (actors x @ [?a]) t (callers x ! t)" if "t < length (callers x)" for t
  proof -
    have "create_ok (actors x) t (callers x ! t)" using inv that by (simp add: create_inv_def create_all_def)
    with bound [OF nth_mem [OF that]] show ?thesis
      by (cases "(actors x, t, callers x ! t)" rule: create_ok.cases) (auto simp: nth_append split: if_splits)
  qed
  moreover have "?n \<notin> set (concat (map creates (callers x)))" using bound by fastforce
  ultimately show ?thesis using create_registers inv
    by (auto simp: create_inv_def create_all_def nth_append less_Suc_eq newService_def unborn_def split: if_splits)
next
  case (command t op i n cmd s ops exit err rep s' h)
  with create_handled [OF inv own command(2-4)] show ?thesis by (simp add: create_inv_def)
next
  case (command_panics t op i n cmd s v rep s' h)
  let ?b = "\<lparr>service = s', pc = after_state rep ThenLeave\<rparr>"
  have "svc_state s' = StateDead" using setState_facts [OF command_panics(4)] by simp
  with command_panics(3) have "create_ok ((actors x)[n := ?b]) t (AwaitingReply op i n)" "\<forall>u. calm u \<lparr>service = s, pc = Waiting\<rparr> ?b"
    by (simp_all add: actor_at_def calm_def)
  from create_command [OF inv own command_panics(2,3) this] command_panics(1) show ?thesis by (simp add: create_inv_def)
next
  case (replies n s t err exit op i)
  with create_replied [OF inv own] show ?thesis by simp
next
  case (vm_exits n s rep s')
  with setState_facts [of StateDead "s\<lparr>svc_exited := False\<rparr>" rep s'] inv own show ?thesis
    by (auto simp: on_exited_def calm_def intro!: create_calm)
next
  case (poll_panics n s rep s' h)
  with setState_facts [OF poll_panics(3)] inv own show ?thesis
    by (auto simp: create_unseen inv_facts calm_def intro!: create_calm)
next
  case (polls n s ops rep s' h)
  have "calm t \<lparr>service = s, pc = Waiting\<rparr> \<lparr>service = s', pc = after_state rep ThenLoop\<rparr>" for t
    using poll_moved [OF polls(3)] poll_calm [OF polls(3)] by (auto simp: calm_def moved_def live_def)
  with polls inv own show ?thesis by (auto simp: create_unseen inv_facts intro!: create_calm)
next
  case (reports n s st k b m)
  with report_view [OF reports(3)] inv own show ?thesis
    by (auto simp: create_unseen inv_facts calm_same intro!: create_calm)
qed (use inv own in \<open>auto simp: create_unseen inv_facts calm_same
    intro!: create_calm create_caller create_unanswered create_added\<close>)

subsection \<open>The life of one identifier\<close>

text \<open>A system that keeps an invariant and moves, seen through a view, only as its specification allows.\<close>

locale simulation =
  fixes step :: "'s \<Rightarrow> 's \<Rightarrow> bool" and inv :: "'s \<Rightarrow> bool" and view :: "'s \<Rightarrow> 'a" and spec :: "'a \<Rightarrow> 'a \<Rightarrow> bool"
  assumes keeps: "step x y \<Longrightarrow> inv x \<Longrightarrow> inv y"
    and simulates: "step x y \<Longrightarrow> inv x \<Longrightarrow> view y = view x \<or> spec (view x) (view y)"
begin

lemma run_keeps: "step\<^sup>*\<^sup>* x y \<Longrightarrow> inv x \<Longrightarrow> inv y"
  by (induction rule: rtranclp_induct) (auto intro: keeps)

lemma run_refines:
  assumes "step\<^sup>*\<^sup>* x y" and "inv x"
  shows "spec\<^sup>*\<^sup>* (view x) (view y)"
  using assms(1)
proof (induction rule: rtranclp_induct)
  case (step y z)
  from simulates [OF step(2) run_keeps [OF step(1) assms(2)]] step(3) show ?case
    by (metis rtranclp.rtrancl_into_rtrancl)
qed simp

end

datatype life = Absent | Hosted SandboxState | Removing

definition life_of :: "Manager \<Rightarrow> string \<Rightarrow> life" where
  "life_of m i =
     (if i \<in> set (deleting m) then Removing
      else case map_of (services m) i of None \<Rightarrow> Absent | Some e \<Rightarrow> Hosted (e_state e))"

inductive life_step :: "life \<Rightarrow> life \<Rightarrow> bool" where
  created: "life_step Absent (Hosted StateStarting)"
| claimed: "life_step Absent Removing"
| changed: "st \<noteq> StateDead \<Longrightarrow> life_step (Hosted st) (Hosted st')"
| removed: "life_step (Hosted st) Removing"
| create_failed: "st = StateStarting \<or> st = StateDead \<Longrightarrow> life_step (Hosted st) Absent"
| released: "life_step Removing Absent"

inductive_simps life_step_simps [simp]: "life_step Absent l" "life_step (Hosted st) l" "life_step Removing l"

lemma keys_disjoint: "mgr_inv x \<Longrightarrow> i \<in> set (deleting (mgr x)) \<Longrightarrow> map_of (services (mgr x)) i = None"
  using own_invD(3) owned_None by (fastforce simp: mgr_inv_def)

lemma Create_life:
  assumes "Create_lock parse inp n m = (r, m')"
  shows "life_of m' i = life_of m i \<or> life_step (life_of m i) (life_of m' i)"
  using assms by (auto simp: Create_lock_def Let_def life_of_def AList.update_conv' split: if_splits)

lemma Remove_life:
  assumes "Remove_lock parse j m = (r, m')"
  shows "life_of m' i = life_of m i \<or> life_step (life_of m i) (life_of m' i)"
  using assms by (auto simp: Remove_lock_def life_of_def AList.delete_conv' split: if_splits option.splits)

lemma release_life:
  assumes "mgr_inv x"
  shows "life_of (release j (mgr x)) i = life_of (mgr x) i \<or> life_step (life_of (mgr x) i) (life_of (release j (mgr x)) i)"
  using keys_disjoint [OF assms, of i] by (auto simp: life_of_def release_def)

lemma claim_life:
  assumes "claim_orphans ids m = (new, m')"
  shows "life_of m' i = life_of m i \<or> life_step (life_of m i) (life_of m' i)"
  using claim_view [OF assms] services_frame(4) [OF assms] owned_None [of m i]
  by (cases "map_of (services m) i") (auto simp: life_of_def)

lemma report_life:
  assumes own: "mgr_inv x" and ok: "state_inv x" and at: "actor_at x n s (Reporting st k)"
    and lock: "report_lock (svc_id s) n st (mgr x) = (b, m)"
  shows "life_of m i = life_of (mgr x) i \<or> life_step (life_of (mgr x) i) (life_of m i)"
proof (cases "\<exists>e. map_of (services (mgr x)) (svc_id s) = Some e \<and> e_svc e = n")
  case True
  then obtain e where e: "map_of (services (mgr x)) (svc_id s) = Some e" "e_svc e = n" by blast
  from at have n: "n < length (actors x)" "actors x ! n = \<lparr>service = s, pc = Reporting st k\<rparr>" by (simp_all add: actor_at_def)
  note ok = ok [unfolded state_inv_def]
  have "svc_state s = st" using states_okD(2) [OF ok nth_mem [OF n(1)]] n(2) by (simp add: report_ok_def)
  then have "st = StateDead" if "e_state e = StateDead"
    using states_okD(1) [OF ok map_of_SomeD [OF e(1)]] n(2) e(2) that by (simp add: entry_ok_def)
  then show ?thesis
    using lock e by (auto simp: report_lock_def life_of_def AList.update_conv')
next
  case False
  then have "m = mgr x" using lock by (auto simp: report_lock_def split: option.splits if_splits)
  then show ?thesis by simp
qed

lemma liveness_life:
  assumes "checkLiveness_lock gone m = (dead, m')"
  shows "life_of m' i = life_of m i \<or> life_step (life_of m i) (life_of m' i)"
proof -
  let ?mark = "\<lambda>e. if newly_dead gone e then e\<lparr>e_state := StateDead\<rparr> else e"
  have "map_of (services m') i = map_option ?mark (map_of (services m) i)" "deleting m' = deleting m"
    using assms by (auto simp: checkLiveness_lock_def map_of_map)
  then show ?thesis by (auto simp: life_of_def newly_dead_def split: option.splits)
qed

definition mgr_all :: "('v, 'h) sys \<Rightarrow> bool" where
  "mgr_all x \<longleftrightarrow> mgr_inv x \<and> state_inv x \<and> create_inv x"

lemma drop_life:
  assumes inv: "mgr_all x" and at: "caller_at x t (CreateFailed j n err)"
  shows "life_of (Create_drop j n (mgr x)) i = life_of (mgr x) i
    \<or> life_step (life_of (mgr x) i) (life_of (Create_drop j n (mgr x)) i)"
proof -
  note inv = inv [unfolded mgr_all_def]
  have t: "t < length (callers x)" "callers x ! t = CreateFailed j n err" using at by (simp_all add: caller_at_def)
  have "create_ok (actors x) t (CreateFailed j n err)" using inv t by (metis create_inv_def create_all_def)
  then have unborn: "unborn (service (actors x ! n))" by simp
  have "caller_ok (places (actors x)) (CreateFailed j n err)"
    using inv_callers inv nth_mem [OF t(1)] t(2) by metis
  then have gone: "n < length (actors x)" "\<not> live (pc (actors x ! n))" by (auto simp: places_def)
  have "e_state e = StateStarting \<or> e_state e = StateDead" if "map_of (services (mgr x)) j = Some e" "e_svc e = n" for e
    using states_okD(1) [OF _ map_of_SomeD [OF that(1)]] inv that(2) gone unborn
    by (fastforce simp: state_inv_def entry_ok_def unborn_def live_def)
  then show ?thesis
    by (auto simp: Create_drop_def life_of_def AList.delete_conv' split: option.splits)
qed

lemma mgr_step_life:
  assumes "mgr_step parse x y" and inv: "mgr_all x"
  shows "life_of (mgr y) i = life_of (mgr x) i \<or> life_step (life_of (mgr x) i) (life_of (mgr y) i)"
  using assms(1)
proof (cases rule: mgr_step.cases)
  case (emits n s st k now)
  then show ?thesis by (simp add: life_of_def)
next
  case (audit_emits t j "is" now)
  then show ?thesis by (simp add: life_of_def)
next
  case (sets_capacity n)
  then show ?thesis by (simp add: life_of_def SetCapacity_def)
next
  case (forwards c cs)
  then show ?thesis by (simp add: life_of_def)
next
  case (create_drops t j n e)
  with drop_life [OF inv create_drops(2)] show ?thesis by simp
next
  case (reports n s st k ok m)
  with report_life [OF _ _ reports(2,3)] inv show ?thesis by (simp add: mgr_all_def)
next
  case (releases t j err)
  with release_life [of x j i] inv show ?thesis by (simp add: mgr_all_def)
next
  case (audit_releases t j "is")
  with release_life [of x j i] inv show ?thesis by (simp add: mgr_all_def)
qed (auto dest: Create_life [of _ _ _ _ _ _ i] Remove_life [of _ _ _ _ _ i] claim_life [of _ _ _ _ i] liveness_life [of _ _ _ _ i])

interpretation life: simulation "mgr_step parse" mgr_all "\<lambda>x. life_of (mgr x) i" life_step for parse i
proof unfold_locales
  fix x y :: "('v, 'h) sys"
  assume "mgr_step parse x y" and "mgr_all x"
  then show "mgr_all y" using mgr_step_inv mgr_step_states mgr_step_creates unfolding mgr_all_def by blast
next
  fix x y :: "('v, 'h) sys"
  assume "mgr_step parse x y" and "mgr_all x"
  then show "life_of (mgr y) i = life_of (mgr x) i \<or> life_step (life_of (mgr x) i) (life_of (mgr y) i)"
    by (rule mgr_step_life)
qed

subsection \<open>After a restart\<close>

lemma recover_each_states:
  assumes "state_inv x" and "callers x = []" and "recover_each att reap query ids x = (k, y)"
  shows "state_inv y \<and> callers y = []"
  using assms
proof (induction ids arbitrary: x k)
  case (Cons i ids)
  show ?case
  proof (cases "att i (host x)")
    case (Inl e)
    with Cons.IH [of "x\<lparr>host := snd (reap i (host x))\<rparr>" k] Cons.prems show ?thesis by (simp add: state_facts)
  next
    case (Inr v)
    obtain answer h where query: "query v (host x) = (answer, h)" by fastforce
    let ?st = "case answer of None \<Rightarrow> StateUnknown | Some st \<Rightarrow> st"
    let ?x = "adopt_vm i v ?st (x\<lparr>host := h\<rparr>)"
    obtain k' where rest: "recover_each att reap query ids ?x = (k', y)"
      using Cons.prems(3) Inr query by (auto split: prod.splits)
    have "state_inv ?x" using Cons.prems(1) unfolding state_inv_def adopt_vm_def adopt_lock_def
      by (simp add: states_entry states_append report_ok_def entry_ok_def svc_adopt_def watch_def nth_append)
    moreover have "callers ?x = []" using Cons.prems(2) by (simp add: adopt_vm_def)
    ultimately show ?thesis by (rule Cons.IH [OF _ _ rest])
  qed
qed simp

lemma Recover_all:
  assumes "Recover att reap query listDisk (init_sys h) = (r, x)" and "\<And>ids. listDisk h = Inr ids \<Longrightarrow> distinct ids"
  shows "mgr_all x"
proof -
  have init: "state_inv (init_sys h)" "callers (init_sys h) = []"
    by (simp_all add: state_inv_def states_ok_def init_sys_def newManager_def)
  have "state_inv x \<and> callers x = []"
  proof (cases "listDisk h")
    case (Inl e)
    with assms(1) init show ?thesis by (auto simp: Recover_def)
  next
    case (Inr ids)
    then obtain k where "recover_each att reap query ids (init_sys h) = (k, x)"
      using assms(1) by (auto simp: Recover_def split: prod.splits)
    with recover_each_states [OF init] show ?thesis by blast
  qed
  with Recover_inv [OF assms] show ?thesis by (simp add: mgr_all_def create_inv_def create_all_def)
qed





end
