(* ===== verification/Worker_Agent.thy ===== *)
theory Worker_Agent
  imports Events Capacity Go_Time Manager_States
begin

text \<open>
  The worker process towards the orchestrator: the identity it reports, registration and heartbeat
  (\<^verbatim>\<open>worker/monitoring.go\<close>, \<^verbatim>\<open>worker/worker_service.go\<close>), the heartbeat loop with its backoff
  (\<^verbatim>\<open>worker/heartbeat.go\<close>), the event reporter (\<^verbatim>\<open>worker/event_reporter.go\<close>) and the gRPC server
  (\<^verbatim>\<open>worker/grpc_client.go\<close>, \<^verbatim>\<open>worker/sandbox.go\<close>).  The two calls to the orchestrator are arguments over a state
  of any type; on the orchestrator of theory \<open>Events\<close> they are its handlers on the database.
\<close>

subsection \<open>The service\<close>

record WorkerService =
  worker :: Worker
  needsRegister :: bool

definition zero_Worker :: Worker where
  "zero_Worker =
     \<lparr>wID = [], Address = [], wPort = 0, wStatus = [], Budget = \<lparr>Cpu_budget = 0, Mem_budget = 0\<rparr>, Capacity = 0,
      FencingToken = 0, Last_heartbeat = zero_time, running_sandboxes = 0, cpu_usage = 0, mem_usage = 0\<rparr>"

definition NewWorkerService :: WorkerService where
  "NewWorkerService = \<lparr>worker = zero_Worker, needsRegister = True\<rparr>"

definition SetWorkerIdentity :: "string \<Rightarrow> string \<Rightarrow> WorkerService \<Rightarrow> WorkerService" where
  "SetWorkerIdentity i address s =
     (let w = worker s;
          w = (if i \<noteq> [] then w\<lparr>wID := i\<rparr> else w);
          w = (if address \<noteq> [] then w\<lparr>Address := address\<rparr> else w)
      in s\<lparr>worker := w\<rparr>)"

definition SetWorkerBudget :: "int \<Rightarrow> int \<Rightarrow> WorkerService \<Rightarrow> WorkerService" where
  "SetWorkerBudget cpu mem s =
     (let b = Budget (worker s);
          b = (if cpu > 0 then b\<lparr>Cpu_budget := cpu\<rparr> else b);
          b = (if mem > 0 then b\<lparr>Mem_budget := mem\<rparr> else b)
      in s\<lparr>worker := (worker s)\<lparr>Budget := b\<rparr>\<rparr>)"

definition SetListenPort :: "int \<Rightarrow> WorkerService \<Rightarrow> WorkerService" where
  "SetListenPort port s = s\<lparr>worker := (worker s)\<lparr>wPort := port\<rparr>\<rparr>"

definition GetWorkerInfo :: "WorkerService \<Rightarrow> Worker" where
  "GetWorkerInfo s = worker s"

subsection \<open>One heartbeat\<close>

text \<open>What the machine tells: \<^verbatim>\<open>/proc/loadavg\<close> and how its text reads as a number, \<^verbatim>\<open>/proc/meminfo\<close>, the interface addresses, the host name, the number
  of CPUs, \<^verbatim>\<open>WORKER_MAX_SANDBOXES\<close> and the clock.\<close>

record metrics =
  met_loadavg :: "string option"
  met_parseFloat :: "string \<Rightarrow> rat option"
  met_meminfo :: "string option"
  met_addrs :: "iface_addr list option"
  met_hostname :: "string option"
  met_numCPU :: int
  met_maxSandboxes :: string
  met_now :: time

definition refresh_worker :: "metrics \<Rightarrow> string \<Rightarrow> Worker \<Rightarrow> Worker" where
  "refresh_worker met hostname w =
     (let address = (case detectWorkerAddress (met_addrs met) of (a, failed) \<Rightarrow> if failed then ''127.0.0.1'' else a);
          w = (if wID w = [] then w\<lparr>wID := hostname\<rparr> else w);
          b = Budget w;
          b = (if Cpu_budget b \<le> 0 then b\<lparr>Cpu_budget := max 1 (met_numCPU met)\<rparr> else b);
          b = (if Mem_budget b \<le> 0 then b\<lparr>Mem_budget := readMemBudgetMB (met_meminfo met)\<rparr> else b);
          w = w\<lparr>Budget := b\<rparr>;
          w = (if Address w = [] then w\<lparr>Address := address\<rparr> else w)
      in w\<lparr>Capacity := computeCapacity (met_maxSandboxes met) (Cpu_budget b) (Mem_budget b),
           cpu_usage := readCPUUsagePercent (met_parseFloat met) (met_loadavg met) (met_numCPU met),
           mem_usage := readMemUsageMB (met_meminfo met),
           wStatus := WorkerStatusActive, Last_heartbeat := met_now met\<rparr>)"

definition heartbeat_of :: "Worker \<Rightarrow> WorkerHeartbeat" where
  "heartbeat_of w =
     \<lparr>WorkerId = wID w, hb_Status = wStatus w, hb_Address = Address w, hb_Port = to_int32 (wPort w),
      hb_Capacity = to_int32 (Capacity w), hb_CpuBudget = to_int32 (Cpu_budget (Budget w)),
      hb_MemBudget = to_int32 (Mem_budget (Budget w)), hb_CpuUsage = to_int32 (cpu_usage w),
      hb_MemUsage = to_int32 (mem_usage w), hb_FencingToken = FencingToken w, InventoryComplete = False,
      hb_Sandboxes = []\<rparr>"

datatype update_error = NoHostname | Rpc grpc_code | InvalidToken

text \<open>The orchestrator as the worker sees it.  A registration may come back without a message.\<close>

record 'o orchestrator =
  orc_Register :: "WorkerHeartbeat \<Rightarrow> 'o \<Rightarrow> (grpc_code + int option) \<times> 'o"
  orc_Report :: "WorkerHeartbeat \<Rightarrow> 'o \<Rightarrow> (grpc_code + unit) \<times> 'o"
  orc_Ingest :: "SandboxEventMsg \<Rightarrow> 'o \<Rightarrow> (grpc_code + unit) \<times> 'o"

text \<open>The first half: the refreshed worker, and a token when the process needs one.\<close>

definition register_phase ::
    "'o orchestrator \<Rightarrow> WorkerService \<Rightarrow> 'o \<Rightarrow> (update_error + WorkerHeartbeat \<times> WorkerService) \<times> 'o" where
  "register_phase orc s z =
     (let hb = heartbeat_of (worker s)
      in if \<not> needsRegister s then (Inr (hb, s), z)
         else
           (case orc_Register orc hb z of
              (Inl code, z1) \<Rightarrow> (Inl (Rpc code), z1)
            | (Inr reg, z1) \<Rightarrow>
                (case reg of
                   None \<Rightarrow> (Inl InvalidToken, z1)
                 | Some token \<Rightarrow>
                     if token \<le> 0 then (Inl InvalidToken, z1)
                     else (Inr (hb\<lparr>hb_FencingToken := token\<rparr>,
                                s\<lparr>worker := (worker s)\<lparr>FencingToken := token\<rparr>, needsRegister := False\<rparr>), z1))))"

text \<open>\<open>shot\<close> is what the sandbox manager's \<^verbatim>\<open>Snapshot\<close> returns at that time; the last result is the capacity handed to its
  \<^verbatim>\<open>SetCapacity\<close>.\<close>

definition UpdateWorker ::
    "'o orchestrator \<Rightarrow> metrics \<Rightarrow> SandboxInventoryEntry list \<Rightarrow> WorkerService \<Rightarrow> 'o
       \<Rightarrow> (update_error + string) \<times> WorkerService \<times> 'o \<times> int option" where
  "UpdateWorker orc met shot s z =
     (case met_hostname met of
        None \<Rightarrow> (Inl NoHostname, s, z, None)
      | Some hostname \<Rightarrow>
          (let s1 = s\<lparr>worker := refresh_worker met hostname (worker s)\<rparr>;
               capacity = Some (Capacity (worker s1))
           in case register_phase orc s1 z of
                (Inl e, z1) \<Rightarrow> (Inl e, s1, z1, capacity)
              | (Inr (hb, s2), z1) \<Rightarrow>
                  (case orc_Report orc (hb\<lparr>hb_Sandboxes := shot, InventoryComplete := True\<rparr>) z1 of
                     (Inl code, z2) \<Rightarrow>
                       (Inl (Rpc code), if code = NotFound then s2\<lparr>needsRegister := True\<rparr> else s2, z2, capacity)
                   | (Inr _, z2) \<Rightarrow> (Inr (wID (worker s1)), s2, z2, capacity))))"

subsection \<open>The heartbeat loop\<close>

definition defaultHeartbeatInterval :: duration where "defaultHeartbeatInterval = 5 * second"
definition heartbeatRefusedBackoffMax :: duration where "heartbeatRefusedBackoffMax = minute"
definition heartbeatRefusedLogEvery :: duration where "heartbeatRefusedLogEvery = 5 * minute"
definition heartbeatRefusedGiveUp :: duration where "heartbeatRefusedGiveUp = 10 * minute"
definition ExitHeartbeatRefused :: int where "ExitHeartbeatRefused = 78"

definition refusedForGood :: "update_error option \<Rightarrow> bool" where
  "refusedForGood err =
     (case err of
        Some (Rpc code) \<Rightarrow> code \<in> {InvalidArgument, Unimplemented, PermissionDenied, Unauthenticated}
      | _ \<Rightarrow> False)"

record refusals =
  rf_count :: nat
  rf_since :: time
  rf_lastLog :: time

definition no_refusals :: refusals where
  "no_refusals = \<lparr>rf_count = 0, rf_since = zero_time, rf_lastLog = zero_time\<rparr>"

definition refusals_record :: "time \<Rightarrow> refusals \<Rightarrow> (bool \<times> bool) \<times> refusals" where
  "refusals_record now r =
     (let r = (if rf_count r = 0 then r\<lparr>rf_since := now\<rparr> else r);
          r = r\<lparr>rf_count := Suc (rf_count r)\<rparr>;
          logIt = (rf_count r = 1 \<or> time_sub now (rf_lastLog r) \<ge> heartbeatRefusedLogEvery);
          r = (if logIt then r\<lparr>rf_lastLog := now\<rparr> else r)
      in ((logIt, time_sub now (rf_since r) \<ge> heartbeatRefusedGiveUp), r))"

fun double_loop :: "nat \<Rightarrow> duration \<Rightarrow> duration" where
  "double_loop 0 d = d"
| "double_loop (Suc n) d = (if d < heartbeatRefusedBackoffMax then double_loop n (d * 2) else d)"

definition refusals_wait :: "duration \<Rightarrow> refusals \<Rightarrow> duration" where
  "refusals_wait interval r =
     max (min (double_loop (rf_count r) interval) heartbeatRefusedBackoffMax) interval"

text \<open>One turn: the clock after the heartbeat and its outcome.  \<open>None\<close> when the loop gives up.\<close>

definition heartbeat_turn :: "duration \<Rightarrow> time \<Rightarrow> update_error option \<Rightarrow> refusals \<Rightarrow> (duration \<times> refusals) option" where
  "heartbeat_turn interval now err streak =
     (if refusedForGood err then
        (case refusals_record now streak of
           ((logIt, giveUp), r) \<Rightarrow> if giveUp then None else Some (refusals_wait interval r, r))
      else
        (let r = (if err = None then no_refusals else streak)
         in Some (refusals_wait interval r, r)))"

text \<open>The turns before the context is done; the waits set, and whether the loop gave up.\<close>

fun heartbeat_loop :: "duration \<Rightarrow> (time \<times> update_error option) list \<Rightarrow> refusals \<Rightarrow> duration list \<times> bool" where
  "heartbeat_loop interval [] streak = ([], False)"
| "heartbeat_loop interval ((now, err) # turns) streak =
     (case heartbeat_turn interval now err streak of
        None \<Rightarrow> ([], True)
      | Some (d, r) \<Rightarrow> (case heartbeat_loop interval turns r of (ds, gaveUp) \<Rightarrow> (d # ds, gaveUp)))"

definition RunHeartbeat :: "duration \<Rightarrow> (time \<times> update_error option) list \<Rightarrow> duration list \<times> bool" where
  "RunHeartbeat interval turns =
     heartbeat_loop (if interval \<le> 0 then defaultHeartbeatInterval else interval) turns no_refusals"

subsection \<open>The event reporter\<close>

definition report_event ::
    "'o orchestrator \<Rightarrow> string \<Rightarrow> string \<Rightarrow> WorkerService \<Rightarrow> StateChange \<Rightarrow> 'o \<Rightarrow> (grpc_code + unit) option \<times> 'o" where
  "report_event orc newID workerID s change z =
     (let info = GetWorkerInfo s
      in if FencingToken info \<le> 0 then (None, z)
         else
           (case orc_Ingest orc
                   \<lparr>msg_Id = newID, msg_SandboxId = chg_SandboxID change, msg_WorkerId = workerID,
                    msg_OccurredAt = Some (chg_At change), msg_FencingToken = FencingToken info,
                    msg_State = chg_State change\<rparr> z of
              (r, z1) \<Rightarrow> (Some r, z1)))"

text \<open>\<^verbatim>\<open>Run\<close> on the changes that arrive before its context is done, each with a fresh identifier and the service at that
  time.\<close>

fun reporter_Run ::
    "'o orchestrator \<Rightarrow> string \<Rightarrow> (string \<times> WorkerService \<times> StateChange) list \<Rightarrow> 'o \<Rightarrow> 'o" where
  "reporter_Run orc workerID [] z = z"
| "reporter_Run orc workerID ((newID, s, change) # changes) z =
     reporter_Run orc workerID changes (snd (report_event orc newID workerID s change z))"

subsection \<open>The gRPC server\<close>

definition checkSandboxID :: "(string \<Rightarrow> bool) \<Rightarrow> string \<Rightarrow> grpc_code option" where
  "checkSandboxID parse i =
     (if CheckSandboxID parse i \<noteq> (None :: unit runtime_error option) then Some InvalidArgument else None)"

text \<open>An error that carries no status reaches the caller as \<^verbatim>\<open>Unknown\<close>.  The wrapped error of a runtime client that
  refused the identifier counts as an invalid identifier.\<close>

fun sandboxError :: "mgr_error \<Rightarrow> grpc_code" where
  "sandboxError (ErrSandboxNotFound i) = NotFound"
| "sandboxError (ErrBusy i) = Unavailable"
| "sandboxError ErrAtCapacity = ResourceExhausted"
| "sandboxError (InvalidSandboxID i) = InvalidArgument"
| "sandboxError (CreateError (VmRuntime (ErrInvalidSandboxID i))) = InvalidArgument"
| "sandboxError _ = UnknownCode"

record CreateSandboxInput =
  csi_ID :: string
  csi_Runtime :: string
  csi_Image :: string
  csi_Port :: int
  csi_TTL :: int
  csi_VcpuCount :: int
  csi_MemSizeMib :: int
  csi_PreviewURL :: string

text \<open>The calls of the sandbox manager are arguments: what they answer to this call.\<close>

definition svc_CreateSandbox :: "(CreateInput \<Rightarrow> mgr_error option) \<Rightarrow> CreateSandboxInput \<Rightarrow> mgr_error option" where
  "svc_CreateSandbox create inp =
     create \<lparr>in_ID = csi_ID inp, in_VcpuCount = csi_VcpuCount inp, in_MemSizeMib = csi_MemSizeMib inp\<rparr>"

definition create_input :: "CreateSandboxRequest \<Rightarrow> CreateSandboxInput" where
  "create_input req =
     \<lparr>csi_ID = req_Id req, csi_Runtime = req_Runtime req, csi_Image = req_Image req, csi_Port = req_Port req,
      csi_TTL = req_Ttl req, csi_VcpuCount = req_VcpuCount req, csi_MemSizeMib = req_MemSizeMib req,
      csi_PreviewURL = req_PreviewUrl req\<rparr>"

definition grpc_CreateSandbox ::
    "(string \<Rightarrow> bool) \<Rightarrow> (CreateInput \<Rightarrow> mgr_error option) \<Rightarrow> CreateSandboxRequest \<Rightarrow> grpc_code option" where
  "grpc_CreateSandbox parse create req =
     (case checkSandboxID parse (req_Id req) of
        Some code \<Rightarrow> Some code
      | None \<Rightarrow>
          if CheckSandboxSize (req_VcpuCount req) (req_MemSizeMib req) \<noteq> None then Some InvalidArgument
          else map_option sandboxError (svc_CreateSandbox create (create_input req)))"

definition grpc_StopSandbox :: "(string \<Rightarrow> bool) \<Rightarrow> (string \<Rightarrow> mgr_error option) \<Rightarrow> string \<Rightarrow> grpc_code option" where
  "grpc_StopSandbox parse stop i =
     (case checkSandboxID parse i of
        Some code \<Rightarrow> Some code
      | None \<Rightarrow> map_option sandboxError (stop i))"

definition grpc_RemoveSandbox :: "(string \<Rightarrow> bool) \<Rightarrow> (string \<Rightarrow> mgr_error option) \<Rightarrow> string \<Rightarrow> grpc_code option" where
  "grpc_RemoveSandbox parse remove i =
     (case checkSandboxID parse i of
        Some code \<Rightarrow> Some code
      | None \<Rightarrow> map_option sandboxError (remove i))"

definition ListRunningSandboxes :: "Manager \<Rightarrow> string list" where
  "ListRunningSandboxes m = map SandboxId (Snapshot m)"

definition grpc_GetWorkerInfo :: "WorkerService \<Rightarrow> WorkerInfo" where
  "grpc_GetWorkerInfo s =
     (let w = GetWorkerInfo s
      in \<lparr>wi_Id = wID w, wi_Address = Address w, wi_Status = wStatus w,
          wi_CpuBudget = to_int32 (Cpu_budget (Budget w)), wi_MemBudget = to_int32 (Mem_budget (Budget w)),
          wi_Capacity = to_int32 (Capacity w), wi_CpuUsage = to_int32 (cpu_usage w),
          wi_MemUsage = to_int32 (mem_usage w), wi_LastHeartbeat = Last_heartbeat w\<rparr>)"

text \<open>From the value of \<^verbatim>\<open>WORKER_HEARTBEAT_INTERVAL\<close>.\<close>

definition heartbeatIntervalFromEnv :: "string \<Rightarrow> duration" where
  "heartbeatIntervalFromEnv env =
     (let raw = TrimSpace env
      in if raw = [] then defaultHeartbeatInterval
         else
           (case ParseDuration raw of
              None \<Rightarrow> defaultHeartbeatInterval
            | Some d \<Rightarrow> if d \<le> 0 then defaultHeartbeatInterval else d))"

datatype serve_error = ListenFailed | HeartbeatRefused | ServeFailed

text \<open>\<^verbatim>\<open>ServeGRPC\<close>: the port the listener bound, the turns of its heartbeat loop, and whether \<^verbatim>\<open>Serve\<close> returned an error.\<close>

definition ServeGRPC ::
    "int option \<Rightarrow> duration \<Rightarrow> (time \<times> update_error option) list \<Rightarrow> bool \<Rightarrow> WorkerService
       \<Rightarrow> serve_error option \<times> WorkerService" where
  "ServeGRPC boundPort interval turns serve_ok s =
     (case boundPort of
        None \<Rightarrow> (Some ListenFailed, s)
      | Some port \<Rightarrow>
          (if snd (RunHeartbeat interval turns) then Some HeartbeatRefused
           else if serve_ok then None else Some ServeFailed,
           SetListenPort port s))"

definition worker_exit_status :: "serve_error option \<Rightarrow> int" where
  "worker_exit_status e =
     (case e of None \<Rightarrow> 0 | Some HeartbeatRefused \<Rightarrow> ExitHeartbeatRefused | Some _ \<Rightarrow> 1)"

subsection \<open>Backing off and giving up\<close>

lemma double_loop_closed:
  assumes "0 < d"
  shows "min (double_loop n d) heartbeatRefusedBackoffMax = min (d * 2 ^ n) heartbeatRefusedBackoffMax"
  using assms
proof (induction n arbitrary: d)
  case (Suc n)
  show ?case
  proof (cases "d < heartbeatRefusedBackoffMax")
    case True
    with Suc.IH [of "d * 2"] Suc.prems show ?thesis by (simp add: mult.assoc)
  next
    case False
    have "1 \<le> (2 :: int) ^ Suc n" by (rule one_le_power) simp
    then have "d * 1 \<le> d * 2 ^ Suc n" using Suc.prems by (intro mult_left_mono) auto
    with False have "heartbeatRefusedBackoffMax \<le> d * 2 ^ Suc n" by linarith
    with False show ?thesis by (simp add: min_absorb2)
  qed
qed simp

lemma refusedForGood_None [simp]: "\<not> refusedForGood None"
  by (simp add: refusedForGood_def)

lemma refusedForGood_Some: "refusedForGood err \<Longrightarrow> \<exists>e. err = Some e"
  by (cases err) simp_all

lemma time_sub_giveUp: "heartbeatRefusedGiveUp \<le> time_sub a b \<longleftrightarrow> heartbeatRefusedGiveUp \<le> a - b"
  by (auto simp: time_sub_def heartbeatRefusedGiveUp_def minute_def second_def int64_max_def int64_min_def)

lemma refusals_wait_closed:
  "0 < interval \<Longrightarrow> refusals_wait interval r = max (min (interval * 2 ^ rf_count r) heartbeatRefusedBackoffMax) interval"
  by (simp add: refusals_wait_def double_loop_closed)

lemma refusals_record_facts:
  "refusals_record now r = ((logIt, giveUp), r') \<Longrightarrow>
     rf_count r' = Suc (rf_count r) \<and> rf_since r' = (if rf_count r = 0 then now else rf_since r)
     \<and> (giveUp \<longleftrightarrow> heartbeatRefusedGiveUp \<le> now - rf_since r')"
  by (auto simp: refusals_record_def Let_def time_sub_giveUp split: if_splits)

lemma loop_waits: "d \<in> set (fst (heartbeat_loop interval turns r)) \<Longrightarrow> interval \<le> d \<and> d \<le> max interval heartbeatRefusedBackoffMax"
proof (induction turns arbitrary: r)
  case (Cons turn turns)
  obtain now err where turn: "turn = (now, err)" by fastforce
  show ?case
  proof (cases "heartbeat_turn interval now err r")
    case (Some x)
    obtain w r' where x: "x = (w, r')" by fastforce
    obtain ds g where rest: "heartbeat_loop interval turns r' = (ds, g)" by fastforce
    have "\<exists>r''. w = refusals_wait interval r''"
      using Some x by (auto simp: heartbeat_turn_def Let_def split: if_splits prod.splits)
    moreover have "d = w \<or> d \<in> set ds" using Cons.prems Some x rest turn by simp
    ultimately show ?thesis using Cons.IH [of r'] rest by (auto simp: refusals_wait_def)
  qed (use Cons.prems turn in simp)
qed simp

lemma loop_gives_up:
  assumes "\<forall>turn \<in> set turns. refusedForGood (snd turn)" and "0 < rf_count r"
    and "\<exists>turn \<in> set turns. heartbeatRefusedGiveUp \<le> fst turn - rf_since r"
  shows "snd (heartbeat_loop interval turns r)"
  using assms
proof (induction turns arbitrary: r)
  case (Cons turn turns)
  obtain now err where turn: "turn = (now, err)" by fastforce
  obtain logIt giveUp r' where rec: "refusals_record now r = ((logIt, giveUp), r')" by (metis prod.exhaust)
  note facts = refusals_record_facts [OF rec]
  have refused: "refusedForGood err" using Cons.prems(1) turn by simp
  show ?case
  proof (cases giveUp)
    case True
    with rec refused turn show ?thesis by (simp add: heartbeat_turn_def)
  next
    case False
    then have "heartbeat_loop interval (turn # turns) r =
        (case heartbeat_loop interval turns r' of (ds, g) \<Rightarrow> (refusals_wait interval r' # ds, g))"
      using rec refused turn by (simp add: heartbeat_turn_def)
    moreover have "snd (heartbeat_loop interval turns r')"
      using Cons.prems facts False turn by (intro Cons.IH) auto
    ultimately show ?thesis by (simp add: split_beta)
  qed
qed simp

text \<open>A streak since \<open>since\<close> that no accepted heartbeat interrupts up to turn \<open>j\<close>.\<close>

definition unaccepted :: "(time \<times> update_error option) list \<Rightarrow> nat \<Rightarrow> nat \<Rightarrow> bool" where
  "unaccepted turns i j \<longleftrightarrow> (\<forall>k. i \<le> k \<and> k \<le> j \<longrightarrow> snd (turns ! k) \<noteq> None)"

lemma loop_gave_up:
  assumes "snd (heartbeat_loop interval turns r)"
  shows "\<exists>j < length turns. refusedForGood (snd (turns ! j))
    \<and> (0 < rf_count r \<and> heartbeatRefusedGiveUp \<le> fst (turns ! j) - rf_since r \<and> unaccepted turns 0 j
       \<or> (\<exists>i \<le> j. heartbeatRefusedGiveUp \<le> fst (turns ! j) - fst (turns ! i) \<and> unaccepted turns i j))"
  using assms
proof (induction turns arbitrary: r)
  case (Cons turn turns)
  obtain now err where turn: "turn = (now, err)" by fastforce
  have shift: "unaccepted (turn # turns) (Suc i) (Suc j)" if "unaccepted turns i j" for i j
    using that unfolding unaccepted_def by (metis Suc_le_D Suc_le_mono nth_Cons_Suc)
  have shift0: "unaccepted (turn # turns) 0 (Suc j)" if "unaccepted turns 0 j" "err \<noteq> None" for j
    using that turn unfolding unaccepted_def by (metis Suc_le_mono diff_Suc_1 le0 not0_implies_Suc nth_Cons_0 nth_Cons_Suc snd_conv)
  show ?case
  proof (cases "heartbeat_turn interval now err r")
    case None
    then obtain logIt r' where rec: "refusals_record now r = ((logIt, True), r')" and "refusedForGood err"
      by (auto simp: heartbeat_turn_def Let_def split: if_splits prod.splits)
    moreover from this(2) have "err \<noteq> None" by (cases err) simp_all
    ultimately show ?thesis using refusals_record_facts [OF rec] turn
      by (intro exI [of _ 0]) (auto simp: unaccepted_def heartbeatRefusedGiveUp_def minute_def second_def split: if_splits)
  next
    case (Some x)
    obtain w r' where x: "x = (w, r')" by fastforce
    have "snd (heartbeat_loop interval turns r')" using Cons.prems Some x turn by (simp add: split_beta)
    from Cons.IH [OF this] obtain j where j: "j < length turns" "refusedForGood (snd (turns ! j))"
      and streak: "0 < rf_count r' \<and> heartbeatRefusedGiveUp \<le> fst (turns ! j) - rf_since r' \<and> unaccepted turns 0 j
       \<or> (\<exists>i \<le> j. heartbeatRefusedGiveUp \<le> fst (turns ! j) - fst (turns ! i) \<and> unaccepted turns i j)" by blast
    have kept: "err \<noteq> None \<and> (rf_count r = 0 \<and> rf_since r' = now \<or> 0 < rf_count r \<and> rf_since r' = rf_since r)" if "0 < rf_count r'"
      using Some x that refusals_record_facts [of now r]
      by (auto simp: heartbeat_turn_def Let_def no_refusals_def dest: refusedForGood_Some split: if_splits prod.splits)
    show ?thesis
    proof (intro exI [of _ "Suc j"] conjI)
      from streak show "0 < rf_count r \<and> heartbeatRefusedGiveUp \<le> fst ((turn # turns) ! Suc j) - rf_since r \<and> unaccepted (turn # turns) 0 (Suc j)
        \<or> (\<exists>i \<le> Suc j. heartbeatRefusedGiveUp \<le> fst ((turn # turns) ! Suc j) - fst ((turn # turns) ! i) \<and> unaccepted (turn # turns) i (Suc j))"
      proof
        assume s: "0 < rf_count r' \<and> heartbeatRefusedGiveUp \<le> fst (turns ! j) - rf_since r' \<and> unaccepted turns 0 j"
        with kept shift0 [of j] turn show ?thesis by (cases "rf_count r = 0") (auto intro!: exI [of _ 0])
      next
        assume "\<exists>i \<le> j. heartbeatRefusedGiveUp \<le> fst (turns ! j) - fst (turns ! i) \<and> unaccepted turns i j"
        then obtain i where "i \<le> j" "heartbeatRefusedGiveUp \<le> fst (turns ! j) - fst (turns ! i)" "unaccepted turns i j" by blast
        with shift [of i j] show ?thesis by (intro disjI2 exI [of _ "Suc i"]) simp
      qed
    qed (use j in simp_all)
  qed
qed simp


lemma spaced_turns:
  assumes "\<forall>k. Suc k < length turns \<longrightarrow> fst (turns ! k) + interval \<le> (fst (turns ! Suc k) :: int)" and "k < length turns"
  shows "fst (turns ! 0) + int k * interval \<le> fst (turns ! k)"
  using assms(2)
proof (induction k)
  case (Suc k)
  with assms(1) have "fst (turns ! k) + interval \<le> fst (turns ! Suc k)" by blast
  with Suc show ?case by (simp add: algebra_simps)
qed simp

text \<open>C25: the heartbeat loop backs off within bounds and ends when it should.  Every wait is at least the interval and at
  most a minute, or the interval when that is longer.  If the orchestrator refuses every heartbeat for good, the
  loop gives up after at most ten minutes' worth of intervals and two more turns; and it gives up only after ten
  minutes in which no heartbeat was accepted.\<close>

theorem heartbeat_gives_up:
  assumes "0 < interval"
  shows "(\<forall>d \<in> set (fst (RunHeartbeat interval turns)). interval \<le> d \<and> d \<le> max interval heartbeatRefusedBackoffMax)
    \<and> ((\<forall>turn \<in> set turns. refusedForGood (snd turn)) \<longrightarrow>
       (\<forall>k. Suc k < length turns \<longrightarrow> fst (turns ! k) + interval \<le> fst (turns ! Suc k)) \<longrightarrow>
       heartbeatRefusedGiveUp div interval + 2 \<le> int (length turns) \<longrightarrow> snd (RunHeartbeat interval turns))
    \<and> (snd (RunHeartbeat interval turns) \<longrightarrow>
       (\<exists>i j. i \<le> j \<and> j < length turns \<and> heartbeatRefusedGiveUp \<le> fst (turns ! j) - fst (turns ! i)
          \<and> (\<forall>k. i \<le> k \<and> k \<le> j \<longrightarrow> snd (turns ! k) \<noteq> None)))"
proof (intro conjI impI)
  have loop: "RunHeartbeat interval turns = heartbeat_loop interval turns no_refusals"
    using assms by (simp add: RunHeartbeat_def)
  show "\<forall>d \<in> set (fst (RunHeartbeat interval turns)). interval \<le> d \<and> d \<le> max interval heartbeatRefusedBackoffMax"
    unfolding loop using loop_waits by blast
  show "\<exists>i j. i \<le> j \<and> j < length turns \<and> heartbeatRefusedGiveUp \<le> fst (turns ! j) - fst (turns ! i)
      \<and> (\<forall>k. i \<le> k \<and> k \<le> j \<longrightarrow> snd (turns ! k) \<noteq> None)" if "snd (RunHeartbeat interval turns)"
    using loop_gave_up [OF that [unfolded loop]] unfolding unaccepted_def by (auto simp: no_refusals_def)
  assume refused: "\<forall>turn \<in> set turns. refusedForGood (snd turn)"
    and spaced: "\<forall>k. Suc k < length turns \<longrightarrow> fst (turns ! k) + interval \<le> fst (turns ! Suc k)"
    and long: "heartbeatRefusedGiveUp div interval + 2 \<le> int (length turns)"
  have "0 \<le> heartbeatRefusedGiveUp div interval"
    using assms by (simp add: pos_imp_zdiv_nonneg_iff heartbeatRefusedGiveUp_def minute_def second_def)
  with long have len: "2 \<le> length turns" by linarith
  then obtain now err rest where turns: "turns = (now, err) # rest" "rest \<noteq> []"
    by (cases turns; cases "tl turns") auto
  let ?k = "length turns - 1"
  have "heartbeatRefusedGiveUp \<le> (heartbeatRefusedGiveUp div interval + 1) * interval"
    using div_mult_mod_eq [of heartbeatRefusedGiveUp interval] pos_mod_bound [OF assms, of heartbeatRefusedGiveUp]
    unfolding distrib_right mult_1 by linarith
  also have "\<dots> \<le> int ?k * interval" using assms long len by (intro mult_right_mono) auto
  also have "\<dots> \<le> fst (turns ! ?k) - now" using spaced_turns [OF spaced, of ?k] len turns by simp
  finally have late: "heartbeatRefusedGiveUp \<le> fst (last rest) - now"
    using turns by (simp add: last_conv_nth nth_Cons')
  obtain logIt giveUp r where rec: "refusals_record now no_refusals = ((logIt, giveUp), r)" by (metis prod.exhaust)
  note facts = refusals_record_facts [OF rec]
  have "\<not> giveUp" using facts by (simp add: no_refusals_def heartbeatRefusedGiveUp_def minute_def second_def)
  then have "heartbeat_loop interval turns no_refusals =
      (case heartbeat_loop interval rest r of (ds, g) \<Rightarrow> (refusals_wait interval r # ds, g))"
    using rec refused turns by (simp add: heartbeat_turn_def)
  moreover have "snd (heartbeat_loop interval rest r)"
    using refused facts late turns last_in_set [of rest]
    by (intro loop_gives_up) (auto simp: no_refusals_def intro!: bexI [of _ "last rest"])
  ultimately show "snd (RunHeartbeat interval turns)" unfolding loop by (simp add: split_beta)
qed

theorem heartbeat_gives_up_witness:
  "let turns = map (\<lambda>k. (int k * minute, Some (Rpc Unimplemented))) [0..<12]
   in heartbeatRefusedGiveUp div minute + 2 \<le> int (length turns) \<and> snd (RunHeartbeat minute turns)"
proof -
  let ?turns = "map (\<lambda>k. (int k * minute, Some (Rpc Unimplemented))) [0..<12]"
  have "\<forall>turn \<in> set ?turns. refusedForGood (snd turn)" by (simp add: refusedForGood_def)
  moreover have "\<forall>k. Suc k < length ?turns \<longrightarrow> fst (?turns ! k) + minute \<le> fst (?turns ! Suc k)"
    by (simp add: algebra_simps)
  moreover have "heartbeatRefusedGiveUp div minute + 2 \<le> int (length ?turns)"
    by (simp add: heartbeatRefusedGiveUp_def minute_def second_def)
  moreover have "0 < minute" by (simp add: minute_def second_def)
  ultimately show ?thesis using heartbeat_gives_up [of minute ?turns] unfolding Let_def by blast
qed

end
