(* ===== verification/Worker_Protocol.thy ===== *)
theory Worker_Protocol
  imports Worker_Agent
begin

text \<open>
  The worker of theory \<open>Worker_Agent\<close> with the orchestrator of theory \<open>Events\<close> on the other side: a process that has been
  replaced, a database that forgot, the inventory of the sandbox manager as the orchestrator reads it, and what
  the answers of the gRPC server say of the sandboxes on the host.
\<close>

subsection \<open>The two sides\<close>

definition orchestrator_of :: "string \<Rightarrow> time \<Rightarrow> db orchestrator" where
  "orchestrator_of newID now =
     \<lparr>orc_Register = (\<lambda>hb d. case RegisterWorker now (Some hb) d of (r, d1) \<Rightarrow> (map_sum id Some r, d1)),
      orc_Report = (\<lambda>hb. ReportWorkerHeartbeat True now (Some hb)),
      orc_Ingest = (\<lambda>m. IngestSandboxEvent newID now (Some m))\<rparr>"

lemma orchestrator_of_sel [simp]:
  "orc_Report (orchestrator_of newID now) hb = ReportWorkerHeartbeat True now (Some hb)"
  "orc_Ingest (orchestrator_of newID now) m = IngestSandboxEvent newID now (Some m)"
  by (simp_all add: orchestrator_of_def)

lemma heartbeat_of_sel [simp]:
  "WorkerId (heartbeat_of w) = wID w" "hb_FencingToken (heartbeat_of w) = FencingToken w" "hb_Status (heartbeat_of w) = wStatus w"
  by (simp_all add: heartbeat_of_def)

lemma refresh_worker_sel [simp]:
  "FencingToken (refresh_worker met hn w) = FencingToken w" "wStatus (refresh_worker met hn w) = WorkerStatusActive"
  "wID w \<noteq> [] \<Longrightarrow> wID (refresh_worker met hn w) = wID w" "wPort (refresh_worker met hn w) = wPort w"
  by (simp_all add: refresh_worker_def Let_def)

lemma register_phase_orchestrator:
  assumes "needsRegister s" and "register_phase (orchestrator_of newID now) s d = (Inr (hb, s'), d')"
  shows "RegisterWorker now (Some (heartbeat_of (worker s))) d = (Inr (FencingToken (worker s')), d')"
    "\<not> needsRegister s'" "wID (worker s') = wID (worker s)" "0 < FencingToken (worker s')"
    "hb = (heartbeat_of (worker s))\<lparr>hb_FencingToken := FencingToken (worker s')\<rparr>"
proof -
  let ?hb = "heartbeat_of (worker s)"
  obtain r d1 where reg: "RegisterWorker now (Some ?hb) d = (r, d1)" by fastforce
  obtain token where r: "r = Inr token" "0 < token" "d' = d1" "hb = ?hb\<lparr>hb_FencingToken := token\<rparr>"
    "s' = s\<lparr>worker := (worker s)\<lparr>FencingToken := token\<rparr>, needsRegister := False\<rparr>"
    using assms reg by (cases r) (auto simp: register_phase_def Let_def orchestrator_of_def split: if_splits)
  show "RegisterWorker now (Some ?hb) d = (Inr (FencingToken (worker s')), d')"
    "\<not> needsRegister s'" "wID (worker s') = wID (worker s)" "0 < FencingToken (worker s')"
    "hb = ?hb\<lparr>hb_FencingToken := FencingToken (worker s')\<rparr>"
    using reg r by simp_all
qed

lemma Register_token_above:
  assumes "wf_db d" and "RegisterWorker now (Some hb) d = (Inr token, d')" and "worker_row_of (TrimSpace (WorkerId hb)) d = Some r"
  shows "wr_fencing_token r < token"
proof -
  obtain w where "wrk_Register (workerFromHeartbeat now hb) d = (Inr w, d')" "FencingToken w = token"
    using assms(2) by (rule RegisterWorker_ok)
  with assms(3) show ?thesis by (auto simp: wrk_Register_def Let_def scanWorker_def split: if_splits)
qed

text \<open>A process that does not need a token sends its heartbeat with the one it holds.\<close>

lemma UpdateWorker_registered:
  assumes "\<not> needsRegister s" and "met_hostname met = Some hn"
  shows "UpdateWorker orc met shot s z =
    (let s1 = s\<lparr>worker := refresh_worker met hn (worker s)\<rparr>;
         hb = (heartbeat_of (worker s1))\<lparr>hb_Sandboxes := shot, InventoryComplete := True\<rparr>
     in case orc_Report orc hb z of
          (Inl code, z1) \<Rightarrow> (Inl (Rpc code), if code = NotFound then s1\<lparr>needsRegister := True\<rparr> else s1, z1, Some (Capacity (worker s1)))
        | (Inr _, z1) \<Rightarrow> (Inr (wID (worker s1)), s1, z1, Some (Capacity (worker s1))))"
  using assms by (simp add: UpdateWorker_def register_phase_def Let_def)

text \<open>A registration succeeds as long as the tokens fit their column, and a heartbeat with the token of the row is accepted.\<close>

definition token_room :: "string \<Rightarrow> int \<Rightarrow> db \<Rightarrow> bool" where
  "token_room w token d \<longleftrightarrow>
     token < int64_max \<and> (\<forall>r. worker_row_of w d = Some r \<longrightarrow> wr_fencing_token r < int64_max)"

lemma register_phase_ok:
  assumes "wf_db d" and "needsRegister s" and "TrimSpace (wID (worker s)) \<noteq> []"
    and "token_room (TrimSpace (wID (worker s))) (FencingToken (worker s)) d"
  shows "\<exists>hb s' d'. register_phase (orchestrator_of newID now) s d = (Inr (hb, s'), d')
    \<and> FencingToken (worker s) < FencingToken (worker s')
    \<and> (\<exists>r. worker_row_of (TrimSpace (wID (worker s))) d' = Some r \<and> wr_fencing_token r = FencingToken (worker s'))"
proof -
  let ?hb = "heartbeat_of (worker s)" and ?w = "TrimSpace (wID (worker s))"
  let ?W = "workerFromHeartbeat now ?hb"
  have "\<exists>W'. fst (wrk_Register ?W d) = Inr W'"
    using assms(4) by (cases "worker_row_of ?w d") (auto simp: wrk_Register_def Let_def token_room_def int64_max_def)
  then obtain W' d' where reg: "wrk_Register ?W d = (Inr W', d')" by (metis prod.collapse)
  have above: "FencingToken (worker s) < FencingToken W' \<and> 0 < FencingToken W'"
  proof (cases "worker_row_of ?w d")
    case None
    with reg show ?thesis by (auto simp: wrk_Register_def Let_def scanWorker_def wrk_insert_def split: if_splits)
  next
    case (Some r)
    with assms(1) have "worker_row_ok r" by (auto dest!: row_by_SomeD intro: wf_worker_row)
    with Some reg show ?thesis
      by (auto simp: wrk_Register_def Let_def scanWorker_def worker_row_ok_def split: if_splits)
  qed
  have "RegisterWorker now (Some ?hb) d = (Inr (FencingToken W'), d')"
    using assms(3) reg by (simp add: RegisterWorker_def)
  then have "register_phase (orchestrator_of newID now) s d =
      (Inr (?hb\<lparr>hb_FencingToken := FencingToken W'\<rparr>, s\<lparr>worker := (worker s)\<lparr>FencingToken := FencingToken W'\<rparr>, needsRegister := False\<rparr>), d')"
    using assms(2) above by (simp add: register_phase_def orchestrator_of_def Let_def)
  moreover have "\<exists>r. worker_row_of ?w d' = Some r \<and> wr_fencing_token r = FencingToken W'"
    using Register_token [OF assms(1) reg] by simp
  ultimately show ?thesis using above by auto
qed

lemma register_phase_wf:
  assumes "wf_db d" and "needsRegister s" and "register_phase (orchestrator_of newID now) s d = (Inr (hb, s'), d')"
  shows "wf_db d'"
proof -
  have "RegisterWorker now (Some (heartbeat_of (worker s))) d = (Inr (FencingToken (worker s')), d')"
    by (rule register_phase_orchestrator(1) [OF assms(2,3)])
  then obtain w where "wrk_Register (workerFromHeartbeat now (heartbeat_of (worker s))) d = (Inr w, d')"
    by (rule RegisterWorker_ok)
  with wrk_register.keeps_wf [OF assms(1)] show ?thesis by (metis snd_conv)
qed

lemma heartbeat_current:
  assumes "wf_db d" and "TrimSpace (WorkerId hb) \<noteq> []" and "0 < hb_FencingToken hb" and "InventoryComplete hb"
    and "worker_row_of (TrimSpace (WorkerId hb)) d = Some r" and "wr_fencing_token r = hb_FencingToken hb"
  shows "\<exists>d'. ReportWorkerHeartbeat True now (Some hb) d = (Inr (), d')"
proof -
  let ?W = "workerFromHeartbeat now hb"
  have "\<exists>x. fst (wrk_Update ?W d) = Inr x" using assms(5,6) by (simp add: wrk_Update_outcome [OF assms(1)])
  then obtain x d1 where u: "wrk_Update ?W d = (Inr x, d1)" by (metis prod.collapse)
  obtain y d2 where c: "ClaimInventory (wID ?W) (FencingToken ?W) d1 = (Inr y, d2)"
    by (simp add: ClaimInventory_def Let_def)
  obtain res d3 where "ReconcileInventory (wID ?W) y (inventoryFromEntries (hb_Sandboxes hb)) d2 = (Inr res, d3)"
    using ReconcileInventory_ok by (metis prod.collapse)
  with u c assms(2-4) show ?thesis
    by (simp add: ReportWorkerHeartbeat_def reconcileHeartbeat_def Let_def)
qed

subsection \<open>A process that has been replaced\<close>

text \<open>C9: two processes of one worker never both write.  Once process A has its token and, later, process B of the same
  worker has registered, then in every database reached from there A's heartbeats are refused with
  \<^verbatim>\<open>FailedPrecondition\<close> and change nothing, so are the events it reports, and A does not register again: it keeps its
  token and stays refused.\<close>

theorem replaced_process_stays_fenced:
  assumes "wf_db d0" and "needsRegister a0" and "register_phase (orchestrator_of i1 t1) a0 d0 = (Inr (hb1, a), d1)"
    and "legal_db d1 d2" and "wf_db d2"
    and "needsRegister b0" and "register_phase (orchestrator_of i2 t2) b0 d2 = (Inr (hb2, b), d3)"
    and "legal_db d3 d" and "wf_db d"
    and "TrimSpace (wID (worker a0)) \<noteq> []" and "TrimSpace (wID (worker b0)) = TrimSpace (wID (worker a0))"
    and "met_hostname met = Some hn" and "TrimSpace wid = TrimSpace (wID (worker a0))"
    and "TrimSpace (chg_SandboxID change) \<noteq> []" and "chg_State change \<noteq> SANDBOX_STATE_UNSPECIFIED"
  shows "(\<exists>a' capacity. UpdateWorker (orchestrator_of i3 t3) met shot a d = (Inl (Rpc FailedPrecondition), a', d, capacity)
      \<and> \<not> needsRegister a' \<and> FencingToken (worker a') = FencingToken (worker a))
    \<and> report_event (orchestrator_of i3 t3) i4 wid a change d = (Some (Inl FailedPrecondition), d)"
proof
  let ?w = "TrimSpace (wID (worker a0))"
  note A = register_phase_orchestrator [OF assms(2,3)] and B = register_phase_orchestrator [OF assms(6,7)]
  obtain r where r: "worker_row_of ?w d2 = Some r" "FencingToken (worker a) \<le> wr_fencing_token r"
    using stale_token [OF assms(1) A(1) assms(4)] by auto
  then have "wr_fencing_token r < FencingToken (worker b)"
    using Register_token_above [OF assms(5) B(1)] assms(11) by simp
  moreover obtain q where q: "worker_row_of ?w d = Some q" "FencingToken (worker b) \<le> wr_fencing_token q"
    using stale_token [OF assms(5) B(1) assms(8)] assms(11) by auto
  ultimately have less: "FencingToken (worker a) < wr_fencing_token q" using r(2) by linarith
  have id: "wID (worker a) = wID (worker a0)" "wID (worker a) \<noteq> []" using A(3) assms(10) by auto
  let ?s = "a\<lparr>worker := refresh_worker met hn (worker a)\<rparr>"
  let ?hb = "(heartbeat_of (worker ?s))\<lparr>hb_Sandboxes := shot, InventoryComplete := True\<rparr>"
  have "fst (wrk_Update (workerFromHeartbeat t3 ?hb) d) = Inl ErrFenced"
    using q less id by (simp add: wrk_Update_outcome [OF assms(9)])
  then have "wrk_Update (workerFromHeartbeat t3 ?hb) d = (Inl ErrFenced, d)"
    using wrk_Update_refused [OF assms(9)] by (metis prod.collapse)
  then have "ReportWorkerHeartbeat True t3 (Some ?hb) d = (Inl FailedPrecondition, d)"
    using id assms(10) A(4) by (simp add: ReportWorkerHeartbeat_def reconcileHeartbeat_def Let_def)
  then show "\<exists>a' capacity. UpdateWorker (orchestrator_of i3 t3) met shot a d = (Inl (Rpc FailedPrecondition), a', d, capacity)
      \<and> \<not> needsRegister a' \<and> FencingToken (worker a') = FencingToken (worker a)"
    using A(2) by (simp add: UpdateWorker_registered [OF A(2) assms(12)] Let_def)
  show "report_event (orchestrator_of i3 t3) i4 wid a change d = (Some (Inl FailedPrecondition), d)"
    using q less A(4) assms(10,13-15)
    by (auto simp: report_event_def GetWorkerInfo_def Let_def IngestSandboxEvent_def CreateSandboxEvent_def)
qed

definition sample_agent :: "int \<Rightarrow> WorkerService" where
  "sample_agent token = \<lparr>worker = sample_process token, needsRegister = True\<rparr>"

definition sample_metrics :: metrics where
  "sample_metrics =
     \<lparr>met_loadavg = None, met_parseFloat = (\<lambda>_. None), met_meminfo = None, met_addrs = None, met_hostname = Some ''node-1'', met_numCPU = 4,
      met_maxSandboxes = [], met_now = 0\<rparr>"

lemma sample_agent_sel [simp]:
  "needsRegister (sample_agent k)" "wID (worker (sample_agent k)) = ''w1''" "FencingToken (worker (sample_agent k)) = k"
  by (simp_all add: sample_agent_def sample_process_def)

lemma sample_metrics_host [simp]: "met_hostname sample_metrics = Some ''node-1''"
  by (simp add: sample_metrics_def)

lemma sample_row_token: "worker_row_of ''w1'' sample_db = Some r \<Longrightarrow> wr_fencing_token r = 3"
  by (auto simp: sample_simps)

lemma sample_registers:
  "\<exists>hb s' d'. register_phase (orchestrator_of i t) (sample_agent 0) sample_db = (Inr (hb, s'), d') \<and> wf_db d'
     \<and> token_room ''w1'' 0 d'"
proof -
  have "token_room ''w1'' 0 sample_db"
    by (auto simp: token_room_def int64_max_def dest: sample_row_token)
  with register_phase_ok [OF sample_wf, of "sample_agent 0" i t] obtain hb s' d'
    where run: "register_phase (orchestrator_of i t) (sample_agent 0) sample_db = (Inr (hb, s'), d')" by auto
  note R = register_phase_orchestrator [OF _ run, simplified]
  obtain w where w: "wrk_Register (workerFromHeartbeat t (heartbeat_of (worker (sample_agent 0)))) sample_db = (Inr w, d')"
    using R(1) by (rule RegisterWorker_ok)
  have "worker_row_of ''w1'' d' = Some r \<Longrightarrow> wr_fencing_token r = 4" for r
    using w by (auto simp: wrk_Register_def Let_def sample_simps row_by_upd_where split: if_splits)
  then have "token_room ''w1'' 0 d'" by (auto simp: token_room_def int64_max_def)
  with run register_phase_wf [OF sample_wf _ run] show ?thesis by auto
qed

theorem replaced_process_stays_fenced_witness:
  "\<exists>a b d1 d. (\<exists>hb. register_phase (orchestrator_of ''x'' 0) (sample_agent 0) sample_db = (Inr (hb, a), d1))
     \<and> (\<exists>hb. register_phase (orchestrator_of ''y'' 1) (sample_agent 0) d1 = (Inr (hb, b), d))
     \<and> fst (UpdateWorker (orchestrator_of ''z'' 2) sample_metrics [] a d) = Inl (Rpc FailedPrecondition)"
proof -
  obtain hb1 a d1 where A: "register_phase (orchestrator_of ''x'' 0) (sample_agent 0) sample_db = (Inr (hb1, a), d1)"
    and d1: "wf_db d1" "token_room ''w1'' 0 d1" using sample_registers by blast
  obtain hb2 b d where B: "register_phase (orchestrator_of ''y'' 1) (sample_agent 0) d1 = (Inr (hb2, b), d)"
    using register_phase_ok [OF d1(1), of "sample_agent 0" "''y''" 1] d1(2) by auto
  have d: "wf_db d" by (rule register_phase_wf [OF d1(1) _ B]) simp
  let ?change = "\<lparr>chg_SandboxID = ''b'', chg_State = SANDBOX_STATE_RUNNING, chg_At = 0\<rparr>"
  from replaced_process_stays_fenced [OF sample_wf _ A legal_db_refl d1(1) _ B legal_db_refl d, where met = sample_metrics
      and hn = "''node-1''" and wid = "''w1''" and change = ?change and ?i3.0 = "''z''" and ?t3.0 = 2 and shot = "[]" and ?i4.0 = "''e''"]
  have "fst (UpdateWorker (orchestrator_of ''z'' 2) sample_metrics [] a d) = Inl (Rpc FailedPrecondition)"
    by auto
  with A B show ?thesis by blast
qed

subsection \<open>A database that forgot\<close>

text \<open>C26: a worker survives a database restored from an older backup.  When the database does not know the worker, or
  knows it with a lower token, a heartbeat of the current process is answered \<^verbatim>\<open>NotFound\<close>, changes nothing and makes
  the process register again; its next heartbeat then gets a token above the one it held, which the row carries,
  and is accepted.\<close>

theorem forgotten_worker_registers_again:
  assumes "wf_db d" and "\<not> needsRegister s" and "0 < FencingToken (worker s)"
    and "TrimSpace (wID (worker s)) \<noteq> []" and "token_room (TrimSpace (wID (worker s))) (FencingToken (worker s)) d"
    and "\<forall>r. worker_row_of (TrimSpace (wID (worker s))) d = Some r \<longrightarrow> wr_fencing_token r < FencingToken (worker s)"
    and "met_hostname met1 = Some hn1" and "met_hostname met2 = Some hn2"
  shows "\<exists>s1 c1 s2 d2 c2. UpdateWorker (orchestrator_of i1 t1) met1 shot1 s d = (Inl (Rpc NotFound), s1, d, c1)
    \<and> needsRegister s1
    \<and> UpdateWorker (orchestrator_of i2 t2) met2 shot2 s1 d = (Inr (wID (worker s)), s2, d2, c2)
    \<and> \<not> needsRegister s2 \<and> FencingToken (worker s) < FencingToken (worker s2)"
proof -
  let ?w = "TrimSpace (wID (worker s))"
  have id: "wID (worker s) \<noteq> []" using assms(4) by auto
  let ?s1 = "s\<lparr>worker := refresh_worker met1 hn1 (worker s), needsRegister := True\<rparr>"
  let ?hb = "(heartbeat_of (refresh_worker met1 hn1 (worker s)))\<lparr>hb_Sandboxes := shot1, InventoryComplete := True\<rparr>"
  have "fst (wrk_Update (workerFromHeartbeat t1 ?hb) d) = Inl ErrWorkerUnknown"
    using assms(6) id by (auto simp: wrk_Update_outcome [OF assms(1)] split: option.splits)
  then have "wrk_Update (workerFromHeartbeat t1 ?hb) d = (Inl ErrWorkerUnknown, d)"
    using wrk_Update_refused [OF assms(1)] by (metis prod.collapse)
  then have "ReportWorkerHeartbeat True t1 (Some ?hb) d = (Inl NotFound, d)"
    using id assms(3,4) by (simp add: ReportWorkerHeartbeat_def reconcileHeartbeat_def Let_def)
  then have first: "UpdateWorker (orchestrator_of i1 t1) met1 shot1 s d =
      (Inl (Rpc NotFound), ?s1, d, Some (Capacity (refresh_worker met1 hn1 (worker s))))"
    by (simp add: UpdateWorker_registered [OF assms(2,7)] Let_def)
  let ?s = "?s1\<lparr>worker := refresh_worker met2 hn2 (worker ?s1)\<rparr>"
  have s: "needsRegister ?s" "wID (worker ?s) = wID (worker s)" "FencingToken (worker ?s) = FencingToken (worker s)"
    using id by simp_all
  obtain hb s2 d1 r where reg: "register_phase (orchestrator_of i2 t2) ?s d = (Inr (hb, s2), d1)"
    and up: "FencingToken (worker s) < FencingToken (worker s2)"
    and row: "worker_row_of ?w d1 = Some r" "wr_fencing_token r = FencingToken (worker s2)"
    using register_phase_ok [OF assms(1) s(1), of i2 t2] assms(4,5) unfolding s by blast
  note R = register_phase_orchestrator [OF s(1) reg]
  let ?hb2 = "hb\<lparr>hb_Sandboxes := shot2, InventoryComplete := True\<rparr>"
  obtain d2 where "ReportWorkerHeartbeat True t2 (Some ?hb2) d1 = (Inr (), d2)"
    using heartbeat_current [OF register_phase_wf [OF assms(1) s(1) reg], of ?hb2 r t2] row R(4,5) assms(4) s(2) by auto
  then have "UpdateWorker (orchestrator_of i2 t2) met2 shot2 ?s1 d =
      (Inr (wID (worker s)), s2, d2, Some (Capacity (worker ?s)))"
    using assms(8) reg s(2) by (simp add: UpdateWorker_def Let_def)
  with first up R(2) show ?thesis by simp
qed

text \<open>A process with token 9 against a database that has it at token 3.\<close>

theorem forgotten_worker_registers_again_witness:
  "\<exists>s1 c1 s2 d2 c2. UpdateWorker (orchestrator_of ''x'' 0) sample_metrics [] ((sample_agent 9)\<lparr>needsRegister := False\<rparr>) sample_db
      = (Inl (Rpc NotFound), s1, sample_db, c1)
    \<and> UpdateWorker (orchestrator_of ''y'' 1) sample_metrics [] s1 sample_db = (Inr ''w1'', s2, d2, c2)
    \<and> 9 < FencingToken (worker s2)"
proof -
  let ?s = "(sample_agent 9)\<lparr>needsRegister := False\<rparr>"
  have "token_room ''w1'' 9 sample_db" "\<forall>r. worker_row_of ''w1'' sample_db = Some r \<longrightarrow> wr_fencing_token r < 9"
    by (auto simp: token_room_def int64_max_def dest: sample_row_token)
  with forgotten_worker_registers_again [OF sample_wf, of ?s sample_metrics "''node-1''" sample_metrics "''node-1''" "''x''" 0 "[]" "''y''" 1 "[]"]
  show ?thesis by simp blast
qed

subsection \<open>Well-formed heartbeats\<close>

text \<open>What a worker process can be after any history, whatever the orchestrators it talked to answered.\<close>

inductive agent :: "WorkerService \<Rightarrow> bool" where
  new: "agent NewWorkerService"
| identity: "agent s \<Longrightarrow> agent (SetWorkerIdentity i a s)"
| budget: "agent s \<Longrightarrow> agent (SetWorkerBudget cpu mem s)"
| port: "agent s \<Longrightarrow> agent (SetListenPort p s)"
| beat: "agent s \<Longrightarrow> UpdateWorker orc met shot s (z :: db) = (r, s', z', c) \<Longrightarrow> agent s'"

lemma UpdateWorker_token:
  assumes "UpdateWorker orc met shot s z = (r, s', z', c)" and "\<not> needsRegister s \<Longrightarrow> 0 < FencingToken (worker s)"
  shows "\<not> needsRegister s' \<Longrightarrow> 0 < FencingToken (worker s')"
  using assms
  by (auto simp: UpdateWorker_def register_phase_def Let_def split: option.splits prod.splits sum.splits if_splits)

lemma agent_token: "agent s \<Longrightarrow> \<not> needsRegister s \<Longrightarrow> 0 < FencingToken (worker s)"
proof (induction rule: agent.induct)
  case (beat s orc met shot z r s' z' c)
  from UpdateWorker_token [OF beat(2) beat.IH] beat.prems show ?case by simp
qed (auto simp: NewWorkerService_def SetWorkerIdentity_def SetWorkerBudget_def SetListenPort_def Let_def)

lemma register_phase_message:
  assumes "register_phase (orchestrator_of newID now) s d = (Inr (hb, s'), d')"
    and "\<not> needsRegister s \<longrightarrow> 0 < FencingToken (worker s)"
  shows "WorkerId hb = wID (worker s)" "0 < hb_FencingToken hb" "wID (worker s') = wID (worker s)"
proof (atomize (full), cases "needsRegister s")
  case True
  from register_phase_orchestrator [OF True assms(1)]
  show "WorkerId hb = wID (worker s) \<and> 0 < hb_FencingToken hb \<and> wID (worker s') = wID (worker s)" by simp
next
  case False
  with assms show "WorkerId hb = wID (worker s) \<and> 0 < hb_FencingToken hb \<and> wID (worker s') = wID (worker s)"
    by (auto simp: register_phase_def Let_def)
qed

text \<open>C27: what a worker sends is well formed for the orchestrator.  After any history, with a name that is not blank, a
  heartbeat of this worker to this orchestrator never gets an answer the worker takes for a refusal for good: it
  always carries a positive token, and a complete inventory.  So the loop never gives up on a matching
  orchestrator, however long a failure lasts.\<close>

theorem heartbeat_is_well_formed:
  assumes "agent s" and "UpdateWorker (orchestrator_of newID now) met shot s d = (Inl e, s', d', c)"
    and "TrimSpace (wID (worker s')) \<noteq> []"
  shows "\<not> refusedForGood (Some e)"
proof (cases "met_hostname met")
  case None
  with assms(2) show ?thesis by (auto simp: UpdateWorker_def refusedForGood_def)
next
  case (Some hn)
  let ?s = "s\<lparr>worker := refresh_worker met hn (worker s)\<rparr>"
  have report: "fst (ReportWorkerHeartbeat True now (Some hb) z) \<noteq> Inl code"
    if "TrimSpace (WorkerId hb) \<noteq> []" "0 < hb_FencingToken hb" "code \<in> {InvalidArgument, Unimplemented, PermissionDenied, Unauthenticated}" for hb z code
  proof -
    have "heartbeatError x \<noteq> code" for x using that(3) by (cases x rule: heartbeatError.cases) auto
    with that show ?thesis
      by (auto simp: ReportWorkerHeartbeat_def Let_def split: prod.splits sum.splits if_splits)
  qed
  have register: "fst (RegisterWorker now (Some hb) z) \<noteq> Inl code"
    if "TrimSpace (WorkerId hb) \<noteq> []" "code \<in> {InvalidArgument, Unimplemented, PermissionDenied, Unauthenticated}" for hb z code
    using that by (auto simp: RegisterWorker_def split: prod.splits sum.splits)
  show ?thesis
  proof (cases "register_phase (orchestrator_of newID now) ?s d")
    case (Pair x d1)
    show ?thesis
    proof (cases x)
      case (Inl err)
      with Pair Some assms(2) have e: "e = err" "s' = ?s" by (simp_all add: UpdateWorker_def Let_def)
      show ?thesis
      proof (cases err)
        case (Rpc code)
        with Inl Pair have "fst (RegisterWorker now (Some (heartbeat_of (worker ?s))) d) = Inl code"
          by (cases "RegisterWorker now (Some (heartbeat_of (worker ?s))) d"; cases "fst (RegisterWorker now (Some (heartbeat_of (worker ?s))) d)")
            (auto simp: register_phase_def orchestrator_of_def Let_def split: if_splits)
        with register [of "heartbeat_of (worker ?s)"] e Rpc assms(3) show ?thesis by (auto simp: refusedForGood_def)
      qed (simp_all add: e refusedForGood_def)
    next
      case (Inr y)
      obtain hb s2 where y: "y = (hb, s2)" by fastforce
      have hb: "WorkerId hb = wID (worker ?s)" "0 < hb_FencingToken hb" "wID (worker s2) = wID (worker ?s)"
        using register_phase_message [of newID now ?s d hb s2 d1] agent_token [OF assms(1)] Inr y Pair by simp_all
      let ?hb = "hb\<lparr>hb_Sandboxes := shot, InventoryComplete := True\<rparr>"
      obtain z d2 where rep: "ReportWorkerHeartbeat True now (Some ?hb) d1 = (z, d2)" by fastforce
      then obtain code where "z = Inl code" "e = Rpc code" "wID (worker s') = wID (worker s2)"
        using Some assms(2) Pair Inr y by (cases z) (auto simp: UpdateWorker_def Let_def split: if_splits)
      with report [of ?hb _ d1] hb assms(3) rep show ?thesis by (auto simp: refusedForGood_def)
    qed
  qed
qed

text \<open>A new process against an orchestrator whose tokens are exhausted: the answer is \<^verbatim>\<open>Internal\<close>, and it goes on trying.\<close>

theorem heartbeat_is_well_formed_witness:
  "let s = SetWorkerIdentity ''w1'' [] NewWorkerService;
       d = sample_db\<lparr>workers := [(sample_worker ''w1'' 4)\<lparr>wr_fencing_token := int64_max\<rparr>]\<rparr>
   in fst (UpdateWorker (orchestrator_of ''x'' 0) sample_metrics [] s d) = Inl (Rpc Internal)
      \<and> \<not> refusedForGood (Some (Rpc Internal))"
proof -
  let ?s = "SetWorkerIdentity ''w1'' [] NewWorkerService"
  let ?d = "sample_db\<lparr>workers := [(sample_worker ''w1'' 4)\<lparr>wr_fencing_token := int64_max\<rparr>]\<rparr>"
  have s: "wID (worker ?s) = ''w1''" "needsRegister ?s" "FencingToken (worker ?s) = 0"
    by (simp_all add: SetWorkerIdentity_def NewWorkerService_def zero_Worker_def)
  have run: "UpdateWorker (orchestrator_of ''x'' 0) sample_metrics [] ?s ?d =
      (Inl (Rpc Internal), ?s\<lparr>worker := refresh_worker sample_metrics ''node-1'' (worker ?s)\<rparr>, ?d,
       Some (Capacity (refresh_worker sample_metrics ''node-1'' (worker ?s))))"
    using s by (simp add: UpdateWorker_def register_phase_def orchestrator_of_def RegisterWorker_def wrk_Register_def Let_def
        sample_worker_def int64_max_def)
  have "agent ?s" by (intro agent.intros)
  from heartbeat_is_well_formed [OF this run] s run show ?thesis by (simp add: Let_def)
qed

end
