(* ===== verification/Worker_Inventory.thy ===== *)
theory Worker_Inventory
  imports Worker_Protocol
begin

text \<open>
  The sandbox manager behind the worker's two interfaces: the inventory that its heartbeat carries into the orchestrator's
  database, the admission of new sandboxes against the budgets of the machine, and what the answers of its gRPC
  server say about the sandboxes on the host.
\<close>

subsection \<open>Tracked identifiers\<close>

definition ids_ok :: "(string \<Rightarrow> bool) \<Rightarrow> Manager \<Rightarrow> bool" where
  "ids_ok parse m \<longleftrightarrow> (\<forall>i \<in> set (map fst (owned m)). IsSandboxID parse i)"

lemma owned_keys: "map fst (owned m) = map fst (services m)"
  by (simp add: owned_def split_beta)

lemma Create_lock_id: "Create_lock parse inp n m = (None, m') \<Longrightarrow> IsSandboxID parse (in_ID inp)"
  by (auto simp: Create_lock_def Let_def CheckSandboxID_def split: if_splits)

lemma ids_fewer: "ids_ok parse m \<Longrightarrow> set (owned m') \<subseteq> set (owned m) \<Longrightarrow> ids_ok parse m'"
  by (auto simp: ids_ok_def)

lemma mgr_step_ids:
  assumes "mgr_step parse x y" and ok: "ids_ok parse (mgr x)"
  shows "ids_ok parse (mgr y)"
  using assms(1)
proof (cases rule: mgr_step.cases)
  case (create_returns inp r m)
  with Create_view(3) [OF create_returns(2)] ok show ?thesis by (simp add: ids_ok_def)
next
  case (create_registers inp m)
  with Create_view(2) [OF create_registers(2)] Create_lock_id [OF create_registers(2)] ok show ?thesis
    by (auto simp: ids_ok_def)
next
  case (remove_returns i e m)
  with Remove_view [OF remove_returns(2)] ok show ?thesis by (simp add: ids_ok_def)
next
  case (remove_sends i n m)
  with Remove_view [OF remove_sends(2)] ids_fewer [OF ok, of m] show ?thesis by auto
next
  case (reports n s st k b m)
  with report_view [OF reports(3)] ok show ?thesis by (simp add: ids_ok_def)
next
  case (create_drops t i n e)
  have "set (owned (Create_drop i n (mgr x))) \<subseteq> set (owned (mgr x))" using Create_drop_view [of i n "mgr x"] by auto
  with create_drops ids_fewer [OF ok] show ?thesis by simp
next
  case (audit_claims t ids orphans m)
  with claim_view [OF audit_claims(3)] ok show ?thesis by (simp add: ids_ok_def)
next
  case (audit_checks dead m)
  with checkLiveness_view [OF audit_checks(2)] ok show ?thesis by (simp add: ids_ok_def)
qed (use ok in \<open>simp_all add: ids_ok_def SetCapacity_def\<close>)

lemma mgr_run_ids: "(mgr_step parse)\<^sup>*\<^sup>* x y \<Longrightarrow> ids_ok parse (mgr x) \<Longrightarrow> ids_ok parse (mgr y)"
  by (induction rule: rtranclp_induct) (auto intro: mgr_step_ids)

lemma recover_each_ids:
  assumes "ids_ok parse (mgr x)" and "\<forall>i \<in> set ids. IsSandboxID parse i" and "recover_each att reap query ids x = (k, y)"
  shows "ids_ok parse (mgr y)"
  using assms
proof (induction ids arbitrary: x k)
  case (Cons i ids)
  show ?case
  proof (cases "att i (host x)")
    case (Inl e)
    with Cons.IH [of "x\<lparr>host := snd (reap i (host x))\<rparr>" k] Cons.prems show ?thesis by simp
  next
    case (Inr v)
    obtain answer h where query: "query v (host x) = (answer, h)" by fastforce
    let ?x = "adopt_vm i v (case answer of None \<Rightarrow> StateUnknown | Some st \<Rightarrow> st) (x\<lparr>host := h\<rparr>)"
    obtain k' where rest: "recover_each att reap query ids ?x = (k', y)"
      using Cons.prems(3) Inr query by (auto split: prod.splits)
    have "set (map fst (owned (mgr ?x))) \<subseteq> insert i (set (map fst (owned (mgr x))))"
      by (simp add: adopt_vm_def adopt_lock_def owned_keys AList.dom_update)
    moreover have "IsSandboxID parse i" using Cons.prems(2) by simp
    ultimately have "ids_ok parse (mgr ?x)" using Cons.prems(1) unfolding ids_ok_def by blast
    with Cons.IH [OF _ _ rest] Cons.prems(2) show ?thesis by simp
  qed
qed simp

lemma Recover_ids:
  assumes "Recover att reap query listDisk (init_sys h) = (r, x)"
    and "\<And>ids. listDisk h = Inr ids \<Longrightarrow> \<forall>i \<in> set ids. IsSandboxID parse i"
  shows "ids_ok parse (mgr x)"
proof (cases "listDisk h")
  case (Inl e)
  with assms(1) show ?thesis by (auto simp: Recover_def ids_ok_def init_sys_def newManager_def owned_def)
next
  case (Inr ids)
  then obtain k where "recover_each att reap query ids (init_sys h) = (k, x)"
    using assms(1) by (auto simp: Recover_def split: prod.splits)
  moreover have "ids_ok parse (mgr (init_sys h))" by (simp add: ids_ok_def init_sys_def newManager_def owned_def)
  ultimately show ?thesis using recover_each_ids [OF _ assms(2) [OF Inr]] by blast
qed

subsection \<open>The inventory reaches the database\<close>

lemma uuid_trimmed: "list_all uuid_char i \<Longrightarrow> TrimSpace i = i"
proof -
  assume i: "list_all uuid_char i"
  have "list_all plain_char ''0123456789abcdefABCDEF-''" by (simp add: plain_char_def)
  with i have "list_all plain_char i" unfolding list_all_iff uuid_char_def by blast
  then show ?thesis by (rule TrimSpace_plain)
qed


lemma snapshot_field:
  assumes "\<And>s. parse s \<Longrightarrow> length s = 36 \<Longrightarrow> list_all uuid_char s" and "ids_ok parse m" and "distinct (map fst (services m))"
    and "map_of (services m) i = Some e"
  shows "i \<in> set (field_of (e_state e) (inventoryFromEntries (Snapshot m)))"
proof -
  have uuid: "TrimSpace j = j \<and> j \<noteq> []" if "j \<in> set (map fst (services m))" for j
  proof -
    have "IsSandboxID parse j" using assms(2) that unfolding ids_ok_def owned_keys by blast
    then have "list_all uuid_char j" "length j = 36" using assms(1) by (auto simp: IsSandboxID_def)
    then show ?thesis using uuid_trimmed by fastforce
  qed
  let ?en = "\<lambda>(i, e). \<lparr>SandboxId = i, entry_State = e_state e\<rparr>"
  have find: "find (\<lambda>en. TrimSpace (SandboxId en) = i) (map ?en es) = Some \<lparr>SandboxId = i, entry_State = e_state e\<rparr>"
    if "map_of es i = Some e" "set es \<subseteq> set (services m)" for es
    using that
  proof (induction es)
    case (Cons p es)
    obtain j f where p: "p = (j, f)" by fastforce
    have "j \<in> set (map fst (services m))" using Cons.prems(2) p by force
    with uuid have "TrimSpace j = j" by blast
    with Cons p show ?case by (auto split: if_splits)
  qed simp
  have "i \<noteq> []" using uuid [of i] map_of_SomeD [OF assms(4)] by force
  from inventory_loop_first [OF _ this find [OF assms(4) subset_refl], of "[]"] show ?thesis
    by (simp add: inventoryFromEntries_def Snapshot_def)
qed

text \<open>What an accepted \<^verbatim>\<open>UpdateWorker\<close> did to the database: perhaps a registration, then one heartbeat with the inventory.\<close>

lemma UpdateWorker_accepted:
  assumes "wf_db d" and "UpdateWorker (orchestrator_of newID now) met shot s d = (Inr wid, s', d', c)"
  obtains hb d1 where "ReportWorkerHeartbeat True now (Some hb) d1 = (Inr (), d')" "wf_db d1" "sandboxes d1 = sandboxes d"
    "hb_Sandboxes hb = shot" "InventoryComplete hb" "WorkerId hb = wid" "hb_Status hb = WorkerStatusActive"
proof -
  obtain hn where hn: "met_hostname met = Some hn" using assms(2) by (auto simp: UpdateWorker_def split: option.splits)
  let ?s = "s\<lparr>worker := refresh_worker met hn (worker s)\<rparr>"
  obtain y d1 where reg: "register_phase (orchestrator_of newID now) ?s d = (y, d1)" by fastforce
  obtain hb s2 where y: "y = Inr (hb, s2)" using assms(2) hn reg
    by (cases y) (auto simp: UpdateWorker_def Let_def)
  let ?hb = "hb\<lparr>hb_Sandboxes := shot, InventoryComplete := True\<rparr>"
  have rep: "ReportWorkerHeartbeat True now (Some ?hb) d1 = (Inr (), d') \<and> wid = wID (worker ?s)"
    using assms(2) hn reg y by (auto simp: UpdateWorker_def Let_def split: prod.splits sum.splits)
  show thesis
  proof (cases "needsRegister s")
    case True
    then have need: "needsRegister ?s" by simp
    note R = register_phase_orchestrator [OF need reg [unfolded y]]
    obtain w where w: "wrk_Register (workerFromHeartbeat now (heartbeat_of (worker ?s))) d = (Inr w, d1)"
      using R(1) by (rule RegisterWorker_ok)
    then have "sandboxes d1 = sandboxes d"
      by (auto simp: wrk_Register_def Let_def split: option.splits if_splits)
    with rep register_phase_wf [OF assms(1) need reg [unfolded y]] R(5) show thesis by (intro that [of ?hb d1]) simp_all
  next
    case False
    with reg y have "hb = heartbeat_of (worker ?s)" "d1 = d" by (auto simp: register_phase_def Let_def)
    with rep assms(1) show thesis by (intro that [of ?hb d1]) simp_all
  qed
qed

text \<open>C3: from the map of the worker to the database of the orchestrator.  Take any moment of any run of the sandbox manager
  after \<^verbatim>\<open>Recover\<close> and a sandbox it hosts as starting, running or paused.  If the heartbeat with the inventory of that
  moment is accepted, the sandbox row this worker holds is still active, and no liveness claim takes it, however
  late it comes, until something else writes the rows.  \<^verbatim>\<open>uuid.Parse\<close> is assumed to accept only hexadecimal digits and
  dashes in 36 characters, the directory listing to name valid identifiers, each once.\<close>

theorem hosted_sandbox_is_vouched:
  assumes uuid: "\<And>s. parse s \<Longrightarrow> length s = 36 \<Longrightarrow> list_all uuid_char s"
    and listing: "\<And>ids. listDisk h = Inr ids \<Longrightarrow> distinct ids \<and> (\<forall>i \<in> set ids. IsSandboxID parse i)"
    and start: "Recover att reap query listDisk (init_sys h) = (r0, x0)" and run: "(mgr_step parse)\<^sup>*\<^sup>* x0 x"
    and hosted: "map_of (services (mgr x)) i = Some e" and alive: "e_state e \<in> {StateStarting, StateRunning, SANDBOX_STATE_PAUSED}"
    and wf: "wf_db d"
    and beat: "UpdateWorker (orchestrator_of newID now) met (Snapshot (mgr x)) s d = (Inr wid, s', d', c)"
    and row: "sandbox_row_of i d = Some r" and mine: "WorkerID r = Some (TrimSpace wid)"
    and active: "sbx_Status r \<in> {StatusAssigned, StatusStarting, StatusRunning}" and "0 \<le> livenessTimeout"
  shows "\<exists>r'. sandbox_row_of i d' = Some r' \<and> sbx_Status r' \<in> {StatusAssigned, StatusStarting, StatusRunning}
    \<and> (\<forall>t. \<not> liveness_expired livenessTimeout workerLostTimeout (d'\<lparr>clock := t\<rparr>) r')"
proof -
  have inv: "mgr_inv x" by (rule mgr_run_inv [OF run Recover_inv [OF start]]) (use listing in blast)
  have keys: "distinct (map fst (services (mgr x)))"
    using own_invD(1) [OF inv [unfolded mgr_inv_def]] by (simp add: owned_keys)
  have "ids_ok parse (mgr x)" by (rule mgr_run_ids [OF run Recover_ids [OF start]]) (use listing in blast)
  from snapshot_field [OF uuid this keys hosted] alive
  have listed: "i \<in> set (Live (inventoryFromEntries (Snapshot (mgr x))) @ Running (inventoryFromEntries (Snapshot (mgr x))))"
    by (auto simp: field_of_def)
  obtain hb d1 where hb: "ReportWorkerHeartbeat True now (Some hb) d1 = (Inr (), d')" "wf_db d1" "sandboxes d1 = sandboxes d"
    "hb_Sandboxes hb = Snapshot (mgr x)" "InventoryComplete hb" "WorkerId hb = wid" "hb_Status hb = WorkerStatusActive"
    using wf beat by (rule UpdateWorker_accepted)
  have "hb_Status hb \<noteq> WorkerStatusInactive" using hb(7) by (simp add: WorkerStatusActive_def WorkerStatusInactive_def)
  moreover have "sandbox_row_of i d1 = Some r" using row hb(3) by simp
  moreover have "WorkerID r = Some (TrimSpace (WorkerId hb))" using mine hb(6) by simp
  ultimately show ?thesis
    using vouched_row_survives [OF hb(2,1,5), of i r livenessTimeout workerLostTimeout] active listed [folded hb(4)] assms(12)
    by blast
qed

text \<open>A recovered sandbox, running, and a heartbeat of its worker.\<close>

definition sample_hosting :: db where
  "sample_hosting = sample_db\<lparr>sandboxes := [sample_row (replicate 36 CHR ''a'') StatusStarting (Some ''w1'') (Some (45 * second))]\<rparr>"

theorem hosted_sandbox_is_vouched_witness:
  "let i = replicate 36 CHR ''a'';
       x = snd (Recover (\<lambda>i h. Inr ()) (\<lambda>i h. (None, h)) (\<lambda>v h. (Some StateRunning, h)) (\<lambda>h. Inr [i]) (init_sys ()));
       s = (sample_agent 3)\<lparr>needsRegister := False\<rparr>
   in \<exists>s' d' c r'. UpdateWorker (orchestrator_of ''x'' 0) sample_metrics (Snapshot (mgr x)) s sample_hosting = (Inr ''w1'', s', d', c)
        \<and> sandbox_row_of i d' = Some r' \<and> \<not> liveness_expired second second (d'\<lparr>clock := 1000 * minute\<rparr>) r'"
proof -
  let ?i = "replicate 36 CHR ''a''" and ?s = "(sample_agent 3)\<lparr>needsRegister := False\<rparr>" and ?d = sample_hosting
  let ?rec = "Recover (\<lambda>i h. Inr ()) (\<lambda>i h. (None, h)) (\<lambda>v h. (Some StateRunning, h)) (\<lambda>h. Inr [?i]) (init_sys ())"
  let ?x = "snd ?rec" and ?parse = "list_all uuid_char"
  have rec: "?rec = (Inr 1, ?x)" by (simp add: Recover_def)
  have hosted: "map_of (services (mgr ?x)) ?i = Some \<lparr>e_svc = 0, e_state = StateRunning\<rparr>"
    by (simp add: Recover_def adopt_vm_def adopt_lock_def init_sys_def newManager_def)
  have wf: "wf_db ?d"
    by (simp add: sample_hosting_def sample_simps wf_db_def row_ok_def worker_row_ok_def unassigned_def assigned_or_up_def)
  let ?s1 = "?s\<lparr>worker := refresh_worker sample_metrics ''node-1'' (worker ?s)\<rparr>"
  let ?hb = "(heartbeat_of (worker ?s1))\<lparr>hb_Sandboxes := Snapshot (mgr ?x), InventoryComplete := True\<rparr>"
  have "worker_row_of ''w1'' ?d = Some (sample_worker ''w1'' 4)" by (simp add: sample_hosting_def sample_simps)
  then obtain d' where "ReportWorkerHeartbeat True 0 (Some ?hb) ?d = (Inr (), d')"
    using heartbeat_current [OF wf, of ?hb "sample_worker ''w1'' 4" 0] by (auto simp: sample_worker_def)
  then have beat: "UpdateWorker (orchestrator_of ''x'' 0) sample_metrics (Snapshot (mgr ?x)) ?s ?d =
      (Inr ''w1'', ?s1, d', Some (Capacity (worker ?s1)))"
    by (simp add: UpdateWorker_registered Let_def)
  have row: "sandbox_row_of ?i ?d = Some (sample_row ?i StatusStarting (Some ''w1'') (Some (45 * second)))"
    by (simp add: sample_hosting_def sample_row_def)
  have id: "IsSandboxID ?parse ?i" by (simp add: IsSandboxID_def uuid_char_def list_all_iff)
  have "\<exists>r'. sandbox_row_of ?i d' = Some r' \<and> sbx_Status r' \<in> {StatusAssigned, StatusStarting, StatusRunning}
      \<and> (\<forall>t. \<not> liveness_expired second second (d'\<lparr>clock := t\<rparr>) r')"
    by (rule hosted_sandbox_is_vouched [where parse = ?parse, OF _ _ rec rtranclp.rtrancl_refl hosted _ wf beat row])
      (use id in \<open>auto simp: sample_row_def second_def\<close>)
  with beat show ?thesis unfolding Let_def by blast
qed

subsection \<open>Admission\<close>

lemma grpc_Create_size:
  "CheckSandboxSize (req_VcpuCount req) (req_MemSizeMib req) \<noteq> None \<Longrightarrow> grpc_CreateSandbox parse create req = Some InvalidArgument"
  by (auto simp: grpc_CreateSandbox_def checkSandboxID_def split: option.split)

lemma Create_lock_room:
  assumes "Create_lock parse inp n m = (None, m')" and "0 < mgr_capacity m"
  shows "int (length (services m') + length (deleting m')) \<le> mgr_capacity m'" "mgr_capacity m' = mgr_capacity m"
    "set (map fst (services m') @ deleting m') \<subseteq> insert (in_ID inp) (set (map fst (services m) @ deleting m))"
    "services m' \<noteq> []"
proof -
  let ?e = "\<lparr>e_svc = n, e_state = StateStarting\<rparr>"
  from assms have fresh: "map_of (services m) (in_ID inp) = None"
    and room: "int (length (services m) + length (deleting m)) < mgr_capacity m"
    and m': "m' = m\<lparr>services := AList.update (in_ID inp) ?e (services m)\<rparr>"
    by (auto simp: Create_lock_def Let_def split: if_splits)
  have len: "length (AList.update (in_ID inp) ?e es) = Suc (length es)" if "map_of es (in_ID inp) = None" for es
    using that by (induction es) (auto split: if_splits)
  show "int (length (services m') + length (deleting m')) \<le> mgr_capacity m'" "mgr_capacity m' = mgr_capacity m"
    "services m' \<noteq> []"
    using room len [OF fresh] by (auto simp: m')
  show "set (map fst (services m') @ deleting m') \<subseteq> insert (in_ID inp) (set (map fst (services m) @ deleting m))"
    by (auto simp: m' AList.dom_update)
qed

lemma Create_lock_empty:
  "IsSandboxID parse (in_ID inp) \<Longrightarrow> Create_lock parse inp n (SetCapacity k newManager)
     = (None, (SetCapacity k newManager)\<lparr>services := [(in_ID inp, \<lparr>e_svc = n, e_state = StateStarting\<rparr>)]\<rparr>)"
  by (simp add: Create_lock_def CheckSandboxID_def SetCapacity_def newManager_def)



text \<open>A machine too small for one sandbox has capacity 0, which the manager takes for a capacity it does not know yet: it
  admits any number.\<close>

lemma zero_capacity_admits:
  "computeCapacity [] 8 512 = 0
   \<and> fst (Create_lock (\<lambda>_. True) \<lparr>in_ID = replicate 36 CHR ''a'', in_VcpuCount = 1, in_MemSizeMib = 256\<rparr> 0
       (SetCapacity (computeCapacity [] 8 512) newManager)) = None"
proof -
  have "Atoi [] = None" by code_simp
  then have "computeCapacity [] 8 512 = 0" by (simp add: computeCapacity_def sizing_constants go_quot_def)
  then show ?thesis by (simp add: Create_lock_empty IsSandboxID_def)
qed

subsection \<open>Answers to removals\<close>

lemma ListRunning_keys: "ListRunningSandboxes m = map fst (services m)"
  by (simp add: ListRunningSandboxes_def Snapshot_def split_beta)

lemma Remove_lock_refused:
  assumes "Remove_lock parse i m = (Inl e, m')"
  shows "m' = m"
    "e = (if \<not> IsSandboxID parse i then InvalidSandboxID i
          else if i \<in> set (deleting m) then ErrBusy i else ErrSandboxNotFound i)"
    "e = ErrSandboxNotFound i \<Longrightarrow> i \<notin> set (map fst (services m)) \<and> i \<notin> set (deleting m)"
  using assms
  by (auto simp: Remove_lock_def CheckSandboxID_def map_of_eq_None_iff split: if_splits option.splits)

text \<open>C20: what \<^verbatim>\<open>RemoveSandbox\<close> answers when the manager refuses it is true of the host at that moment, in every run after
  \<^verbatim>\<open>Recover\<close>.  A refusal changes nothing.  The answer is \<^verbatim>\<open>InvalidArgument\<close> exactly for what is not a sandbox
  identifier, \<^verbatim>\<open>Unavailable\<close> exactly when a removal or the audit is busy with it; and after \<^verbatim>\<open>NotFound\<close>, which the orchestrator
  takes as the end of the sandbox, the worker does not list it and no actor, removal or audit touches it.\<close>

theorem remove_answer_is_true:
  assumes "\<And>ids. listDisk h = Inr ids \<Longrightarrow> distinct ids" and "Recover att reap query listDisk (init_sys h) = (r, x0)"
    and "(mgr_step parse)\<^sup>*\<^sup>* x0 x" and "Remove_lock parse i (mgr x) = (Inl e, m)"
    and "code = grpc_RemoveSandbox parse (\<lambda>_. Some e) i"
  shows "m = mgr x
    \<and> (code = Some InvalidArgument \<longleftrightarrow> \<not> IsSandboxID parse i)
    \<and> (code = Some Unavailable \<longleftrightarrow> IsSandboxID parse i \<and> i \<in> set (deleting (mgr x)))
    \<and> (code = Some NotFound \<or> code = Some InvalidArgument \<or> code = Some Unavailable)
    \<and> (code = Some NotFound \<longrightarrow> i \<notin> set (ListRunningSandboxes (mgr x)) \<and> \<not> touches x i u)"
proof -
  have inv: "mgr_inv x" by (rule mgr_run_inv [OF assms(3) Recover_inv [OF assms(2,1)]])
  note refused = Remove_lock_refused [OF assms(4)]
  have code: "code = Some (if \<not> IsSandboxID parse i then InvalidArgument
      else if i \<in> set (deleting (mgr x)) then Unavailable else NotFound)"
    using refused(2) by (simp add: assms(5) grpc_RemoveSandbox_def checkSandboxID_def CheckSandboxID_def)
  have "i \<notin> set (ListRunningSandboxes (mgr x)) \<and> \<not> touches x i u" if "code = Some NotFound"
  proof -
    from that code refused(2) have "e = ErrSandboxNotFound i" by (simp split: if_splits)
    from refused(3) [OF this] toucher_owned(1) [OF inv, of i u] show ?thesis
      by (auto simp: owned_keys ListRunning_keys)
  qed
  with code refused(1) show ?thesis by simp
qed

text \<open>A recovered sandbox is there; another identifier is not found.\<close>

theorem remove_answer_is_true_witness:
  "let i = replicate 36 CHR ''a''; j = replicate 36 CHR ''b'';
       rec = Recover (\<lambda>i h. Inr ()) (\<lambda>i h. (None, h)) (\<lambda>v h. (None, h)) (\<lambda>h. Inr [i]) (init_sys ())
   in fst (Remove_lock (\<lambda>_. True) j (mgr (snd rec))) = Inl (ErrSandboxNotFound j)
      \<and> ListRunningSandboxes (mgr (snd rec)) = [i] \<and> (\<forall>u. \<not> touches (snd rec) j u)"
proof -
  let ?i = "replicate 36 CHR ''a''" and ?j = "replicate 36 CHR ''b''"
  let ?rec = "Recover (\<lambda>i h. Inr ()) (\<lambda>i h. (None, h)) (\<lambda>v h. (None, h)) (\<lambda>h. Inr [?i]) (init_sys ())"
  have rec: "?rec = (Inr 1, snd ?rec)" by (simp add: Recover_def)
  have m: "services (mgr (snd ?rec)) = [(?i, \<lparr>e_svc = 0, e_state = StateUnknown\<rparr>)]" "deleting (mgr (snd ?rec)) = []"
    by (simp_all add: Recover_def adopt_vm_def adopt_lock_def init_sys_def newManager_def add_actor_def)
  then have lock: "Remove_lock (\<lambda>_. True) ?j (mgr (snd ?rec)) = (Inl (ErrSandboxNotFound ?j), mgr (snd ?rec))"
    by (simp add: Remove_lock_def CheckSandboxID_def IsSandboxID_def)
  have "grpc_RemoveSandbox (\<lambda>_. True) (\<lambda>_. Some (ErrSandboxNotFound ?j)) ?j = Some NotFound"
    by (simp add: grpc_RemoveSandbox_def checkSandboxID_def CheckSandboxID_def IsSandboxID_def)
  then have "\<not> touches (snd ?rec) ?j u" for u
    using remove_answer_is_true [OF _ rec rtranclp.rtrancl_refl lock refl, of u] by simp
  with m lock show ?thesis by (simp add: ListRunning_keys Let_def)
qed

end
