(* ===== verification/Manager_Liveness.thy ===== *)
theory Manager_Liveness
  imports Manager_States
begin

text \<open>
  No call into the sandbox manager waits forever for want of a step: what a caller still has to wait for is a number
  that no step of anybody else raises once its command is taken, and that some step lowers as long as it is positive.
\<close>

subsection \<open>Ranked progress\<close>

text \<open>A system in which a rank never rises and can always be lowered until it is 0.\<close>

locale progress =
  fixes step :: "'s \<Rightarrow> 's \<Rightarrow> bool" and inv :: "'s \<Rightarrow> bool" and rank :: "'s \<Rightarrow> nat"
  assumes keeps: "step x y \<Longrightarrow> inv x \<Longrightarrow> inv y"
    and never_up: "step x y \<Longrightarrow> inv x \<Longrightarrow> rank y \<le> rank x"
    and can_move: "inv x \<Longrightarrow> 0 < rank x \<Longrightarrow> \<exists>y. step x y \<and> rank y < rank x"
begin

lemma run_keeps: "step\<^sup>*\<^sup>* x y \<Longrightarrow> inv x \<Longrightarrow> inv y"
  by (induction rule: rtranclp_induct) (auto intro: keeps)

lemma run_never_up: "step\<^sup>*\<^sup>* x y \<Longrightarrow> inv x \<Longrightarrow> rank y \<le> rank x"
  by (induction rule: rtranclp_induct) (auto dest: never_up run_keeps intro: order_trans)

lemma can_finish: "inv x \<Longrightarrow> \<exists>y. step\<^sup>*\<^sup>* x y \<and> inv y \<and> rank y = 0"
proof (induction "rank x" arbitrary: x rule: less_induct)
  case less
  show ?case
  proof (cases "rank x = 0")
    case False
    with can_move [OF less.prems] obtain z where z: "step x z" "rank z < rank x" by auto
    from less.hyps [OF z(2) keeps [OF z(1) less.prems]] z(1) show ?thesis
      by (meson converse_rtranclp_into_rtranclp)
  qed (use less.prems in blast)
qed

end

subsection \<open>What is left to wait for\<close>

text \<open>The steps an actor is away from its \<^verbatim>\<open>select\<close>, or from the closing of its \<^verbatim>\<open>done\<close> channel.\<close>

fun cont_left :: "cont \<Rightarrow> nat" where
  "cont_left (ThenReply t err exit) = 3"
| "cont_left ThenLoop = 1"
| "cont_left ThenLeave = 2"

fun left :: "pc \<Rightarrow> nat" where
  "left Waiting = 1"
| "left (Reporting st k) = 2 + cont_left k"
| "left (Emitting st k) = 1 + cont_left k"
| "left (Replying t err exit) = 3"
| "left Leaving = 2"
| "left Gone = 1"

lemma left_resume [simp]: "left (resume k) = cont_left k"
  by (cases k) simp_all

lemma left_after_state: "left (after_state rep k) \<le> 2 + cont_left k"
  by (simp add: after_state_def split: option.split)

lemma cont_left_le: "cont_left k \<le> 3"
  by (cases k) simp_all

fun call_left :: "'v actor list \<Rightarrow> caller \<Rightarrow> nat" where
  "call_left as (Sending op i n cmd) = 8"
| "call_left as (AwaitingReply op i n) = 2 + left (pc (as ! n))"
| "call_left as (CreateFailed i n e) = 1"
| "call_left as (Reaping i) = 2"
| "call_left as (Releasing i err) = 1"
| "call_left as (AuditListed ids) = 1 + 2 * length ids"
| "call_left as (AuditReaping i is) = 2 + 2 * length is"
| "call_left as (AuditReleasing i is) = 1 + 2 * length is"
| "call_left as (AuditEmitting is) = length is"
| "call_left as (Returned err) = 0"

lemma after_do_left: "2 < k \<Longrightarrow> call_left as (after_do op i n err) < k"
  by (cases "(op, i, n, err)" rule: after_do.cases) auto

lemma next_orphan_left: "call_left as (next_orphan is) \<le> 2 * length is"
  by (cases "is") auto

fun taken :: "caller \<Rightarrow> bool" where
  "taken (Sending op i n cmd) \<longleftrightarrow> False"
| "taken _ \<longleftrightarrow> True"

lemma after_do_taken [simp]: "taken (after_do op i n err)"
  by (cases "(op, i, n, err)" rule: after_do.cases) auto

lemma next_orphan_taken [simp]: "taken (next_orphan is)"
  by (cases "is") auto

text \<open>An actor whose command panicked is on its way out.\<close>

fun departing :: "pc \<Rightarrow> bool" where
  "departing (Reporting st k) \<longleftrightarrow> k = ThenLeave"
| "departing (Emitting st k) \<longleftrightarrow> k = ThenLeave"
| "departing Leaving \<longleftrightarrow> True"
| "departing Gone \<longleftrightarrow> True"
| "departing _ \<longleftrightarrow> False"

text \<open>A reply is awaited from an actor that owes it or is on its way out.\<close>

fun awaited :: "'v actor list \<Rightarrow> nat \<Rightarrow> caller \<Rightarrow> bool" where
  "awaited as t (AwaitingReply op i n) \<longleftrightarrow>
     n < length as \<and> ((\<exists>err exit. pending (pc (as ! n)) = Some (t, err, exit)) \<or> departing (pc (as ! n)))"
| "awaited as t _ \<longleftrightarrow> True"

lemma awaited_after_do [simp]: "awaited as t (after_do op i n err)"
  by (cases "(op, i, n, err)" rule: after_do.cases) auto

lemma awaited_next_orphan [simp]: "awaited as t (next_orphan is)"
  by (cases "is") auto

subsection \<open>One step and one call\<close>

definition onward :: "nat \<Rightarrow> pc \<Rightarrow> pc \<Rightarrow> bool" where
  "onward t p p' \<longleftrightarrow>
     (\<forall>err exit. pending p = Some (t, err, exit) \<longrightarrow> pending p' = pending p \<and> left p' \<le> left p)
     \<and> (departing p \<longrightarrow> departing p' \<and> left p' \<le> left p)"

lemma onward_same [simp]: "onward t p p"
  by (simp add: onward_def)

lemma onward_idle: "pending p = None \<Longrightarrow> \<not> departing p \<Longrightarrow> onward t p p'"
  by (simp add: onward_def)

lemma pending_resume [simp]: "pending (resume k) = pending_cont k" "departing (resume k) \<longleftrightarrow> k = ThenLeave"
  by (cases k; simp)+

lemma onward_report: "onward t (Reporting st k) (if ok then Emitting st k else resume k)"
  by (simp add: onward_def)

lemma onward_emit: "onward t (Emitting st k) (resume k)"
  by (simp add: onward_def)

text \<open>A step either leaves the caller where it is and lets the actors go on, or brings the caller forward.\<close>

definition call_step :: "nat \<Rightarrow> ('v, 'h) sys \<Rightarrow> ('v, 'h) sys \<Rightarrow> bool" where
  "call_step t x y \<longleftrightarrow>
     t < length (callers y) \<and>
     (callers y ! t = callers x ! t \<and> length (actors x) \<le> length (actors y)
        \<and> (\<forall>n < length (actors x). onward t (pc (actors x ! n)) (pc (actors y ! n)))
      \<or> taken (callers y ! t) \<and> awaited (actors y) t (callers y ! t)
        \<and> call_left (actors y) (callers y ! t) < call_left (actors x) (callers x ! t))"

lemma call_step_quiet:
  "actors y = actors x \<Longrightarrow> t < length (callers x) \<Longrightarrow> callers y = callers x \<or> callers y = callers x @ [c] \<Longrightarrow> call_step t x y"
  by (auto simp: call_step_def nth_append)

lemma call_step_actor:
  "actor_at x n s p \<Longrightarrow> onward t p p' \<Longrightarrow> t < length (callers x) \<Longrightarrow> callers y = callers x
     \<Longrightarrow> actors y = (actors x)[n := \<lparr>service = s', pc = p'\<rparr>] \<Longrightarrow> call_step t x y"
  by (auto simp: call_step_def actor_at_def nth_list_update)

lemma call_step_caller:
  assumes "caller_at x u c" and "t < length (callers x)" and "callers y = (callers x)[u := c']" and "actors y = actors x"
    and "taken c'" and "awaited (actors x) u c'" and "call_left (actors x) c' < call_left (actors x) c"
  shows "call_step t x y"
  using assms by (cases "u = t") (auto simp: call_step_def caller_at_def)

lemma call_step_both:
  assumes "caller_at x u c" and "actor_at x n s p" and "t < length (callers x)"
    and "callers y = (callers x)[u := c']" and "actors y = (actors x)[n := \<lparr>service = s', pc = p'\<rparr>]"
    and "\<And>t. t \<noteq> u \<Longrightarrow> onward t p p'"
    and "taken c'" and "awaited (actors y) u c'" and "call_left (actors y) c' < call_left (actors x) c"
  shows "call_step t x y"
  using assms by (cases "u = t") (auto simp: call_step_def caller_at_def actor_at_def nth_list_update)

lemma claim_orphans_length: "claim_orphans ids m = (orphans, m') \<Longrightarrow> length orphans \<le> length ids"
  by (induction ids m arbitrary: orphans m' rule: claim_orphans.induct) (force split: if_splits prod.splits)+

lemma awaited_command:
  "n < length as \<Longrightarrow> awaited (as[n := \<lparr>service = s, pc = after_state rep (ThenReply t err exit)\<rparr>]) t (AwaitingReply op i n)"
  "n < length as \<Longrightarrow> awaited (as[n := \<lparr>service = s, pc = after_state rep ThenLeave\<rparr>]) t (AwaitingReply op i n)"
  by (auto simp: after_state_def split: option.split)

lemma mgr_step_call:
  assumes "mgr_step parse x y" and t: "t < length (callers x)"
  shows "call_step t x y"
  using assms(1)
proof (cases rule: mgr_step.cases)
  case (create_registers inp m)
  with t show ?thesis by (auto simp: call_step_def add_actor_def nth_append)
next
  case (command u op i n cmd s ops exit err rep s' h)
  show ?thesis
    by (rule call_step_both [OF command(2,3) t])
      (use command left_after_state [of rep "ThenReply u err exit"] in
        \<open>auto simp: set_actor_def actor_at_def onward_idle simp del: awaited.simps intro!: awaited_command\<close>)
next
  case (command_panics u op i n cmd s v rep s' h)
  show ?thesis
    by (rule call_step_both [OF command_panics(2,3) t])
      (use command_panics left_after_state [of rep ThenLeave] in
        \<open>auto simp: set_actor_def actor_at_def onward_idle simp del: awaited.simps intro!: awaited_command\<close>)
next
  case (replies n s u err exit op i)
  show ?thesis
    by (rule call_step_both [OF replies(3,2) t])
      (use replies in \<open>auto simp: set_actor_def actor_at_def onward_def intro: after_do_left\<close>)
next
  case (nobody_home u op i n cmd)
  show ?thesis
    by (rule call_step_caller [OF nobody_home(2) t]) (use nobody_home in \<open>auto intro: after_do_left\<close>)
next
  case (no_reply u op i n)
  show ?thesis
    by (rule call_step_caller [OF no_reply(2) t])
      (use no_reply in \<open>auto simp: is_gone_def intro: after_do_left\<close>)
next
  case (audit_claims u ids orphans m)
  show ?thesis
    by (rule call_step_caller [OF audit_claims(2) t])
      (use audit_claims claim_orphans_length [OF audit_claims(3)] next_orphan_left [of "actors x" orphans] in auto)
next
  case (audit_releases u i "is")
  show ?thesis
    by (rule call_step_caller [OF audit_releases(2) t])
      (use audit_releases next_orphan_left [of "actors x" "is"] in auto)
next
  case (reports n s st k ok m)
  show ?thesis
    by (rule call_step_actor [OF reports(2) onward_report t]) (use reports in \<open>auto simp: set_actor_def\<close>)
next
  case (emits n s st k now)
  show ?thesis
    by (rule call_step_actor [OF emits(2) onward_emit t]) (use emits in \<open>auto simp: set_actor_def\<close>)
next
  case (leaves n s)
  show ?thesis
    by (rule call_step_actor [OF leaves(2) _ t]) (use leaves in \<open>auto simp: set_actor_def onward_def\<close>)
next
  case (vm_exits n s rep s')
  show ?thesis
    by (rule call_step_actor [OF vm_exits(2) onward_idle t]) (use vm_exits in \<open>auto simp: set_actor_def\<close>)
next
  case (polls n s ops rep s' h)
  show ?thesis
    by (rule call_step_actor [OF polls(2) onward_idle t]) (use polls in \<open>auto simp: set_actor_def\<close>)
next
  case (poll_panics n s rep s' h)
  show ?thesis
    by (rule call_step_actor [OF poll_panics(2) onward_idle t]) (use poll_panics in \<open>auto simp: set_actor_def\<close>)
next
  case (shut_down n s)
  show ?thesis
    by (rule call_step_actor [OF shut_down(2) onward_idle t]) (use shut_down in \<open>auto simp: set_actor_def\<close>)
qed (use t in \<open>auto intro: call_step_quiet call_step_caller\<close>)

subsection \<open>Nobody waits in vain\<close>

definition calls_ok :: "('v, 'h) sys \<Rightarrow> bool" where
  "calls_ok x \<longleftrightarrow> mgr_inv x \<and> (\<forall>t < length (callers x). awaited (actors x) t (callers x ! t))"

lemma awaited_onward:
  assumes "awaited as t c" and "length as \<le> length as'" and "\<forall>n < length as. onward t (pc (as ! n)) (pc (as' ! n))"
  shows "awaited as' t c" and "call_left as' c \<le> call_left as c"
  using assms by (cases c; fastforce simp: onward_def)+

lemma mgr_step_new_call:
  assumes "mgr_step parse x y" and "length (callers x) \<le> t" and "t < length (callers y)"
  shows "awaited (actors y) t (callers y ! t)"
  using assms by (cases rule: mgr_step.cases) (auto simp: nth_append less_Suc_eq)

lemma calls_ok_step:
  assumes step: "mgr_step parse x y" and ok: "calls_ok x"
  shows "calls_ok y"
proof -
  have "awaited (actors y) t (callers y ! t)" if "t < length (callers y)" for t
  proof (cases "t < length (callers x)")
    case True
    with ok have "awaited (actors x) t (callers x ! t)" by (simp add: calls_ok_def)
    with mgr_step_call [OF step True] show ?thesis unfolding call_step_def by (metis awaited_onward(1))
  next
    case False
    with mgr_step_new_call [OF step _ that] show ?thesis by simp
  qed
  with ok mgr_step_inv [OF step] show ?thesis by (simp add: calls_ok_def)
qed

lemma calls_ok_run: "(mgr_step parse)\<^sup>*\<^sup>* x y \<Longrightarrow> calls_ok x \<Longrightarrow> calls_ok y"
  by (induction rule: rtranclp_induct) (auto intro: calls_ok_step)

lemma call_never_up:
  assumes "mgr_step parse x y" and "calls_ok x" and "t < length (callers x)"
  shows "t < length (callers y)" "call_left (actors y) (callers y ! t) \<le> call_left (actors x) (callers x ! t)"
    "taken (callers x ! t) \<Longrightarrow> taken (callers y ! t)"
proof -
  have "awaited (actors x) t (callers x ! t)" using assms(2,3) by (simp add: calls_ok_def)
  note facts = mgr_step_call [OF assms(1,3)] awaited_onward(2) [OF this]
  then show "t < length (callers y)" "call_left (actors y) (callers y ! t) \<le> call_left (actors x) (callers x ! t)"
    "taken (callers x ! t) \<Longrightarrow> taken (callers y ! t)"
    unfolding call_step_def by (auto intro: less_imp_le)
qed

text \<open>An actor that is not waiting and not gone has a step, which brings it nearer to that.\<close>

lemma actor_moves:
  assumes ok: "calls_ok x" and n: "n < length (actors x)" and "pc (actors x ! n) \<noteq> Waiting" and "pc (actors x ! n) \<noteq> Gone"
  obtains y where "mgr_step parse x y" "n < length (actors y)" "left (pc (actors y ! n)) < left (pc (actors x ! n))"
    "callers y = callers x
     \<or> (\<exists>t op i err exit. pc (actors x ! n) = Replying t err exit \<and> caller_at x t (AwaitingReply op i n)
          \<and> callers y = (callers x)[t := after_do op i n err])"
proof (cases "pc (actors x ! n)")
  case (Reporting st k)
  with n have at: "actor_at x n (service (actors x ! n)) (Reporting st k)" by (simp add: actor_at_def actor.equality)
  obtain b m where "report_lock (svc_id (service (actors x ! n))) n st (mgr x) = (b, m)" by fastforce
  from mgr_step.reports [OF at this] show ?thesis
    by (rule that) (use n Reporting in \<open>auto simp: set_actor_def\<close>)
next
  case (Emitting st k)
  with n have at: "actor_at x n (service (actors x ! n)) (Emitting st k)" by (simp add: actor_at_def actor.equality)
  from mgr_step.emits [OF at] show ?thesis
    by (rule that) (use n Emitting in \<open>auto simp: set_actor_def\<close>)
next
  case (Replying t err exit)
  with n have at: "actor_at x n (service (actors x ! n)) (Replying t err exit)" by (simp add: actor_at_def actor.equality)
  have "pending (snd (places (actors x) ! n)) = Some (t, err, exit)" using n Replying by (simp add: places_def)
  with ok n obtain op where t: "caller_at x t (AwaitingReply op (fst (places (actors x) ! n)) n)"
    by (auto simp: calls_ok_def mgr_inv_def caller_at_def places_def elim: own_reply)
  from mgr_step.replies [OF at t] show ?thesis
    by (rule that) (use n Replying t in \<open>auto simp: set_actor_def\<close>)
next
  case Leaving
  with n have at: "actor_at x n (service (actors x ! n)) Leaving" by (simp add: actor_at_def actor.equality)
  from mgr_step.leaves [OF at] show ?thesis
    by (rule that) (use n Leaving in \<open>auto simp: set_actor_def\<close>)
qed (use assms in simp_all)

lemma actor_reaches_idle:
  assumes "calls_ok x" and "n < length (actors x)" and "t < length (callers x)" and "\<not> taken (callers x ! t)"
  shows "\<exists>y. (mgr_step parse)\<^sup>*\<^sup>* x y \<and> calls_ok y \<and> n < length (actors y) \<and> pc (actors y ! n) \<in> {Waiting, Gone}
     \<and> t < length (callers y) \<and> callers y ! t = callers x ! t"
  using assms
proof (induction "left (pc (actors x ! n))" arbitrary: x rule: less_induct)
  case less
  show ?case
  proof (cases "pc (actors x ! n) \<in> {Waiting, Gone}")
    case False
    then have "pc (actors x ! n) \<noteq> Waiting" "pc (actors x ! n) \<noteq> Gone" by simp_all
    from actor_moves [OF less.prems(1,2) this]
    obtain z where z: "mgr_step parse x z" "n < length (actors z)" "left (pc (actors z ! n)) < left (pc (actors x ! n))"
      "callers z = callers x
       \<or> (\<exists>t op i err exit. pc (actors x ! n) = Replying t err exit \<and> caller_at x t (AwaitingReply op i n)
            \<and> callers z = (callers x)[t := after_do op i n err])"
      by metis
    have t: "t < length (callers z)" "callers z ! t = callers x ! t"
      using z(4) less.prems(3,4) by (auto simp: caller_at_def nth_list_update)
    from less.hyps [OF z(3) calls_ok_step [OF z(1) less.prems(1)] z(2) t(1)] t(2) less.prems(4) z(1) show ?thesis
      by (metis converse_rtranclp_into_rtranclp)
  qed (use less.prems in blast)
qed

lemma taken_call_moves:
  assumes ok: "calls_ok x" and t: "t < length (callers x)" and "taken (callers x ! t)"
    and "0 < call_left (actors x) (callers x ! t)"
  shows "\<exists>y. mgr_step parse x y \<and> call_left (actors y) (callers y ! t) < call_left (actors x) (callers x ! t)"
proof (cases "callers x ! t")
  case (AwaitingReply op i n)
  with ok t have n: "n < length (actors x)"
    and "(\<exists>err exit. pending (pc (actors x ! n)) = Some (t, err, exit)) \<or> departing (pc (actors x ! n))"
    by (metis awaited.simps(1) calls_ok_def)+
  show ?thesis
  proof (cases "pc (actors x ! n) = Gone")
    case True
    with n have "is_gone x n" by (simp add: is_gone_def)
    let ?y = "set_caller t (after_do op i n (Some errServiceExited)) x"
    have "mgr_step parse x ?y" using mgr_step.no_reply [OF _ \<open>is_gone x n\<close>] AwaitingReply t by (simp add: caller_at_def)
    moreover have "call_left (actors ?y) (callers ?y ! t) < call_left (actors x) (callers x ! t)"
      using AwaitingReply t True by (simp add: after_do_left)
    ultimately show ?thesis by blast
  next
    case False
    have "pc (actors x ! n) \<noteq> Waiting"
      using \<open>(\<exists>err exit. pending (pc (actors x ! n)) = Some (t, err, exit)) \<or> departing (pc (actors x ! n))\<close> by auto
    from actor_moves [OF ok n this False]
    obtain y where y: "mgr_step parse x y" "left (pc (actors y ! n)) < left (pc (actors x ! n))"
      "callers y = callers x
       \<or> (\<exists>t op i err exit. pc (actors x ! n) = Replying t err exit \<and> caller_at x t (AwaitingReply op i n)
            \<and> callers y = (callers x)[t := after_do op i n err])"
      by metis
    from y(3) show ?thesis
    proof
      assume "callers y = callers x"
      with y(1,2) AwaitingReply show ?thesis by (intro exI [of _ y]) simp
    next
      assume "\<exists>t op i err exit. pc (actors x ! n) = Replying t err exit \<and> caller_at x t (AwaitingReply op i n)
        \<and> callers y = (callers x)[t := after_do op i n err]"
      then obtain u op' i' err where "callers y = (callers x)[u := after_do op' i' n err]" by blast
      with t have "callers y ! t = callers x ! t \<or> callers y ! t = after_do op' i' n err" by (cases "u = t") simp_all
      then have "call_left (actors y) (callers y ! t) < call_left (actors x) (callers x ! t)"
      proof
        assume "callers y ! t = after_do op' i' n err"
        moreover have "2 < call_left (actors x) (callers x ! t)" using AwaitingReply y(2) by simp
        ultimately show ?thesis using after_do_left by metis
      qed (use y(2) AwaitingReply in simp)
      with y(1) show ?thesis by blast
    qed
  qed
next
  case (CreateFailed i n e)
  with t mgr_step.create_drops [of x t i n e] show ?thesis by (force simp: caller_at_def)
next
  case (Reaping i)
  with t mgr_step.reaps [of x t i "\<lambda>i h. (None, h)"] show ?thesis by (force simp: caller_at_def)
next
  case (Releasing i err)
  with t mgr_step.releases [of x t i err] show ?thesis by (force simp: caller_at_def)
next
  case (AuditListed ids)
  obtain orphans m where claim: "claim_orphans ids (mgr x) = (orphans, m)" by fastforce
  let ?y = "set_caller t (next_orphan orphans) (x\<lparr>mgr := m\<rparr>)"
  have "mgr_step parse x ?y" using AuditListed t claim by (auto simp: caller_at_def intro: mgr_step.audit_claims)
  moreover have "call_left (actors ?y) (callers ?y ! t) < call_left (actors x) (callers x ! t)"
    using AuditListed t claim_orphans_length [OF claim] next_orphan_left [of "actors x" orphans] by simp
  ultimately show ?thesis by blast
next
  case (AuditReaping i "is")
  with t mgr_step.audit_reaps [of x t i "is" "\<lambda>i h. (None, h)"] show ?thesis by (force simp: caller_at_def)
next
  case (AuditReleasing i "is")
  let ?y = "set_caller t (next_orphan is) (x\<lparr>mgr := release i (mgr x)\<rparr>)"
  have "mgr_step parse x ?y" using AuditReleasing t by (auto simp: caller_at_def intro: mgr_step.audit_releases)
  moreover have "call_left (actors ?y) (callers ?y ! t) < call_left (actors x) (callers x ! t)"
    using AuditReleasing t next_orphan_left [of "actors x" "is"] by simp
  ultimately show ?thesis by blast
next
  case (AuditEmitting dead)
  with assms(4) obtain i rest where "dead = i # rest" by (cases dead) auto
  with AuditEmitting t mgr_step.audit_emits [of x t i rest] show ?thesis by (force simp: caller_at_def)
qed (use assms in simp_all)

interpretation call: progress "mgr_step parse" "\<lambda>x. calls_ok x \<and> t < length (callers x) \<and> taken (callers x ! t)"
  "\<lambda>x. call_left (actors x) (callers x ! t)" for parse t
  by unfold_locales (use calls_ok_step call_never_up taken_call_moves in blast)+

lemma finished_call: "call_left as c = 0 \<longleftrightarrow> c = AuditEmitting [] \<or> (\<exists>r. c = Returned r)"
  by (cases c) auto

text \<open>A command that no actor has taken yet gets taken, or finds the actor gone.\<close>

lemma sending_gets_taken:
  assumes ok: "calls_ok x" and t: "t < length (callers x)"
  shows "\<exists>y. (mgr_step parse)\<^sup>*\<^sup>* x y \<and> calls_ok y \<and> t < length (callers y) \<and> taken (callers y ! t)"
proof (cases "taken (callers x ! t)")
  case False
  then obtain op i n cmd where c: "callers x ! t = Sending op i n cmd" by (cases "callers x ! t") auto
  have "caller_ok (places (actors x)) (callers x ! t)" using ok t inv_callers nth_mem by (metis calls_ok_def)
  with c have "n < length (actors x)" by (simp add: places_def)
  from actor_reaches_idle [OF ok this t False] obtain y where y: "(mgr_step parse)\<^sup>*\<^sup>* x y" "calls_ok y" "n < length (actors y)"
    "pc (actors y ! n) \<in> {Waiting, Gone}" "t < length (callers y)" "callers y ! t = callers x ! t" by blast
  have at: "caller_at y t (Sending op i n cmd)" using y(5,6) c by (simp add: caller_at_def)
  have "\<exists>z. mgr_step parse y z \<and> taken (callers z ! t) \<and> t < length (callers z)"
  proof (cases "pc (actors y ! n) = Gone")
    case True
    with y(3) have "is_gone y n" by (simp add: is_gone_def)
    from mgr_step.nobody_home [OF at this] y(5) show ?thesis by force
  next
    case False
    with y(3,4) have "actor_at y n (service (actors y ! n)) Waiting" by (simp add: actor_at_def actor.equality)
    moreover obtain exit err rep s' h where
      "handle_cmd undefined cmd (service (actors y ! n)) (host y) = ((exit, err, rep, s'), h)" by (metis surj_pair)
    ultimately show ?thesis using mgr_step.command [OF at] y(5) by force
  qed
  with y(1,2) show ?thesis by (metis calls_ok_step rtranclp.rtrancl_into_rtrancl)
qed (use assms in blast)

lemma recover_each_callers: "recover_each att reap query ids x = (k, y) \<Longrightarrow> callers y = callers x"
  by (induction att reap query ids x arbitrary: k y rule: recover_each.induct)
    (fastforce simp: adopt_vm_def split: sum.splits prod.splits)+

lemma Recover_calls_ok:
  assumes "Recover att reap query listDisk (init_sys h) = (r, x)" and "\<And>ids. listDisk h = Inr ids \<Longrightarrow> distinct ids"
  shows "calls_ok x"
proof -
  have "callers x = []"
    using assms(1) by (auto simp: Recover_def init_sys_def dest: recover_each_callers split: sum.splits prod.splits)
  with Recover_inv [OF assms] show ?thesis by (simp add: calls_ok_def)
qed

text \<open>C8: no call into the sandbox manager can get stuck, at any moment of any run after \<^verbatim>\<open>Recover\<close>.  What a call or an
  audit still has to wait for is a number (at most eight for a \<^verbatim>\<open>Create\<close>, \<^verbatim>\<open>Stop\<close> or \<^verbatim>\<open>Remove\<close>) that no step of anybody
  raises.  Once the command has been taken, and until the call is over, some step lowers it: neither the lock, nor the
  channels, nor a panic of the actor makes the caller wait for something that cannot come.  A command that has not been
  taken yet can still be taken, or finds the actor gone; so from every state every call can return.\<close>

theorem every_call_can_return:
  assumes "\<And>ids. listDisk h = Inr ids \<Longrightarrow> distinct ids" and "Recover att reap query listDisk (init_sys h) = (r, x0)"
    and "(mgr_step parse)\<^sup>*\<^sup>* x0 x" and "t < length (callers x)"
  shows "(\<forall>y. mgr_step parse x y \<longrightarrow>
        t < length (callers y) \<and> call_left (actors y) (callers y ! t) \<le> call_left (actors x) (callers x ! t))
    \<and> (taken (callers x ! t) \<longrightarrow> 0 < call_left (actors x) (callers x ! t) \<longrightarrow>
        (\<exists>y. mgr_step parse x y \<and> call_left (actors y) (callers y ! t) < call_left (actors x) (callers x ! t)))
    \<and> (\<exists>y. (mgr_step parse)\<^sup>*\<^sup>* x y \<and> t < length (callers y)
        \<and> (callers y ! t = AuditEmitting [] \<or> (\<exists>err. callers y ! t = Returned err)))"
proof -
  have ok: "calls_ok x" by (rule calls_ok_run [OF assms(3) Recover_calls_ok [OF assms(2,1)]])
  from sending_gets_taken [OF ok assms(4)] obtain z where z: "(mgr_step parse)\<^sup>*\<^sup>* x z"
    "calls_ok z \<and> t < length (callers z) \<and> taken (callers z ! t)" by blast
  from call.can_finish [OF z(2)] obtain y where "(mgr_step parse)\<^sup>*\<^sup>* z y" "t < length (callers y)"
    "call_left (actors y) (callers y ! t) = 0" by blast
  then have "(mgr_step parse)\<^sup>*\<^sup>* x y \<and> t < length (callers y)
      \<and> (callers y ! t = AuditEmitting [] \<or> (\<exists>err. callers y ! t = Returned err))"
    using z(1) by (simp add: finished_call)
  then show ?thesis using call_never_up(1,2) [OF _ ok assms(4)] taken_call_moves [OF ok assms(4)] by blast
qed

text \<open>A removal of a recovered sandbox is waiting to be taken.\<close>

theorem every_call_can_return_witness:
  "let i = replicate 36 CHR ''a'';
       x0 = snd (Recover (\<lambda>i h. Inr ()) (\<lambda>i h. (None, h)) (\<lambda>v h. (None, h)) (\<lambda>h. Inr [i]) (init_sys ()))
   in \<exists>x y. (mgr_step (\<lambda>_. True))\<^sup>*\<^sup>* x0 x \<and> callers x = [Sending OpRemove i 0 CmdRemove]
        \<and> (mgr_step (\<lambda>_. True))\<^sup>*\<^sup>* x y \<and> (callers y ! 0 = AuditEmitting [] \<or> (\<exists>err. callers y ! 0 = Returned err))"
proof -
  let ?i = "replicate 36 CHR ''a''"
  let ?rec = "Recover (\<lambda>i h. Inr ()) (\<lambda>i h. (None, h)) (\<lambda>v h. (None, h)) (\<lambda>h. Inr [?i]) (init_sys ())"
  have rec: "?rec = (Inr 1, snd ?rec)" by (simp add: Recover_def)
  let ?m = "newManager\<lparr>services := [], deleting := [?i]\<rparr>"
  let ?x = "add_caller (Sending OpRemove ?i 0 CmdRemove) ((snd ?rec)\<lparr>mgr := ?m\<rparr>)"
  have "Remove_lock (\<lambda>_. True) ?i (mgr (snd ?rec)) = (Inr 0, ?m)"
    by (simp add: Remove_lock_def Recover_def adopt_vm_def adopt_lock_def init_sys_def newManager_def add_actor_def
        CheckSandboxID_def IsSandboxID_def)
  from mgr_step.remove_sends [OF this] have run: "(mgr_step (\<lambda>_. True))\<^sup>*\<^sup>* (snd ?rec) ?x" ..
  have calls: "callers ?x = [Sending OpRemove ?i 0 CmdRemove]"
    by (simp add: Recover_def adopt_vm_def init_sys_def add_actor_def)
  then have "\<exists>y. (mgr_step (\<lambda>_. True))\<^sup>*\<^sup>* ?x y
      \<and> (callers y ! 0 = AuditEmitting [] \<or> (\<exists>err. callers y ! 0 = Returned err))"
    using every_call_can_return [OF _ rec run, of 0] by auto
  with run calls show ?thesis unfolding Let_def by blast
qed

end
