(* ===== verification/Scheduler.thy ===== *)
theory Scheduler
  imports Complex_Main Events
begin

text \<open>
  \<^verbatim>\<open>orchestrator/scheduler.go\<close>: which worker a sandbox goes to.  The loads and weights are
  rational numbers (the rounding of \<^verbatim>\<open>float64\<close> is not modelled); the draw of the random
  generator, a number in \<open>[0, 1)\<close>, is the argument \<open>u\<close>.
\<close>

record WorkerCandidate =
  cand_Worker :: Worker
  Info :: "WorkerInfo option"

datatype sched_error = ErrNoWorkerCandidates | ErrClusterFull

definition cpuUsageScale :: int where
  "cpuUsageScale = 100"

definition usageRatio :: "int \<Rightarrow> int \<Rightarrow> rat" where
  "usageRatio usage budget =
     (if usage \<le> 0 then 0
      else if budget \<le> 0 then of_int usage / 100
      else let ratio = of_int usage / of_int budget in if ratio < 0 then 0 else ratio)"

definition leftRatio :: "int \<Rightarrow> int \<Rightarrow> rat" where
  "leftRatio usage budget =
     (let left = 1 - usageRatio usage budget
      in if left < 0 then 0 else if left > 1 then 1 else left)"

definition hasCapacity :: "WorkerInfo \<Rightarrow> bool" where
  "hasCapacity info \<longleftrightarrow>
     usageRatio (wi_CpuUsage info) cpuUsageScale < 1
     \<and> usageRatio (wi_MemUsage info) (wi_MemBudget info) < 1"

definition MaxFloat64 :: rat where
  "MaxFloat64 = 2 ^ 1024 - 2 ^ 971"

definition WorkerLoadScore :: "WorkerInfo option \<Rightarrow> rat" where
  "WorkerLoadScore info =
     (case info of
        None \<Rightarrow> MaxFloat64
      | Some i \<Rightarrow> 7 / 10 * usageRatio (wi_CpuUsage i) cpuUsageScale
                 + 3 / 10 * usageRatio (wi_MemUsage i) (wi_MemBudget i))"

definition WorkerWeight :: "WorkerInfo option \<Rightarrow> rat" where
  "WorkerWeight info =
     (case info of
        None \<Rightarrow> 0
      | Some i \<Rightarrow> 7 / 10 * leftRatio (wi_CpuUsage i) cpuUsageScale
                 + 3 / 10 * leftRatio (wi_MemUsage i) (wi_MemBudget i))"

definition isActiveWorker :: "WorkerCandidate \<Rightarrow> bool" where
  "isActiveWorker c =
     (let workerStatus = ToLower (TrimSpace (wStatus (cand_Worker c)));
          infoStatus = ToLower (TrimSpace (case Info c of None \<Rightarrow> [] | Some i \<Rightarrow> wi_Status i))
      in if workerStatus = [] \<and> infoStatus = [] then True
         else if workerStatus \<noteq> [] \<and> workerStatus \<noteq> ''active'' then False
         else if infoStatus \<noteq> [] \<and> infoStatus \<noteq> ''active'' then False
         else True)"

text \<open>The candidates a pass over the list does not skip, with their index.\<close>

fun eligible :: "bool \<Rightarrow> nat \<Rightarrow> WorkerCandidate list \<Rightarrow> (nat \<times> WorkerCandidate) list" where
  "eligible activeOnly i [] = []"
| "eligible activeOnly i (c # cs) =
     (if Info c = None then eligible activeOnly (Suc i) cs
      else if activeOnly \<and> \<not> isActiveWorker c then eligible activeOnly (Suc i) cs
      else (i, c) # eligible activeOnly (Suc i) cs)"

fun least_used_loop :: "(nat \<times> WorkerCandidate) list \<Rightarrow> rat \<Rightarrow> nat option \<Rightarrow> nat option" where
  "least_used_loop [] bestScore bestIdx = bestIdx"
| "least_used_loop ((i, c) # cs) bestScore bestIdx =
     (let score = WorkerLoadScore (Info c)
      in if score < bestScore then least_used_loop cs score (Some i)
         else least_used_loop cs bestScore bestIdx)"

definition pickLeastUsed :: "WorkerCandidate list \<Rightarrow> bool \<Rightarrow> WorkerCandidate option" where
  "pickLeastUsed candidates activeOnly =
     map_option ((!) candidates) (least_used_loop (eligible activeOnly 0 candidates) MaxFloat64 None)"

fun roll_loop :: "(nat \<times> rat) list \<Rightarrow> rat \<Rightarrow> nat option" where
  "roll_loop [] roll = None"
| "roll_loop ((i, weight) # ws) roll =
     (let roll = roll - weight in if roll \<le> 0 then Some i else roll_loop ws roll)"

definition pickWeightedRandom ::
    "rat \<Rightarrow> WorkerCandidate list \<Rightarrow> bool \<Rightarrow> WorkerCandidate option" where
  "pickWeightedRandom u candidates activeOnly =
     (let weighted = map (\<lambda>(i, c). (i, max 0 (WorkerWeight (Info c)))) (eligible activeOnly 0 candidates);
          totalWeight = sum_list (map snd weighted)
      in if weighted = [] then None
         else if totalWeight \<le> 0 then pickLeastUsed candidates activeOnly
         else case roll_loop weighted (u * totalWeight) of
                Some i \<Rightarrow> Some (candidates ! i)
              | None \<Rightarrow> Some (candidates ! fst (last weighted)))"

definition ChooseLeastUsedWorker ::
    "rat \<Rightarrow> WorkerCandidate list \<Rightarrow> sched_error + WorkerCandidate" where
  "ChooseLeastUsedWorker u candidates =
     (if candidates = [] then Inl ErrNoWorkerCandidates
      else
        (let active = filter (\<lambda>c. Info c \<noteq> None \<and> isActiveWorker c) candidates;
             withCapacity = filter (\<lambda>c. case Info c of None \<Rightarrow> False | Some i \<Rightarrow> hasCapacity i) active
         in if active \<noteq> [] \<and> withCapacity = [] then Inl ErrClusterFull
            else case pickWeightedRandom u withCapacity True of
                   Some best \<Rightarrow> Inr best
                 | None \<Rightarrow>
                     (case pickWeightedRandom u candidates False of
                        None \<Rightarrow> Inl ErrNoWorkerCandidates
                      | Some best \<Rightarrow> Inr best)))"

subsection \<open>What a pick returns\<close>

lemma eligible_index:
  "(i, c) \<in> set (eligible a k cs) \<Longrightarrow>
     k \<le> i \<and> i - k < length cs \<and> cs ! (i - k) = c \<and> Info c \<noteq> None \<and> (a \<longrightarrow> isActiveWorker c)"
proof (induction a k cs rule: eligible.induct)
  case (2 a k c' cs)
  show ?case
  proof (cases "(i, c) \<in> set (eligible a (Suc k) cs)")
    case True
    with 2(1,2,3) have "Suc k \<le> i \<and> i - Suc k < length cs \<and> cs ! (i - Suc k) = c
        \<and> Info c \<noteq> None \<and> (a \<longrightarrow> isActiveWorker c)"
      by (cases "Info c' = None"; cases "a \<and> \<not> isActiveWorker c'") auto
    then show ?thesis by (auto simp: nth_Cons' Suc_diff_Suc)
  next
    case False
    with 2(4) show ?thesis by (auto split: if_splits)
  qed
qed simp

lemma eligible_mem:
  "(i, c) \<in> set (eligible a 0 cs) \<Longrightarrow> cs ! i = c \<and> c \<in> set cs \<and> Info c \<noteq> None \<and> (a \<longrightarrow> isActiveWorker c)"
  using eligible_index [of i c a 0 cs] by auto

lemma eligible_empty: "eligible a k cs = [] \<longleftrightarrow> (\<forall>c \<in> set cs. Info c = None \<or> (a \<and> \<not> isActiveWorker c))"
  by (induction a k cs rule: eligible.induct) auto

lemma least_used_mem:
  "least_used_loop cs s b = Some i \<Longrightarrow> b = Some i \<or> i \<in> fst ` set cs"
  by (induction cs s b rule: least_used_loop.induct) (auto simp: Let_def split: if_splits)

lemma roll_mem: "roll_loop ws r = Some i \<Longrightarrow> i \<in> fst ` set ws"
  by (induction ws r rule: roll_loop.induct) (auto simp: Let_def split: if_splits)

definition picked :: "bool \<Rightarrow> WorkerCandidate list \<Rightarrow> WorkerCandidate \<Rightarrow> bool" where
  "picked a cs c \<longleftrightarrow> c \<in> set cs \<and> Info c \<noteq> None \<and> (a \<longrightarrow> isActiveWorker c)"

lemma picked_index: "i \<in> fst ` set (eligible a 0 cs) \<Longrightarrow> picked a cs (cs ! i)"
  unfolding picked_def using eligible_mem by fastforce

lemma pickLeastUsed_picked: "pickLeastUsed cs a = Some c \<Longrightarrow> picked a cs c"
  by (auto simp: pickLeastUsed_def dest!: least_used_mem intro!: picked_index)

lemma pickWeightedRandom_picked:
  assumes "pickWeightedRandom u cs a = Some c"
  shows "picked a cs c"
proof -
  let ?w = "map (\<lambda>(i, c). (i, max 0 (WorkerWeight (Info c)))) (eligible a 0 cs)"
  have fsts: "fst ` set ?w = fst ` set (eligible a 0 cs)" by force
  have ne: "?w \<noteq> []"
    using assms by (auto simp: pickWeightedRandom_def)
  show ?thesis
  proof (cases "sum_list (map snd ?w) \<le> 0")
    case True
    with assms ne have "pickLeastUsed cs a = Some c"
      unfolding pickWeightedRandom_def Let_def by (simp only: if_True if_False)
    then show ?thesis by (rule pickLeastUsed_picked)
  next
    case False
    let ?r = "roll_loop ?w (u * sum_list (map snd ?w))"
    have c: "(case ?r of Some i \<Rightarrow> Some (cs ! i) | None \<Rightarrow> Some (cs ! fst (last ?w))) = Some c"
      using assms ne False unfolding pickWeightedRandom_def Let_def by (simp only: if_False)
    show ?thesis
    proof (cases ?r)
      case None
      have "fst (last ?w) \<in> fst ` set ?w" by (rule imageI [OF last_in_set [OF ne]])
      with picked_index fsts have "picked a cs (cs ! fst (last ?w))" by blast
      with c None show ?thesis by simp
    next
      case (Some i)
      with roll_mem [OF Some] picked_index fsts have "picked a cs (cs ! i)" by blast
      with c Some show ?thesis by simp
    qed
  qed
qed

subsection \<open>A pick from a non-empty list succeeds\<close>

definition int32_info :: "WorkerInfo \<Rightarrow> bool" where
  "int32_info i \<longleftrightarrow> wi_CpuUsage i < 2 ^ 31 \<and> wi_MemUsage i < 2 ^ 31"

lemma usageRatio_bound:
  assumes "usage < 2 ^ 31"
  shows "0 \<le> usageRatio usage budget \<and> usageRatio usage budget < 2 ^ 31"
proof -
  have u: "of_int usage < (2 :: rat) ^ 31"
    using assms by (metis of_int_less_iff of_int_numeral of_int_power)
  show ?thesis
  proof (cases "0 < usage \<and> 0 < budget")
    case True
    then have "of_int usage / of_int budget \<le> (of_int usage :: rat)"
      by (simp add: divide_le_eq mult_le_cancel_left1)
    with True u show ?thesis by (auto simp: usageRatio_def Let_def)
  next
    case False
    have "of_int usage / 100 < (2 :: rat) ^ 31" if "0 < usage"
      using u that by (simp add: divide_less_eq)
    with False show ?thesis by (auto simp: usageRatio_def)
  qed
qed

lemma score_below_max:
  assumes "Info c = Some i" and "int32_info i"
  shows "WorkerLoadScore (Info c) < MaxFloat64"
proof -
  have "usageRatio (wi_CpuUsage i) cpuUsageScale < 2 ^ 31"
    "usageRatio (wi_MemUsage i) (wi_MemBudget i) < 2 ^ 31"
    using assms(2) usageRatio_bound by (auto simp: int32_info_def)
  then have "WorkerLoadScore (Info c) < 2 ^ 31"
    by (simp add: WorkerLoadScore_def assms(1))
  also have "(2 :: rat) ^ 31 \<le> MaxFloat64"
    by (simp add: MaxFloat64_def)
  finally show ?thesis .
qed

lemma least_used_keeps: "b \<noteq> None \<Longrightarrow> least_used_loop cs s b \<noteq> None"
  by (induction cs s b rule: least_used_loop.induct) (auto simp: Let_def)

lemma least_used_some:
  assumes "cs \<noteq> []" and "WorkerLoadScore (Info (snd (hd cs))) < s"
  shows "least_used_loop cs s b \<noteq> None"
  using assms least_used_keeps by (cases cs) (auto simp: Let_def)

lemma pickWeightedRandom_None:
  assumes "\<And>c i. c \<in> set cs \<Longrightarrow> Info c = Some i \<Longrightarrow> int32_info i"
  shows "pickWeightedRandom u cs a = None \<longleftrightarrow> eligible a 0 cs = []"
proof
  assume "pickWeightedRandom u cs a = None"
  then have "eligible a 0 cs = [] \<or> pickLeastUsed cs a = None"
    unfolding pickWeightedRandom_def Let_def by (auto split: if_splits option.splits)
  moreover have "pickLeastUsed cs a \<noteq> None" if "eligible a 0 cs \<noteq> []"
  proof -
    obtain i c where hd: "hd (eligible a 0 cs) = (i, c)" by fastforce
    then have "(i, c) \<in> set (eligible a 0 cs)" using that hd_in_set by metis
    then have "c \<in> set cs" "Info c \<noteq> None" using eligible_mem by blast+
    then have "WorkerLoadScore (Info (snd (hd (eligible a 0 cs)))) < MaxFloat64"
      using assms score_below_max hd by auto
    then show ?thesis
      using least_used_some [OF that] by (simp add: pickLeastUsed_def)
  qed
  ultimately show "eligible a 0 cs = []" by blast
qed (simp add: pickWeightedRandom_def)

subsection \<open>Properties\<close>

definition usable :: "WorkerCandidate \<Rightarrow> bool" where
  "usable c \<longleftrightarrow> isActiveWorker c \<and> (case Info c of None \<Rightarrow> False | Some i \<Rightarrow> hasCapacity i)"

lemma choose_outcome:
  assumes "\<forall>c \<in> set cs. \<forall>i. Info c = Some i \<longrightarrow> int32_info i"
  shows "case ChooseLeastUsedWorker u cs of
      Inl ErrNoWorkerCandidates \<Rightarrow> \<forall>c \<in> set cs. Info c = None
    | Inl ErrClusterFull \<Rightarrow>
        (\<exists>c \<in> set cs. Info c \<noteq> None \<and> isActiveWorker c) \<and> (\<forall>c \<in> set cs. \<not> usable c)
    | Inr c \<Rightarrow> c \<in> set cs \<and> Info c \<noteq> None
        \<and> ((\<exists>c' \<in> set cs. Info c' \<noteq> None \<and> isActiveWorker c') \<longrightarrow> usable c)"
proof -
  let ?act = "filter (\<lambda>c. Info c \<noteq> None \<and> isActiveWorker c) cs"
  let ?cap = "filter (\<lambda>c. case Info c of None \<Rightarrow> False | Some i \<Rightarrow> hasCapacity i) ?act"
  have cap: "set ?cap = {c \<in> set cs. usable c}"
    by (auto simp: usable_def split: option.splits)
  have none: "pickWeightedRandom u ?cap True = None \<longleftrightarrow> ?cap = []"
  proof -
    have "pickWeightedRandom u ?cap True = None \<longleftrightarrow> eligible True 0 ?cap = []"
      using assms by (intro pickWeightedRandom_None) auto
    then show ?thesis by (auto simp: eligible_empty filter_empty_conv)
  qed
  have none': "pickWeightedRandom u cs False = None \<longleftrightarrow> (\<forall>c \<in> set cs. Info c = None)"
    using pickWeightedRandom_None [of cs u False] assms by (auto simp: eligible_empty)
  show ?thesis
  proof (cases "?cap = []")
    case False
    then obtain c where c: "pickWeightedRandom u ?cap True = Some c" using none by blast
    then have "picked True ?cap c" by (rule pickWeightedRandom_picked)
    moreover have "cs \<noteq> []" using False by auto
    ultimately show ?thesis
      using c False cap by (auto simp: ChooseLeastUsedWorker_def Let_def picked_def)
  next
    case True
    then have nousable: "\<forall>c \<in> set cs. \<not> usable c" using cap by auto
    show ?thesis
    proof (cases "?act = []")
      case False
      then have "cs \<noteq> []" by auto
      with False True have "ChooseLeastUsedWorker u cs = Inl ErrClusterFull"
        by (simp add: ChooseLeastUsedWorker_def Let_def)
      moreover from False have "\<exists>c \<in> set cs. Info c \<noteq> None \<and> isActiveWorker c"
        by (auto simp: filter_empty_conv)
      ultimately show ?thesis using nousable by simp
    next
      case noact: True
      then have "pickWeightedRandom u ?cap True = None" using none True by blast
      with noact True have "ChooseLeastUsedWorker u cs =
          (case pickWeightedRandom u cs False of None \<Rightarrow> Inl ErrNoWorkerCandidates | Some b \<Rightarrow> Inr b)"
        by (cases "cs = []") (simp_all add: ChooseLeastUsedWorker_def Let_def pickWeightedRandom_def)
      moreover have "\<not> (\<exists>c \<in> set cs. Info c \<noteq> None \<and> isActiveWorker c)"
        using noact by (auto simp: filter_empty_conv)
      ultimately show ?thesis
        using none' pickWeightedRandom_picked [of u cs False]
        by (auto simp: picked_def split: option.split)
    qed
  qed
qed


definition sample_candidate :: "string \<Rightarrow> int \<Rightarrow> WorkerCandidate" where
  "sample_candidate w cpu =
     \<lparr>cand_Worker = (sample_process 3)\<lparr>wID := w\<rparr>,
      Info = Some \<lparr>wi_Id = w, wi_Address = ''10.0.0.7'', wi_Status = ''active'', wi_CpuBudget = 8,
        wi_MemBudget = 4096, wi_Capacity = 4, wi_CpuUsage = cpu, wi_MemUsage = 1024, wi_LastHeartbeat = 0\<rparr>\<rparr>"

lemma sample_candidate_active [simp]: "isActiveWorker (sample_candidate w cpu)"
  by (simp add: isActiveWorker_def sample_candidate_def sample_process_def WorkerStatusActive_def
      TrimSpace_plain plain_char_def lower_char_def)


end
