(* ===== verification/Job_World.thy ===== *)
theory Job_World
  imports Scheduler
begin

text \<open>
  The world a River job runs in.  Every database round trip of a job goes through
  \<open>db_call\<close>: other processes may have changed the database since the job's previous round
  trip (\<open>before\<close>), and the round trip itself may fail, with or without its effect committed.
  The hops not yet used are part of the world; an empty list is a quiet, healthy database.
  The calls to the workers are the functions of an \<open>rpc\<close> record over the state \<open>remote\<close> of
  the machines; \<open>dials\<close> says for which targets a client can be made.
\<close>

datatype round_trip = TripOk | TripFailed | TripLost

record hop =
  before :: "db \<Rightarrow> db"
  outcome :: round_trip

record 'r world =
  wdb :: db
  hops :: "hop list"
  remote :: 'r

definition db_call :: "'a dbop \<Rightarrow> 'r world \<Rightarrow> (repo_error + 'a) \<times> 'r world" where
  "db_call f w =
     (case hops w of
        [] \<Rightarrow> (case f (wdb w) of (x, d') \<Rightarrow> (x, w\<lparr>wdb := d'\<rparr>))
      | h # hs \<Rightarrow>
          (let d = before h (wdb w)
           in case outcome h of
                TripOk \<Rightarrow> (case f d of (x, d') \<Rightarrow> (x, w\<lparr>wdb := d', hops := hs\<rparr>))
              | TripFailed \<Rightarrow> (Inl ErrDriver, w\<lparr>wdb := d, hops := hs\<rparr>)
              | TripLost \<Rightarrow> (Inl ErrDriver, w\<lparr>wdb := snd (f d), hops := hs\<rparr>)))"

record 'r rpc =
  dials :: "string \<Rightarrow> bool"
  call_CreateSandbox :: "string \<Rightarrow> CreateSandboxRequest \<Rightarrow> 'r \<Rightarrow> (grpc_code + unit) \<times> 'r"
  call_RemoveSandbox :: "string \<Rightarrow> string \<Rightarrow> 'r \<Rightarrow> (grpc_code + unit) \<times> 'r"
  call_GetWorkerInfo :: "string \<Rightarrow> 'r \<Rightarrow> (grpc_code + WorkerInfo) \<times> 'r"
  call_ListRunningSandboxes :: "string \<Rightarrow> 'r \<Rightarrow> (grpc_code + string list) \<times> 'r"

definition remote_call :: "('r \<Rightarrow> 'a \<times> 'r) \<Rightarrow> 'r world \<Rightarrow> 'a \<times> 'r world" where
  "remote_call f w = (case f (remote w) of (x, r') \<Rightarrow> (x, w\<lparr>remote := r'\<rparr>))"

lemma remote_call_db [simp]:
  "wdb (snd (remote_call f w)) = wdb w" "hops (snd (remote_call f w)) = hops w"
  by (simp_all add: remote_call_def split: prod.split)

subsection \<open>grpc\_client.go: the address of a worker\<close>

text \<open>\<^verbatim>\<open>net.SplitHostPort\<close> succeeds; the port starts after the last colon.\<close>

fun last_colon :: "string \<Rightarrow> nat \<Rightarrow> nat option \<Rightarrow> nat option" where
  "last_colon [] i best = best"
| "last_colon (c # s) i best = last_colon s (Suc i) (if c = CHR '':'' then Some i else best)"

fun index_byte :: "string \<Rightarrow> char \<Rightarrow> nat option" where
  "index_byte [] b = None"
| "index_byte (c # s) b = (if c = b then Some 0 else map_option Suc (index_byte s b))"

definition SplitHostPort_ok :: "string \<Rightarrow> bool" where
  "SplitHostPort_ok s =
     (case last_colon s 0 None of
        None \<Rightarrow> False
      | Some i \<Rightarrow>
          if take 1 s = ''['' then
            (case index_byte s (CHR '']'') of
               None \<Rightarrow> False
             | Some e \<Rightarrow> e + 1 = i \<and> CHR ''['' \<notin> set (drop 1 s) \<and> CHR '']'' \<notin> set (drop (e + 1) s))
          else CHR '':'' \<notin> set (take i s) \<and> CHR ''['' \<notin> set s \<and> CHR '']'' \<notin> set s)"

definition JoinHostPort :: "string \<Rightarrow> string \<Rightarrow> string" where
  "JoinHostPort host port =
     (if CHR '':'' \<in> set host then ''['' @ host @ '']:'' @ port else host @ '':'' @ port)"

definition normalizeWorkerAddress :: "string \<Rightarrow> int \<Rightarrow> string" where
  "normalizeWorkerAddress address port =
     (let address = TrimSpace address;
          address = (if address = [] then ''127.0.0.1'' else address)
      in if SplitHostPort_ok address then address
         else if port \<le> 0 then []
         else JoinHostPort address (Itoa port))"

lemma db_call_quiet:
  "hops w = [] \<Longrightarrow> db_call f w = (fst (f (wdb w)), w\<lparr>wdb := snd (f (wdb w))\<rparr>)"
  by (simp add: db_call_def split: prod.split)

lemma db_call_quiet_hops [simp]: "hops w = [] \<Longrightarrow> hops (snd (db_call f w)) = []"
  by (simp add: db_call_quiet)

subsection \<open>Rely and guarantee\<close>

text \<open>
  The steps of the environment are sound.  What a job about sandbox \<open>i\<close> relies on, and keeps:
  the database is well formed, its books are in order, and the sandbox has a row.
\<close>

definition rely :: "'r world \<Rightarrow> bool" where
  "rely w \<longleftrightarrow> (\<forall>h \<in> set (hops w). \<forall>d. sound_step d (before h d))"

definition job_ctx :: "string \<Rightarrow> db \<Rightarrow> bool" where
  "job_ctx i d \<longleftrightarrow> wf_db d \<and> books_ok d \<and> sandbox_row_of i d \<noteq> None"

text \<open>A condition the environment cannot break: sound steps keep it and are legal from it.\<close>

definition stable :: "(db \<Rightarrow> bool) \<Rightarrow> bool" where
  "stable C \<longleftrightarrow> (\<forall>d d'. C d \<longrightarrow> sound_step d d' \<longrightarrow> C d' \<and> legal_db d d')"

lemma stableD: "stable C \<Longrightarrow> C d \<Longrightarrow> sound_step d d' \<Longrightarrow> C d' \<and> legal_db d d'"
  by (simp add: stable_def)

lemma job_ctx_stable [simp]: "stable (job_ctx i)"
  by (auto simp: stable_def job_ctx_def sound_step_def elim!: legal_db_rowD)

definition guarantees :: "(db \<Rightarrow> bool) \<Rightarrow> 'r world \<Rightarrow> 'r world \<Rightarrow> bool" where
  "guarantees C w w' \<longleftrightarrow>
     (rely w \<and> C (wdb w) \<longrightarrow> rely w' \<and> C (wdb w') \<and> legal_db (wdb w) (wdb w'))"

abbreviation guarantee :: "string \<Rightarrow> 'r world \<Rightarrow> 'r world \<Rightarrow> bool" where
  "guarantee i \<equiv> guarantees (job_ctx i)"

lemma guarantees_refl [simp]: "guarantees C w w"
  by (simp add: guarantees_def)

lemma guarantees_trans [trans]: "guarantees C a b \<Longrightarrow> guarantees C b c \<Longrightarrow> guarantees C a c"
  by (auto simp: guarantees_def intro: legal_db_trans)

lemma guarantees_remote [simp]: "guarantees C w (snd (remote_call f w))"
  by (simp add: guarantees_def rely_def)

lemma db_call_guarantees:
  assumes "stable C" and "\<And>d. C d \<Longrightarrow> sound_step d (snd (f d))"
  shows "guarantees C w (snd (db_call f w))"
  unfolding guarantees_def
proof
  assume w: "rely w \<and> C (wdb w)"
  show "rely (snd (db_call f w)) \<and> C (wdb (snd (db_call f w)))
      \<and> legal_db (wdb w) (wdb (snd (db_call f w)))"
  proof (cases "hops w")
    case Nil
    with w stableD [OF assms(1) _ assms(2)] show ?thesis
      by (auto simp: db_call_quiet rely_def)
  next
    case (Cons h hs)
    let ?d = "before h (wdb w)"
    have d: "C ?d \<and> legal_db (wdb w) ?d"
      using w Cons stableD [OF assms(1), of "wdb w" ?d] by (simp add: rely_def)
    then have f: "C (snd (f ?d)) \<and> legal_db ?d (snd (f ?d))"
      using stableD [OF assms(1) _ assms(2)] by blast
    with d have "legal_db (wdb w) (snd (f ?d))" by (blast intro: legal_db_trans)
    moreover have "rely (w\<lparr>wdb := d, hops := hs\<rparr>)" for d
      using w Cons by (simp add: rely_def)
    ultimately show ?thesis
      using Cons d f by (auto simp: db_call_def Let_def split: round_trip.split prod.split)
  qed
qed

lemma guarantees_bind:
  assumes "guarantees C w (snd (f w))"
    and "\<And>x w'. f w = (x, w') \<Longrightarrow> guarantees C w' (snd (g x w'))"
  shows "guarantees C w (snd (case f w of (x, w') \<Rightarrow> g x w'))"
proof -
  obtain x w' where f: "f w = (x, w')" by fastforce
  with assms(1) have "guarantees C w w'" by simp
  also have "guarantees C w' (snd (g x w'))" by (rule assms(2) [OF f])
  finally show ?thesis by (simp add: f)
qed

lemma guarantees_db:
  assumes "stable C" and "\<And>d. C d \<Longrightarrow> sound_step d (snd (f d))"
    and "\<And>x w'. guarantees C w' (snd (g x w'))"
  shows "guarantees C w (snd (case db_call f w of (x, w') \<Rightarrow> g x w'))"
  by (rule guarantees_bind [where f = "db_call f"]) (use assms in \<open>auto intro: db_call_guarantees\<close>)

lemma guarantees_rpc:
  assumes "\<And>x w'. guarantees C w' (snd (g x w'))"
  shows "guarantees C w (snd (case remote_call f w of (x, w') \<Rightarrow> g x w'))"
  by (rule guarantees_bind [where f = "remote_call f"]) (use assms in auto)

text \<open>The last round trip, seen from the database it leaves.\<close>

lemma db_call_ok:
  assumes "db_call f w = (Inr x, w')"
  shows "\<exists>d. f d = (Inr x, wdb w')"
  using assms
  by (auto simp: db_call_def Let_def split: list.splits round_trip.splits prod.splits)

end
