(* ===== verification/Auth.thy ===== *)
theory Auth
  imports Job_World
begin

text \<open>
  Users and sessions: \<^verbatim>\<open>auth/repository_postgres.go\<close>, \<^verbatim>\<open>auth/service.go\<close> and the handlers and
  middleware of \<^verbatim>\<open>orchestrator/auth_http.go\<close>.  Every repository call is a database round trip
  of its own (\<open>db_call\<close>): there is no transaction around a sign-up.  The bcrypt library is the
  record \<open>bcrypt\<close>, an argument of the operations that hash or compare; the identifiers, random
  bytes and clock readings an operation draws are arguments as well.  A request body is given
  decoded, \<open>None\<close> when \<^verbatim>\<open>json.Decode\<close> fails.
\<close>

subsection \<open>Repository\<close>

definition CreateUser :: "User \<Rightarrow> User dbop" where
  "CreateUser u d =
     (if usr_ID u \<in> usr_ID ` set (users d) \<or> Email u \<in> Email ` set (users d)
      then (Inl ErrEmailTaken, d)
      else (Inr u, d\<lparr>users := users d @ [u]\<rparr>))"

definition getUser :: "(User \<Rightarrow> string) \<Rightarrow> string \<Rightarrow> User dbop" where
  "getUser col arg d =
     (case row_by col arg (users d) of
        None \<Rightarrow> (Inl ErrNotFound, d)
      | Some u \<Rightarrow> (Inr u, d))"

definition GetUserByEmail :: "string \<Rightarrow> User dbop" where
  "GetUserByEmail email = getUser Email email"

definition GetUserByID :: "string \<Rightarrow> User dbop" where
  "GetUserByID i = getUser usr_ID i"

definition CreateSession :: "Session \<Rightarrow> Session dbop" where
  "CreateSession s d =
     (if Token s \<in> Token ` set (sessions d) then (Inl ErrUniqueViolation, d)
      else if ses_UserID s \<notin> usr_ID ` set (users d) then (Inl ErrForeignKeyViolation, d)
      else (Inr s, d\<lparr>sessions := sessions d @ [s]\<rparr>))"

definition GetSession :: "string \<Rightarrow> Session dbop" where
  "GetSession token d =
     (case row_by Token token (sessions d) of
        None \<Rightarrow> (Inl ErrNotFound, d)
      | Some s \<Rightarrow> (Inr s, d))"

definition DeleteSession :: "string \<Rightarrow> unit dbop" where
  "DeleteSession token d =
     (Inr (), d\<lparr>sessions := filter (\<lambda>s. Token s \<noteq> token) (sessions d)\<rparr>)"

subsection \<open>Service\<close>

record bcrypt =
  GenerateFromPassword :: "string \<Rightarrow> string option"
  CompareHashAndPassword :: "string \<Rightarrow> string \<Rightarrow> bool"

datatype auth_error =
    ERepo repo_error
  | ErrInvalidCreds
  | ErrSessionExpired
  | EHashPassword
  | EGenerateToken

definition sessionTTL :: duration where
  "sessionTTL = 30 * 24 * 3600 * second"

definition hex_digit :: "nat \<Rightarrow> char" where
  "hex_digit n = (if n < 10 then char_of (48 + n) else char_of (87 + n))"

text \<open>\<^verbatim>\<open>hex.EncodeToString\<close>.\<close>

definition EncodeToString :: "char list \<Rightarrow> string" where
  "EncodeToString bs =
     concat (map (\<lambda>b. let n = of_char b :: nat in [hex_digit (n div 16), hex_digit (n mod 16)]) bs)"

text \<open>The argument is what \<^verbatim>\<open>rand.Read\<close> put in the 32 bytes, \<open>None\<close> if it failed.\<close>

definition randomToken :: "char list option \<Rightarrow> string option" where
  "randomToken bs = map_option EncodeToString bs"

definition createSessionWithTTL ::
    "char list option \<Rightarrow> time \<Rightarrow> string \<Rightarrow> duration option \<Rightarrow> 'r world
       \<Rightarrow> (auth_error + Session) \<times> 'r world" where
  "createSessionWithTTL bs now userID ttl w =
     (case randomToken bs of
        None \<Rightarrow> (Inl EGenerateToken, w)
      | Some token \<Rightarrow>
          (case db_call (CreateSession \<lparr>Token = token, ses_UserID = userID, ses_CreatedAt = now,
                          ExpiresAt = map_option (\<lambda>t. now + t) ttl\<rparr>) w of
             (Inl e, w1) \<Rightarrow> (Inl (ERepo e), w1)
           | (Inr s, w1) \<Rightarrow> (Inr s, w1)))"

definition createSession ::
    "char list option \<Rightarrow> time \<Rightarrow> string \<Rightarrow> 'r world \<Rightarrow> (auth_error + Session) \<times> 'r world" where
  "createSession bs now userID = createSessionWithTTL bs now userID (Some sessionTTL)"

definition CreateNonExpiringSession ::
    "char list option \<Rightarrow> time \<Rightarrow> string \<Rightarrow> 'r world \<Rightarrow> (auth_error + Session) \<times> 'r world" where
  "CreateNonExpiringSession bs now userID = createSessionWithTTL bs now userID None"

definition SignUp ::
    "bcrypt \<Rightarrow> string \<Rightarrow> char list option \<Rightarrow> time \<Rightarrow> string \<Rightarrow> string \<Rightarrow> 'r world
       \<Rightarrow> (auth_error + User \<times> Session) \<times> 'r world" where
  "SignUp b newID bs now email password w =
     (case GenerateFromPassword b password of
        None \<Rightarrow> (Inl EHashPassword, w)
      | Some hash \<Rightarrow>
          (case db_call (CreateUser \<lparr>usr_ID = newID, Email = email, PasswordHash = hash,
                          usr_CreatedAt = now\<rparr>) w of
             (Inl e, w1) \<Rightarrow> (Inl (ERepo e), w1)
           | (Inr u, w1) \<Rightarrow>
               (case createSession bs now (usr_ID u) w1 of
                  (Inl e, w2) \<Rightarrow> (Inl e, w2)
                | (Inr s, w2) \<Rightarrow> (Inr (u, s), w2))))"

definition Login ::
    "bcrypt \<Rightarrow> char list option \<Rightarrow> time \<Rightarrow> string \<Rightarrow> string \<Rightarrow> 'r world
       \<Rightarrow> (auth_error + User \<times> Session) \<times> 'r world" where
  "Login b bs now email password w =
     (case db_call (GetUserByEmail email) w of
        (Inl e, w1) \<Rightarrow> (Inl (if e = ErrNotFound then ErrInvalidCreds else ERepo e), w1)
      | (Inr u, w1) \<Rightarrow>
          if \<not> CompareHashAndPassword b (PasswordHash u) password then (Inl ErrInvalidCreds, w1)
          else (case createSession bs now (usr_ID u) w1 of
                  (Inl e, w2) \<Rightarrow> (Inl e, w2)
                | (Inr s, w2) \<Rightarrow> (Inr (u, s), w2)))"

definition Authenticate :: "time \<Rightarrow> string \<Rightarrow> 'r world \<Rightarrow> (auth_error + User) \<times> 'r world" where
  "Authenticate now token w =
     (case db_call (GetSession token) w of
        (Inl e, w1) \<Rightarrow> (Inl (ERepo e), w1)
      | (Inr s, w1) \<Rightarrow>
          if (case ExpiresAt s of None \<Rightarrow> False | Some t \<Rightarrow> now > t) then (Inl ErrSessionExpired, w1)
          else (case db_call (GetUserByID (ses_UserID s)) w1 of
                  (Inl e, w2) \<Rightarrow> (Inl (ERepo e), w2)
                | (Inr u, w2) \<Rightarrow> (Inr u, w2)))"

definition Logout :: "string \<Rightarrow> 'r world \<Rightarrow> (auth_error + unit) \<times> 'r world" where
  "Logout token w =
     (case db_call (DeleteSession token) w of
        (Inl e, w1) \<Rightarrow> (Inl (ERepo e), w1)
      | (Inr _, w1) \<Rightarrow> (Inr (), w1))"

definition EnsureUser ::
    "bcrypt \<Rightarrow> string \<Rightarrow> time \<Rightarrow> string \<Rightarrow> string \<Rightarrow> 'r world \<Rightarrow> (auth_error + User) \<times> 'r world" where
  "EnsureUser b newID now email password w =
     (case db_call (GetUserByEmail email) w of
        (Inr u, w1) \<Rightarrow> (Inr u, w1)
      | (Inl e, w1) \<Rightarrow>
          if e \<noteq> ErrNotFound then (Inl (ERepo e), w1)
          else (case GenerateFromPassword b password of
                  None \<Rightarrow> (Inl EHashPassword, w1)
                | Some hash \<Rightarrow>
                    (case db_call (CreateUser \<lparr>usr_ID = newID, Email = email, PasswordHash = hash,
                                    usr_CreatedAt = now\<rparr>) w1 of
                       (Inl e, w2) \<Rightarrow> (Inl (ERepo e), w2)
                     | (Inr u, w2) \<Rightarrow> (Inr u, w2))))"

subsection \<open>auth\_http.go\<close>

datatype http_body =
    NoBody
  | PlainText string
  | AuthResponse string string string
  | SandboxJSON Sandbox
  | SandboxListJSON "Sandbox list"

record http_response =
  code :: int
  retry_after :: "string option"
  http_payload :: http_body

definition http_Error :: "string \<Rightarrow> int \<Rightarrow> http_response" where
  "http_Error msg c = \<lparr>code = c, retry_after = None, http_payload = PlainText msg\<rparr>"

definition write_status :: "int \<Rightarrow> http_response" where
  "write_status c = \<lparr>code = c, retry_after = None, http_payload = NoBody\<rparr>"

record authRequest =
  req_Email :: string
  req_Password :: string

definition decodeAuthRequest :: "authRequest option \<Rightarrow> http_response + authRequest" where
  "decodeAuthRequest raw =
     (case raw of
        None \<Rightarrow> Inl (http_Error ''invalid JSON body'' 400)
      | Some req \<Rightarrow>
          (let email = TrimSpace (ToLower (req_Email req))
           in if email = [] \<or> req_Password req = []
              then Inl (http_Error ''email and password are required'' 400)
              else Inr (req\<lparr>req_Email := email\<rparr>)))"

definition writeAuthResponse :: "int \<Rightarrow> User \<Rightarrow> Session \<Rightarrow> http_response" where
  "writeAuthResponse c u s =
     \<lparr>code = c, retry_after = None, http_payload = AuthResponse (Token s) (usr_ID u) (Email u)\<rparr>"

definition signUp ::
    "bcrypt \<Rightarrow> string \<Rightarrow> char list option \<Rightarrow> time \<Rightarrow> authRequest option \<Rightarrow> 'r world
       \<Rightarrow> http_response \<times> 'r world" where
  "signUp b newID bs now raw w =
     (case decodeAuthRequest raw of
        Inl resp \<Rightarrow> (resp, w)
      | Inr req \<Rightarrow>
          if \<not> Contains (req_Email req) ''@'' then (http_Error ''valid email is required'' 400, w)
          else if length (req_Password req) < 8
          then (http_Error ''password must be at least 8 characters'' 400, w)
          else (case SignUp b newID bs now (req_Email req) (req_Password req) w of
                  (Inl e, w1) \<Rightarrow>
                    (if e = ERepo ErrEmailTaken then http_Error ''email already registered'' 409
                     else http_Error ''signup failed'' 500, w1)
                | (Inr (u, s), w1) \<Rightarrow> (writeAuthResponse 201 u s, w1)))"

definition login ::
    "bcrypt \<Rightarrow> char list option \<Rightarrow> time \<Rightarrow> authRequest option \<Rightarrow> 'r world
       \<Rightarrow> http_response \<times> 'r world" where
  "login b bs now raw w =
     (case decodeAuthRequest raw of
        Inl resp \<Rightarrow> (resp, w)
      | Inr req \<Rightarrow>
          (case Login b bs now (req_Email req) (req_Password req) w of
             (Inl e, w1) \<Rightarrow>
               (if e = ErrInvalidCreds then http_Error ''invalid email or password'' 401
                else http_Error ''login failed'' 500, w1)
           | (Inr (u, s), w1) \<Rightarrow> (writeAuthResponse 200 u s, w1)))"

text \<open>The argument is the \<^verbatim>\<open>Authorization\<close> header, empty when there is none.\<close>

definition bearerToken :: "string \<Rightarrow> string" where
  "bearerToken h = (if \<not> HasPrefix h ''Bearer '' then [] else TrimPrefix h ''Bearer '')"

definition logout :: "string \<Rightarrow> 'r world \<Rightarrow> http_response \<times> 'r world" where
  "logout header w =
     (let token = bearerToken header
      in if token \<noteq> [] then (case Logout token w of (_, w1) \<Rightarrow> (write_status 204, w1))
         else (write_status 204, w))"

text \<open>A handler gets the user \<^verbatim>\<open>UserFromContext\<close> finds; it may end without writing a response.\<close>

definition RequireAuth ::
    "time \<Rightarrow> string \<Rightarrow> (User option \<Rightarrow> 'r world \<Rightarrow> http_response option \<times> 'r world)
       \<Rightarrow> 'r world \<Rightarrow> http_response option \<times> 'r world" where
  "RequireAuth now header serve_next w =
     (let token = bearerToken header
      in if token = [] then (Some (http_Error ''missing bearer token'' 401), w)
         else (case Authenticate now token w of
                 (Inl _, w1) \<Rightarrow> (Some (http_Error ''invalid or expired session'' 401), w1)
               | (Inr u, w1) \<Rightarrow> serve_next (Some u) w1))"

subsection \<open>The accounts are kept consistent\<close>

definition auth_wf :: "db \<Rightarrow> bool" where
  "auth_wf d \<longleftrightarrow>
     distinct (map usr_ID (users d)) \<and> distinct (map Email (users d))
     \<and> distinct (map Token (sessions d))
     \<and> (\<forall>s \<in> set (sessions d). ses_UserID s \<in> usr_ID ` set (users d))"

definition accounts_grow :: "db \<Rightarrow> db \<Rightarrow> bool" where
  "accounts_grow d d' \<longleftrightarrow> (\<exists>us. users d' = users d @ us)"

text \<open>The contract of a statement on the account tables: users are only added, keys stay unique,
  every session has its user, and the sandboxes, workers and jobs are left alone.\<close>

locale account_operation =
  fixes oper :: "db \<Rightarrow> 'r \<times> db"
  assumes consistent: "auth_wf d \<Longrightarrow> auth_wf (snd (oper d))"
    and users_grow: "accounts_grow d (snd (oper d))"
    and frame: "sandboxes (snd (oper d)) = sandboxes d \<and> workers (snd (oper d)) = workers d
      \<and> jobs (snd (oper d)) = jobs d \<and> clock (snd (oper d)) = clock d"
begin

lemma account_kept:
  "row_by k v (users d) = Some u \<Longrightarrow> row_by k v (users (snd (oper d))) = Some u"
  using users_grow [of d] by (auto simp: accounts_grow_def row_by_append)

lemma sound_on_sandboxes: "sound_step d (snd (oper d))"
proof (rule sound_same_books)
  show "sandboxes (snd (oper d)) = sandboxes d" "jobs (snd (oper d)) = jobs d" using frame by blast+
  show "safe_step d (snd (oper d))"
    using frame [of d] by (simp add: safe_step_def legal_db_def wf_db_def)
qed

end

interpretation create_user: account_operation "CreateUser u" for u
  by unfold_locales (auto simp: CreateUser_def auth_wf_def accounts_grow_def)

interpretation get_user_by_email: account_operation "GetUserByEmail e" for e
  by unfold_locales (auto simp: GetUserByEmail_def getUser_def accounts_grow_def split: option.split)

interpretation get_user_by_id: account_operation "GetUserByID i" for i
  by unfold_locales (auto simp: GetUserByID_def getUser_def accounts_grow_def split: option.split)

interpretation create_session: account_operation "CreateSession s" for s
  by unfold_locales (auto simp: CreateSession_def auth_wf_def accounts_grow_def)

interpretation get_session: account_operation "GetSession t" for t
  by unfold_locales (auto simp: GetSession_def accounts_grow_def split: option.split)

interpretation delete_session: account_operation "DeleteSession t" for t
  by unfold_locales (auto simp: DeleteSession_def auth_wf_def accounts_grow_def distinct_map_filter)

subsection \<open>What a request is authenticated as\<close>

text \<open>The specification of the middleware: the user of an unexpired session with the token.\<close>

definition session_live :: "time \<Rightarrow> Session \<Rightarrow> bool" where
  "session_live now s = (case ExpiresAt s of None \<Rightarrow> True | Some t \<Rightarrow> now \<le> t)"

definition user_of_token :: "time \<Rightarrow> string \<Rightarrow> db \<Rightarrow> User option" where
  "user_of_token now token d =
     (case row_by Token token (sessions d) of
        None \<Rightarrow> None
      | Some s \<Rightarrow> if session_live now s then row_by usr_ID (ses_UserID s) (users d) else None)"

lemma Authenticate_quiet:
  assumes "hops w = []"
  shows "Authenticate now token w =
    (case row_by Token token (sessions (wdb w)) of
       None \<Rightarrow> (Inl (ERepo ErrNotFound), w)
     | Some s \<Rightarrow>
         if \<not> session_live now s then (Inl ErrSessionExpired, w)
         else (case row_by usr_ID (ses_UserID s) (users (wdb w)) of
                 None \<Rightarrow> (Inl (ERepo ErrNotFound), w)
               | Some u \<Rightarrow> (Inr u, w)))"
  using assms
  by (auto simp: Authenticate_def db_call_quiet GetSession_def GetUserByID_def getUser_def
      session_live_def split: option.split)

lemma logout_quiet:
  assumes "hops w = []"
  shows "logout header w = (write_status 204,
    if bearerToken header = [] then w
    else w\<lparr>wdb := (wdb w)\<lparr>sessions := filter (\<lambda>s. Token s \<noteq> bearerToken header) (sessions (wdb w))\<rparr>\<rparr>)"
  using assms by (simp add: logout_def Logout_def Let_def db_call_quiet DeleteSession_def)

lemma createSession_quiet:
  assumes "hops w = []" and "createSession bs now i w = (Inr s, w1)"
  shows "\<exists>x. bs = Some x \<and> s = \<lparr>Token = EncodeToString x, ses_UserID = i, ses_CreatedAt = now,
           ExpiresAt = Some (now + sessionTTL)\<rparr>
    \<and> w1 = w\<lparr>wdb := (wdb w)\<lparr>sessions := sessions (wdb w) @ [s]\<rparr>\<rparr>
    \<and> Token s \<notin> Token ` set (sessions (wdb w))"
  using assms
  by (auto simp: createSession_def createSessionWithTTL_def randomToken_def db_call_quiet
      CreateSession_def split: option.splits if_splits)

lemma createSession_fresh:
  assumes "hops w = []" and "EncodeToString x \<notin> Token ` set (sessions (wdb w))"
    and "i \<in> usr_ID ` set (users (wdb w))"
  shows "\<exists>s. fst (createSession (Some x) now i w) = Inr s \<and> Token s = EncodeToString x"
  using assms
  by (simp add: createSession_def createSessionWithTTL_def randomToken_def db_call_quiet CreateSession_def)

lemma row_by_absent: "k \<notin> key ` set t \<Longrightarrow> row_by key k t = None"
  by (simp add: row_by_None_iff)

lemma signUp_created:
  assumes "hops w = []" and "signUp b newID bs now raw w = (resp, w1)" and "code resp = 201"
  shows "\<exists>req hash u s x. decodeAuthRequest raw = Inr req \<and> Contains (req_Email req) ''@''
    \<and> 8 \<le> length (req_Password req) \<and> GenerateFromPassword b (req_Password req) = Some hash
    \<and> u = \<lparr>usr_ID = newID, Email = req_Email req, PasswordHash = hash, usr_CreatedAt = now\<rparr>
    \<and> s = \<lparr>Token = EncodeToString x, ses_UserID = newID, ses_CreatedAt = now,
           ExpiresAt = Some (now + sessionTTL)\<rparr>
    \<and> resp = writeAuthResponse 201 u s
    \<and> Email u \<notin> Email ` set (users (wdb w)) \<and> newID \<notin> usr_ID ` set (users (wdb w))
    \<and> Token s \<notin> Token ` set (sessions (wdb w))
    \<and> w1 = w\<lparr>wdb := (wdb w)\<lparr>users := users (wdb w) @ [u], sessions := sessions (wdb w) @ [s]\<rparr>\<rparr>"
proof -
  obtain req where req: "decodeAuthRequest raw = Inr req"
    using assms(2,3) by (auto simp: signUp_def decodeAuthRequest_def http_Error_def Let_def
        split: option.splits if_splits)
  obtain u s where su: "SignUp b newID bs now (req_Email req) (req_Password req) w = (Inr (u, s), w1)"
    and resp: "resp = writeAuthResponse 201 u s"
    and ok: "Contains (req_Email req) ''@''" "8 \<le> length (req_Password req)"
    using assms(2,3) req
    by (auto simp: signUp_def http_Error_def split: if_splits prod.splits sum.splits)
  then obtain hash where hash: "GenerateFromPassword b (req_Password req) = Some hash"
    by (auto simp: SignUp_def split: option.splits)
  let ?u = "\<lparr>usr_ID = newID, Email = req_Email req, PasswordHash = hash, usr_CreatedAt = now\<rparr>"
  let ?w = "w\<lparr>wdb := (wdb w)\<lparr>users := users (wdb w) @ [?u]\<rparr>\<rparr>"
  have new: "newID \<notin> usr_ID ` set (users (wdb w))" "req_Email req \<notin> Email ` set (users (wdb w))"
    and u: "u = ?u" and cs: "createSession bs now newID ?w = (Inr s, w1)"
    using su hash assms(1)
    by (auto simp: SignUp_def db_call_quiet CreateUser_def split: if_splits prod.splits sum.splits)
  from createSession_quiet [OF _ cs] assms(1) obtain x where "bs = Some x"
    "s = \<lparr>Token = EncodeToString x, ses_UserID = newID, ses_CreatedAt = now,
           ExpiresAt = Some (now + sessionTTL)\<rparr>"
    "w1 = ?w\<lparr>wdb := (wdb ?w)\<lparr>sessions := sessions (wdb ?w) @ [s]\<rparr>\<rparr>"
    "Token s \<notin> Token ` set (sessions (wdb ?w))" by auto
  with req ok hash new u resp show ?thesis by auto
qed

subsection \<open>Properties\<close>

text \<open>C37: signing up gives an account one can use.  When sign-up answers 201, the token it returns
  authenticates as the new user for thirty days and as nobody afterwards; logging in with the same
  e-mail and password succeeds (with random bytes not drawn before); and a second sign-up with the
  e-mail is refused as taken.\<close>

theorem signUp_then_login:
  assumes "\<forall>p h. GenerateFromPassword b p = Some h \<longrightarrow> CompareHashAndPassword b h p"
    and "auth_wf (wdb w)" and "hops w = []"
    and "signUp b newID bs now raw w = (resp, w1)" and "code resp = 201"
    and "EncodeToString x \<notin> Token ` set (sessions (wdb w1))"
  shows "\<exists>token u. http_payload resp = AuthResponse token (usr_ID u) (Email u) \<and> usr_ID u = newID
    \<and> fst (Authenticate t token w1) = (if t \<le> now + sessionTTL then Inr u else Inl ErrSessionExpired)
    \<and> code (fst (login b (Some x) t raw w1)) = 200
    \<and> code (fst (signUp b newID' bs' t raw w1)) = 409"
proof -
  from signUp_created [OF assms(3-5)] obtain req hash u s y where
    f: "decodeAuthRequest raw = Inr req" "Contains (req_Email req) ''@''"
      "8 \<le> length (req_Password req)" "GenerateFromPassword b (req_Password req) = Some hash"
      "u = \<lparr>usr_ID = newID, Email = req_Email req, PasswordHash = hash, usr_CreatedAt = now\<rparr>"
      "s = \<lparr>Token = EncodeToString y, ses_UserID = newID, ses_CreatedAt = now,
           ExpiresAt = Some (now + sessionTTL)\<rparr>"
      "resp = writeAuthResponse 201 u s"
      "Email u \<notin> Email ` set (users (wdb w))" "newID \<notin> usr_ID ` set (users (wdb w))"
      "Token s \<notin> Token ` set (sessions (wdb w))"
      "w1 = w\<lparr>wdb := (wdb w)\<lparr>users := users (wdb w) @ [u], sessions := sessions (wdb w) @ [s]\<rparr>\<rparr>"
    by blast
  have quiet: "hops w1 = []" using f(11) assms(3) by simp
  have byid: "row_by usr_ID newID (users (wdb w1)) = Some u"
    and bymail: "row_by Email (req_Email req) (users (wdb w1)) = Some u"
    and bytok: "row_by Token (Token s) (sessions (wdb w1)) = Some s"
    using f(5,6,8,9,10,11) by (simp_all add: row_by_append row_by_absent)
  have "fst (Authenticate t (Token s) w1) = (if t \<le> now + sessionTTL then Inr u else Inl ErrSessionExpired)"
    using byid bytok f(6) by (simp add: Authenticate_quiet [OF quiet] session_live_def)
  moreover
  obtain s' w2 where "createSession (Some x) t newID w1 = (Inr s', w2)"
    using createSession_fresh [OF quiet assms(6), of newID t] f(5,11) by (force simp: prod_eq_iff)
  then have "Login b (Some x) t (req_Email req) (req_Password req) w1 = (Inr (u, s'), w2)"
    using bymail f(4,5) assms(1) quiet
    by (simp add: Login_def db_call_quiet GetUserByEmail_def getUser_def)
  then have "code (fst (login b (Some x) t raw w1)) = 200"
    using f(1) by (simp add: login_def writeAuthResponse_def)
  moreover have "req_Email req \<in> Email ` set (users (wdb w1))" using f(5,11) by simp
  then have "code (fst (signUp b newID' bs' t raw w1)) = 409"
    using f(1-4) quiet
    by (simp add: signUp_def SignUp_def db_call_quiet CreateUser_def http_Error_def)
  ultimately show ?thesis
    using f(5,7) by (intro exI [of _ "Token s"] exI [of _ u]) (simp add: writeAuthResponse_def)
qed

definition sample_bcrypt :: bcrypt where
  "sample_bcrypt = \<lparr>GenerateFromPassword = (\<lambda>p. Some (CHR ''h'' # p)),
     CompareHashAndPassword = (\<lambda>h p. h = CHR ''h'' # p)\<rparr>"

definition sample_auth_world :: "unit world" where
  "sample_auth_world = \<lparr>wdb = sample_db, hops = [], remote = ()\<rparr>"

definition sample_signup :: authRequest where
  "sample_signup = \<lparr>req_Email = ''a@b'', req_Password = ''passw0rd''\<rparr>"

lemma sample_decode:
  "decodeAuthRequest (Some sample_signup) = Inr sample_signup"
proof -
  have "ToLower ''a@b'' = ''a@b''" by (simp add: lower_char_def Let_def)
  moreover have "TrimSpace ''a@b'' = ''a@b''" by (rule TrimSpace_plain) (simp_all add: plain_char_def)
  ultimately show ?thesis by (simp add: decodeAuthRequest_def sample_signup_def)
qed

lemma sample_token: "EncodeToString ''x'' = ''78''" "EncodeToString ''y'' = ''79''"
  by code_simp+

lemma sample_signUp:
  "\<exists>resp w1. signUp sample_bcrypt ''u'' (Some ''x'') 5 (Some sample_signup) sample_auth_world = (resp, w1)
     \<and> code resp = 201 \<and> sessions (wdb w1) = [\<lparr>Token = ''78'', ses_UserID = ''u'', ses_CreatedAt = 5,
         ExpiresAt = Some (5 + sessionTTL)\<rparr>]"
  by (simp add: signUp_def sample_decode SignUp_def sample_bcrypt_def sample_auth_world_def
      db_call_quiet CreateUser_def createSession_def createSessionWithTTL_def randomToken_def
      CreateSession_def writeAuthResponse_def sample_db_def sample_token)
    (simp add: sample_signup_def has_prefix_def)

theorem signUp_then_login_witness:
  "\<exists>resp w1 token u.
     signUp sample_bcrypt ''u'' (Some ''x'') 5 (Some sample_signup) sample_auth_world = (resp, w1)
     \<and> http_payload resp = AuthResponse token (usr_ID u) (Email u)
     \<and> fst (Authenticate 7 token w1) = Inr u
     \<and> code (fst (login sample_bcrypt (Some ''y'') 7 (Some sample_signup) w1)) = 200"
proof -
  obtain resp w1 where run:
    "signUp sample_bcrypt ''u'' (Some ''x'') 5 (Some sample_signup) sample_auth_world = (resp, w1)"
    "code resp = 201"
    and s: "sessions (wdb w1) = [\<lparr>Token = ''78'', ses_UserID = ''u'', ses_CreatedAt = 5,
         ExpiresAt = Some (5 + sessionTTL)\<rparr>]" using sample_signUp by blast
  have "\<forall>p h. GenerateFromPassword sample_bcrypt p = Some h \<longrightarrow> CompareHashAndPassword sample_bcrypt h p"
    "auth_wf (wdb sample_auth_world)" "hops sample_auth_world = []"
    "EncodeToString ''y'' \<notin> Token ` set (sessions (wdb w1))"
    using s by (auto simp: sample_bcrypt_def sample_auth_world_def auth_wf_def sample_db_def sample_token)
  from signUp_then_login [OF this(1-3) run this(4), of 7 "''v''" None] obtain token u where
    "http_payload resp = AuthResponse token (usr_ID u) (Email u)"
    "fst (Authenticate 7 token w1) = Inr u"
    "code (fst (login sample_bcrypt (Some ''y'') 7 (Some sample_signup) w1)) = 200"
    by (auto simp: sessionTTL_def second_def)
  with run show ?thesis by (intro exI conjI)
qed



end
