(* ===== verification/Create_Job.thy ===== *)
theory Create_Job
  imports Job_World
begin

text \<open>
  \<^verbatim>\<open>orchestrator/create_sandbox_worker.go\<close>: the River job that brings a sandbox up.  One
  definition per method, in the order the attempt runs them.  What an attempt returns is
  \<open>JobDone\<close> (\<^verbatim>\<open>nil\<close>), \<open>JobCancelled\<close> (\<^verbatim>\<open>river.JobCancel\<close>) or \<open>JobError\<close>.  The clock readings of
  \<^verbatim>\<open>HeartbeatExpired\<close> and the draws of the scheduler are functions of how many workers or
  candidates are left.
\<close>

datatype job_error =
    EGetSandbox repo_error
  | EUnexpectedStatus Status
  | EEnded string Status
  | ERead repo_error
  | EMoved Status string
  | ESet Status repo_error
  | EListWorkers repo_error
  | EChoose sched_error
  | EAssign repo_error
  | ENoWorkerID
  | EGetWorker string repo_error
  | EConnect string
  | ERemoteCreate grpc_code
  | ERemoteRemove grpc_code
  | EClearWorker repo_error
  | EReap repo_error
  | EExhausted string job_error

datatype job_result =
    JobDone
  | JobCancelled job_error
  | JobError job_error

definition maybe_cleanup_tx :: "string \<Rightarrow> unit dbop" where
  "maybe_cleanup_tx i d =
     (case UpdateStatus i StatusCleanupPending in_flight_list d of
        (Inl e, _) \<Rightarrow> (Inl e, d)
      | (Inr _, d') \<Rightarrow>
          (Inr (), insert_jobs [(CleanupSandboxArgs i [],
             Some \<lparr>Queue = ''cleanup'', ByArgs = False, ByState = []\<rparr>)] d'))"

definition maybeCleanup ::
    "string \<Rightarrow> bool \<Rightarrow> job_error \<Rightarrow> 'r world \<Rightarrow> job_result \<times> 'r world" where
  "maybeCleanup i isFinal origErr w =
     (if \<not> isFinal then (JobError origErr, w)
      else case db_call (maybe_cleanup_tx i) w of
             (Inl _, w') \<Rightarrow> (JobError origErr, w')
           | (Inr _, w') \<Rightarrow> (JobCancelled (EExhausted i origErr), w'))"

definition settled :: "Sandbox \<Rightarrow> job_result option" where
  "settled s =
     (case sbx_Status s of
        StatusRunning \<Rightarrow> Some JobDone
      | StatusStopped \<Rightarrow> Some (JobCancelled (EEnded (ID s) (sbx_Status s)))
      | StatusFailed \<Rightarrow> Some (JobCancelled (EEnded (ID s) (sbx_Status s)))
      | StatusCleanupPending \<Rightarrow> Some (JobCancelled (EEnded (ID s) (sbx_Status s)))
      | StatusCleanedUp \<Rightarrow> Some (JobCancelled (EEnded (ID s) (sbx_Status s)))
      | _ \<Rightarrow> None)"

definition movedUnder ::
    "string \<Rightarrow> string \<Rightarrow> bool \<Rightarrow> 'r world \<Rightarrow> job_result \<times> 'r world" where
  "movedUnder i stepName isFinal w =
     (case db_call (GetByID i) w of
        (Inl e, w') \<Rightarrow> maybeCleanup i isFinal (ERead e) w'
      | (Inr s, w') \<Rightarrow>
          (case settled s of
             Some res \<Rightarrow> (res, w')
           | None \<Rightarrow> maybeCleanup i isFinal (EMoved (sbx_Status s) stepName) w'))"

definition stepAcknowledge :: "string \<Rightarrow> bool \<Rightarrow> 'r world \<Rightarrow> job_result \<times> 'r world" where
  "stepAcknowledge i isFinal w =
     (case db_call (GetByID i) w of
        (Inl e, w') \<Rightarrow> maybeCleanup i isFinal (ERead e) w'
      | (Inr s, w') \<Rightarrow>
          (case settled s of
             Some res \<Rightarrow> (res, w')
           | None \<Rightarrow>
               (case db_call (UpdateStatus i StatusRunning [StatusStarting]) w' of
                  (Inl e, w'') \<Rightarrow> maybeCleanup i isFinal (ESet StatusRunning e) w''
                | (Inr (_, n), w'') \<Rightarrow>
                    if n = 0 then movedUnder i ''acknowledgement'' isFinal w''
                    else (JobDone, w''))))"

definition create_request :: "Sandbox \<Rightarrow> CreateSandboxRequest" where
  "create_request s =
     \<lparr>req_Id = ID s, req_Runtime = Runtime s, req_Image = Image s, req_Port = Port s,
      req_Ttl = TTL s, req_PreviewUrl = PreviewURL s, req_VcpuCount = VcpuCount s,
      req_MemSizeMib = MemSizeMib s\<rparr>"

definition stepStartSandbox ::
    "'r rpc \<Rightarrow> Sandbox \<Rightarrow> bool \<Rightarrow> 'r world \<Rightarrow> job_result \<times> 'r world" where
  "stepStartSandbox rpc s isFinal w =
     (case WorkerID s of
        None \<Rightarrow> maybeCleanup (ID s) isFinal ENoWorkerID w
      | Some wid \<Rightarrow>
          (case db_call (wrk_Get wid) w of
             (Inl e, w1) \<Rightarrow> maybeCleanup (ID s) isFinal (EGetWorker wid e) w1
           | (Inr worker, w1) \<Rightarrow>
               (let address = normalizeWorkerAddress (Address worker) (to_int32 (wPort worker))
                in if \<not> dials rpc address then maybeCleanup (ID s) isFinal (EConnect wid) w1
                   else case remote_call (call_CreateSandbox rpc address (create_request s)) w1 of
                          (Inl code, w2) \<Rightarrow> maybeCleanup (ID s) isFinal (ERemoteCreate code) w2
                        | (Inr _, w2) \<Rightarrow>
                            (case db_call (UpdateStatus (ID s) StatusStarting [StatusAssigned]) w2 of
                               (Inl e, w3) \<Rightarrow> maybeCleanup (ID s) isFinal (ESet StatusStarting e) w3
                             | (Inr _, w3) \<Rightarrow> stepAcknowledge (ID s) isFinal w3))))"

fun buildCandidates ::
    "'r rpc \<Rightarrow> (nat \<Rightarrow> time) \<Rightarrow> Worker list \<Rightarrow> 'r world \<Rightarrow> WorkerCandidate list \<times> 'r world" where
  "buildCandidates rpc nowAt [] w = ([], w)"
| "buildCandidates rpc nowAt (x # xs) w =
     (if HeartbeatExpired (nowAt (length xs)) (Last_heartbeat x) 0 then buildCandidates rpc nowAt xs w
      else
        (let addr = normalizeWorkerAddress (Address x) (to_int32 (wPort x))
         in if \<not> dials rpc addr then buildCandidates rpc nowAt xs w
            else case remote_call (call_GetWorkerInfo rpc addr) w of
                   (Inl _, w') \<Rightarrow> buildCandidates rpc nowAt xs w'
                 | (Inr info, w') \<Rightarrow>
                     (case buildCandidates rpc nowAt xs w' of
                        (cs, w'') \<Rightarrow> (\<lparr>cand_Worker = x, Info = Some info\<rparr> # cs, w''))))"

text \<open>The loop that drops a worker found full and chooses again among the others.\<close>

definition drop_worker :: "WorkerCandidate \<Rightarrow> WorkerCandidate list \<Rightarrow> WorkerCandidate list" where
  "drop_worker chosen cs = filter (\<lambda>c. wID (cand_Worker c) \<noteq> wID (cand_Worker chosen)) cs"

lemma choose_mem: "ChooseLeastUsedWorker u cs = Inr c \<Longrightarrow> c \<in> set cs"
  using pickWeightedRandom_picked [of u _ True] pickWeightedRandom_picked [of u _ False]
  by (fastforce simp: ChooseLeastUsedWorker_def Let_def picked_def split: if_splits option.splits)

lemma drop_worker_shorter: "c \<in> set cs \<Longrightarrow> length (drop_worker c cs) < length cs"
  unfolding drop_worker_def by (rule length_filter_less) auto

function assign_loop ::
    "(nat \<Rightarrow> rat) \<Rightarrow> string \<Rightarrow> bool \<Rightarrow> bool \<Rightarrow> WorkerCandidate list \<Rightarrow> 'r world \<Rightarrow>
       (job_result + Sandbox) \<times> 'r world" where
  "assign_loop draw i isFinal droppedFull cs w =
     (case ChooseLeastUsedWorker (draw (length cs)) cs of
        Inl ErrClusterFull \<Rightarrow>
          (case maybeCleanup i True (EChoose ErrClusterFull) w of (res, w') \<Rightarrow> (Inl res, w'))
      | Inl ErrNoWorkerCandidates \<Rightarrow>
          (case (if droppedFull then maybeCleanup i True (EChoose ErrClusterFull) w
                 else maybeCleanup i isFinal (EChoose ErrNoWorkerCandidates) w) of
             (res, w') \<Rightarrow> (Inl res, w'))
      | Inr chosen \<Rightarrow>
          (case db_call (AssignWorker i (wID (cand_Worker chosen))) w of
             (Inl ErrWorkerFull, w') \<Rightarrow> assign_loop draw i isFinal True (drop_worker chosen cs) w'
           | (Inl e, w') \<Rightarrow>
               (case maybeCleanup i isFinal (EAssign e) w' of (res, w'') \<Rightarrow> (Inl res, w''))
           | (Inr assigned, w') \<Rightarrow> (Inr assigned, w')))"
  by pat_completeness auto
termination
  by (relation "measure (\<lambda>(draw, i, isFinal, droppedFull, cs, w). length cs)")
    (auto dest!: choose_mem intro: drop_worker_shorter)

declare assign_loop.simps [simp del]

definition stepAssign ::
    "'r rpc \<Rightarrow> (nat \<Rightarrow> time) \<Rightarrow> (nat \<Rightarrow> rat) \<Rightarrow> Sandbox \<Rightarrow> bool \<Rightarrow> 'r world \<Rightarrow> job_result \<times> 'r world" where
  "stepAssign rpc nowAt draw s isFinal w =
     (if WorkerID s \<noteq> None then stepStartSandbox rpc s isFinal w
      else
        (case db_call wrk_List w of
           (Inl e, w1) \<Rightarrow> maybeCleanup (ID s) isFinal (EListWorkers e) w1
         | (Inr ws, w1) \<Rightarrow>
             (case buildCandidates rpc nowAt ws w1 of
                (cs, w2) \<Rightarrow>
                  (case assign_loop draw (ID s) isFinal False cs w2 of
                     (Inl res, w3) \<Rightarrow> (res, w3)
                   | (Inr assigned, w3) \<Rightarrow>
                       if WorkerID assigned = None then movedUnder (ID s) ''assignment'' isFinal w3
                       else stepStartSandbox rpc assigned isFinal w3))))"

definition stepScheduling ::
    "'r rpc \<Rightarrow> (nat \<Rightarrow> time) \<Rightarrow> (nat \<Rightarrow> rat) \<Rightarrow> string \<Rightarrow> bool \<Rightarrow> 'r world \<Rightarrow> job_result \<times> 'r world" where
  "stepScheduling rpc nowAt draw i isFinal w =
     (case db_call (UpdateStatus i StatusScheduling [StatusPending]) w of
        (Inl e, w1) \<Rightarrow> maybeCleanup i isFinal (ESet StatusScheduling e) w1
      | (Inr (_, n), w1) \<Rightarrow>
          if n = 0 then movedUnder i ''scheduling'' isFinal w1
          else (case db_call (GetByID i) w1 of
                  (Inl e, w2) \<Rightarrow> maybeCleanup i isFinal (ERead e) w2
                | (Inr s, w2) \<Rightarrow> stepAssign rpc nowAt draw s isFinal w2))"

definition create_Work ::
    "'r rpc \<Rightarrow> (nat \<Rightarrow> time) \<Rightarrow> (nat \<Rightarrow> rat) \<Rightarrow> int \<Rightarrow> int \<Rightarrow> string \<Rightarrow> 'r world \<Rightarrow>
       job_result \<times> 'r world" where
  "create_Work rpc nowAt draw attempt maxAttempts i w =
     (let isFinal = (attempt \<ge> maxAttempts)
      in case db_call (GetByID i) w of
           (Inl e, w1) \<Rightarrow> (JobError (EGetSandbox e), w1)
         | (Inr s, w1) \<Rightarrow>
             (case sbx_Status s of
                StatusPending \<Rightarrow> stepScheduling rpc nowAt draw i isFinal w1
              | StatusScheduling \<Rightarrow> stepAssign rpc nowAt draw s isFinal w1
              | StatusAssigned \<Rightarrow> stepStartSandbox rpc s isFinal w1
              | StatusStarting \<Rightarrow> stepAcknowledge i isFinal w1
              | StatusOther _ \<Rightarrow> (JobError (EUnexpectedStatus (sbx_Status s)), w1)
              | _ \<Rightarrow> (case settled s of Some res \<Rightarrow> (res, w1) | None \<Rightarrow> (JobDone, w1))))"

subsection \<open>The transaction of the last attempt\<close>

lemma to_cleanup_fun: "(\<lambda>r. r\<lparr>sbx_Status := StatusCleanupPending\<rparr>) = to_cleanup"
  by (simp add: to_cleanup_def fun_eq_iff)

lemma UpdateStatus_no_error: "from \<noteq> [] \<Longrightarrow> fst (UpdateStatus i st from d) \<in> range Inr"
  by (auto simp: UpdateStatus_def Let_def split: list.split)

definition end_row :: "string \<Rightarrow> db \<Rightarrow> db" where
  "end_row i d = update_sandboxes (\<lambda>r. ID r = i \<and> sbx_Status r \<in> set in_flight_list) to_cleanup d"

definition default_cleanup :: "string \<Rightarrow> job_insert" where
  "default_cleanup i = (CleanupSandboxArgs i [],
     Some \<lparr>Queue = ''cleanup'', ByArgs = False, ByState = []\<rparr>)"

lemma maybe_cleanup_tx_run:
  "maybe_cleanup_tx i d = (Inr (), insert_jobs [default_cleanup i] (end_row i d))"
proof -
  obtain x d' where u: "UpdateStatus i StatusCleanupPending in_flight_list d = (x, d')" by fastforce
  then have "x \<in> range Inr"
    using UpdateStatus_no_error [of in_flight_list i StatusCleanupPending d] by simp
  moreover from u have "d' = end_row i d"
    using UpdateStatus_db [of i StatusCleanupPending in_flight_list d]
    by (simp add: end_row_def to_cleanup_fun)
  ultimately show ?thesis using u by (auto simp: maybe_cleanup_tx_def default_cleanup_def)
qed

lemma end_row_not_in_flight:
  "sandbox_row_of i (end_row i d) = Some r \<Longrightarrow> sbx_Status r \<notin> in_flight"
proof -
  assume "sandbox_row_of i (end_row i d) = Some r"
  then obtain r0 where "sandbox_row_of i d = Some r0"
    and r: "r = (if ID r0 = i \<and> sbx_Status r0 \<in> set in_flight_list then to_cleanup r0 else r0)"
    by (auto simp: end_row_def row_by_upd_where to_cleanup_def)
  then have "ID r0 = i" by (auto dest: row_by_SomeD)
  with r show ?thesis by (cases "sbx_Status r0 \<in> set in_flight_list") (simp_all add: to_cleanup_def)
qed

lemma maybe_cleanup_tx_sound:
  assumes "job_ctx i d"
  shows "sound_step d (snd (maybe_cleanup_tx i d))"
  unfolding maybe_cleanup_tx_run snd_conv end_row_def
proof (rule sound_update)
  show "safe_step d (update_sandboxes (\<lambda>r. ID r = i \<and> sbx_Status r \<in> set in_flight_list) to_cleanup d)"
    by (rule safe_to_cleanup) simp
  fix j assume "j \<in> set [default_cleanup i]"
  moreover obtain r where "sandbox_row_of i (end_row i d) = Some r"
    using assms by (auto simp: job_ctx_def end_row_def row_by_upd_where to_cleanup_def)
  ultimately show "job_grounded (update_sandboxes (\<lambda>r. ID r = i \<and> sbx_Status r \<in> set in_flight_list)
      to_cleanup d) (fst j)"
    using end_row_not_in_flight [of i d r]
    by (simp add: default_cleanup_def end_row_def cleanup_target_def)
qed (simp_all add: to_cleanup_def default_cleanup_def cleanup_job_for_def)

subsection \<open>Every attempt keeps the books\<close>

lemma maybeCleanup_guarantee [simp]: "guarantee i w (snd (maybeCleanup i isFinal e w))"
proof (cases isFinal)
  case True
  have "guarantee i w (snd (db_call (maybe_cleanup_tx i) w))"
    by (rule db_call_guarantees [OF job_ctx_stable]) (rule maybe_cleanup_tx_sound)
  then have "guarantee i w (snd (case db_call (maybe_cleanup_tx i) w of
      (x, w') \<Rightarrow> case x of Inl _ \<Rightarrow> (JobError e, w') | Inr _ \<Rightarrow> (JobCancelled (EExhausted i e), w')))"
    by (rule guarantees_bind [where f = "db_call (maybe_cleanup_tx i)"]) (auto split: sum.split)
  with True show ?thesis by (simp add: maybeCleanup_def)
qed (simp add: maybeCleanup_def)

lemma maybeCleanup_left_guarantee [simp]:
  "guarantee i w (snd (case maybeCleanup i isFinal e w of (res, w') \<Rightarrow> (Inl res, w')))"
proof -
  obtain res w' where m: "maybeCleanup i isFinal e w = (res, w')" by fastforce
  from maybeCleanup_guarantee [of i w isFinal e] have "guarantee i w w'"
    unfolding m by (simp only: snd_conv)
  then show ?thesis by (simp add: m)
qed

lemma movedUnder_guarantee [simp]: "guarantee i w (snd (movedUnder i st isFinal w))"
  unfolding movedUnder_def
  by (rule guarantees_db [OF job_ctx_stable tx_get.sound]) (auto split: sum.split option.split)

lemma stepAcknowledge_guarantee [simp]: "guarantee i w (snd (stepAcknowledge i isFinal w))"
  unfolding stepAcknowledge_def
  by (rule guarantees_db [OF job_ctx_stable tx_get.sound])
    (auto split: sum.split option.split intro!: guarantees_db [OF job_ctx_stable tx_running.sound])

lemma stepStartSandbox_guarantee:
  assumes "ID s = i"
  shows "guarantee i w (snd (stepStartSandbox rpc s isFinal w))"
proof (cases "WorkerID s")
  case None
  with assms show ?thesis by (auto simp: stepStartSandbox_def)
next
  case (Some wid)
  show ?thesis
    unfolding stepStartSandbox_def Some option.case Let_def assms
    by (rule guarantees_db [OF job_ctx_stable tx_wrk_get.sound])
      (auto split: sum.split intro!: guarantees_rpc guarantees_db [OF job_ctx_stable tx_starting.sound])
qed

lemma buildCandidates_db [simp]:
  "wdb (snd (buildCandidates rpc nowAt ws w)) = wdb w"
  "hops (snd (buildCandidates rpc nowAt ws w)) = hops w"
  by (induction rpc nowAt ws w rule: buildCandidates.induct)
    (auto simp: Let_def remote_call_def split: prod.split sum.split)

lemma buildCandidates_guarantee [simp]: "guarantee i w (snd (buildCandidates rpc nowAt ws w))"
  by (simp add: guarantees_def rely_def)

text \<open>What the loop hands over is the sandbox it was asked to assign.\<close>

lemma AssignWorker_ID:
  assumes "AssignWorker i x d = (Inr s, d')" and "WorkerID s \<noteq> None"
  shows "ID s = i"
proof -
  obtain wr where wr: "worker_row_of x d = Some wr"
    using assms(1) by (cases "worker_row_of x d") (auto simp: AssignWorker_def)
  let ?hit = "\<lambda>r. ID r = i \<and> sbx_Status r = StatusScheduling \<and> int (occupancy x d) < wr_capacity wr"
  show ?thesis
  proof (cases "returning ?hit (assign_to x (clock d)) (sandboxes d)")
    case Nil
    with assms wr show ?thesis
      by (auto simp: AssignWorker_def split: option.splits if_splits)
  next
    case (Cons r rs)
    then have "r \<in> set (returning ?hit (assign_to x (clock d)) (sandboxes d))" by simp
    then have "ID r = i" by (auto simp: mem_returning)
    with assms(1) wr Cons show ?thesis by (auto simp: AssignWorker_def)
  qed
qed

lemma assign_loop_ID:
  "assign_loop draw i isFinal dropped cs w = (Inr s, w') \<Longrightarrow> WorkerID s \<noteq> None \<Longrightarrow> ID s = i"
proof (induction draw i isFinal dropped cs w rule: assign_loop.induct)
  case (1 draw i isFinal dropped cs w)
  show ?case
  proof (cases "ChooseLeastUsedWorker (draw (length cs)) cs")
    case (Inl e)
    with 1(2) show ?thesis
      by (cases e; cases dropped)
        (auto simp: assign_loop.simps [of draw i isFinal _ cs w] split: prod.splits)
  next
    case (Inr c)
    obtain x w1 where x: "db_call (AssignWorker i (wID (cand_Worker c))) w = (x, w1)" by fastforce
    show ?thesis
    proof (cases x)
      case (Inl e)
      show ?thesis
      proof (cases "e = ErrWorkerFull")
        case True
        with 1(2) Inr x Inl have "assign_loop draw i isFinal True (drop_worker c cs) w1 = (Inr s, w')"
          by (simp add: assign_loop.simps [of draw i isFinal dropped cs w])
        with 1(1) [OF Inr x [symmetric] Inl True] 1(3) show ?thesis by blast
      next
        case False
        with 1(2) Inr x Inl show ?thesis
          by (cases e) (auto simp: assign_loop.simps [of draw i isFinal dropped cs w] split: prod.splits)
      qed
    next
      case R: (Inr a)
      with 1(2) Inr x have "a = s"
        by (simp add: assign_loop.simps [of draw i isFinal dropped cs w])
      with db_call_ok [OF x [unfolded R]] 1(3) AssignWorker_ID show ?thesis by blast
    qed
  qed
qed

lemma assign_loop_guarantee: "guarantee i w (snd (assign_loop draw i isFinal dropped cs w))"
proof (induction draw i isFinal dropped cs w rule: assign_loop.induct)
  case (1 draw i isFinal dropped cs w)
  show ?case
  proof (cases "ChooseLeastUsedWorker (draw (length cs)) cs")
    case (Inl e)
    then show ?thesis
      by (cases e; cases dropped) (simp_all add: assign_loop.simps [of draw i isFinal _ cs w])
  next
    case (Inr c)
    show ?thesis
      unfolding assign_loop.simps [of draw i isFinal dropped cs w] Inr sum.case
    proof (rule guarantees_bind [where f = "db_call (AssignWorker i (wID (cand_Worker c)))"])
      show "guarantee i w (snd (db_call (AssignWorker i (wID (cand_Worker c))) w))"
        by (rule db_call_guarantees [OF job_ctx_stable]) (rule tx_assign.sound)
      fix x w' assume x: "db_call (AssignWorker i (wID (cand_Worker c))) w = (x, w')"
      show "guarantee i w' (snd (case x of Inl ErrWorkerFull \<Rightarrow> assign_loop draw i isFinal True (drop_worker c cs) w'
          | Inl e \<Rightarrow> (case maybeCleanup i isFinal (EAssign e) w' of (res, w'') \<Rightarrow> (Inl res, w''))
          | Inr assigned \<Rightarrow> (Inr assigned, w')))"
      proof (cases x)
        case (Inl e)
        from 1 [OF Inr x [symmetric] Inl] Inl show ?thesis by (cases e) simp_all
      qed simp
    qed
  qed
qed

lemma stepAssign_guarantee:
  assumes "ID s = i"
  shows "guarantee i w (snd (stepAssign rpc nowAt draw s isFinal w))"
proof (cases "WorkerID s = None")
  case False
  with assms show ?thesis by (simp add: stepAssign_def stepStartSandbox_guarantee)
next
  case True
  have loop: "guarantee i w2 (snd (case assign_loop draw i isFinal False cs w2 of
        (x, w3) \<Rightarrow> case x of Inl res \<Rightarrow> (res, w3)
          | Inr assigned \<Rightarrow> if WorkerID assigned = None then movedUnder i ''assignment'' isFinal w3
                           else stepStartSandbox rpc assigned isFinal w3))" for cs w2
  proof (rule guarantees_bind [where f = "assign_loop draw i isFinal False cs"])
    show "guarantee i w2 (snd (assign_loop draw i isFinal False cs w2))" by (rule assign_loop_guarantee)
    fix x w3 assume x: "assign_loop draw i isFinal False cs w2 = (x, w3)"
    show "guarantee i w3 (snd (case x of Inl res \<Rightarrow> (res, w3)
          | Inr assigned \<Rightarrow> if WorkerID assigned = None then movedUnder i ''assignment'' isFinal w3
                           else stepStartSandbox rpc assigned isFinal w3))"
      using assign_loop_ID [of draw i isFinal False cs w2] x
      by (auto intro: stepStartSandbox_guarantee split: sum.split)
  qed
  have build: "guarantee i w1 (snd (case buildCandidates rpc nowAt ws w1 of (cs, w2) \<Rightarrow>
      case assign_loop draw i isFinal False cs w2 of
        (x, w3) \<Rightarrow> case x of Inl res \<Rightarrow> (res, w3)
          | Inr assigned \<Rightarrow> if WorkerID assigned = None then movedUnder i ''assignment'' isFinal w3
                           else stepStartSandbox rpc assigned isFinal w3))" for ws w1
    by (rule guarantees_bind [where f = "buildCandidates rpc nowAt ws"]) (simp, rule loop)
  show ?thesis
    unfolding stepAssign_def assms
    using True by simp (rule guarantees_db [OF job_ctx_stable tx_wrk_list.sound], simp add: build split: sum.split)
qed

lemma GetByID_ok:
  assumes "db_call (GetByID i) w = (Inr s, w')"
  shows "ID s = i \<and> (\<exists>r. sandbox_row_of i (wdb w') = Some r \<and> s = scanSandbox r)"
proof -
  obtain d where "GetByID i d = (Inr s, wdb w')" using db_call_ok [OF assms] by blast
  then show ?thesis
    by (auto simp: GetByID_def split: option.splits dest: row_by_SomeD)
qed

lemma stepScheduling_guarantee: "guarantee i w (snd (stepScheduling rpc nowAt draw i isFinal w))"
proof -
  have get: "guarantee i w1 (snd (case db_call (GetByID i) w1 of
      (x, w2) \<Rightarrow> case x of Inl e \<Rightarrow> maybeCleanup i isFinal (ERead e) w2
        | Inr s \<Rightarrow> stepAssign rpc nowAt draw s isFinal w2))" for w1
    by (rule guarantees_bind [where f = "db_call (GetByID i)"])
      (auto split: sum.split intro: db_call_guarantees [OF job_ctx_stable] tx_get.sound stepAssign_guarantee dest: GetByID_ok)
  show ?thesis
    unfolding stepScheduling_def
    by (rule guarantees_db [OF job_ctx_stable tx_scheduling.sound]) (auto split: sum.split prod.split simp: get)
qed

lemma create_Work_guarantee: "guarantee i w (snd (create_Work rpc nowAt draw attempt maxAttempts i w))"
  unfolding create_Work_def Let_def
proof (rule guarantees_bind [where f = "db_call (GetByID i)"])
  show "guarantee i w (snd (db_call (GetByID i) w))"
    by (rule db_call_guarantees [OF job_ctx_stable]) (rule tx_get.sound)
  fix x w' assume x: "db_call (GetByID i) w = (x, w')"
  show "guarantee i w' (snd (case x of Inl e \<Rightarrow> (JobError (EGetSandbox e), w')
      | Inr s \<Rightarrow> (case sbx_Status s of
            StatusPending \<Rightarrow> stepScheduling rpc nowAt draw i (maxAttempts \<le> attempt) w'
          | StatusScheduling \<Rightarrow> stepAssign rpc nowAt draw s (maxAttempts \<le> attempt) w'
          | StatusAssigned \<Rightarrow> stepStartSandbox rpc s (maxAttempts \<le> attempt) w'
          | StatusStarting \<Rightarrow> stepAcknowledge i (maxAttempts \<le> attempt) w'
          | StatusOther _ \<Rightarrow> (JobError (EUnexpectedStatus (sbx_Status s)), w')
          | _ \<Rightarrow> (case settled s of Some res \<Rightarrow> (res, w') | None \<Rightarrow> (JobDone, w')))))"
  proof (cases x)
    case (Inr s)
    then have "ID s = i" using GetByID_ok x by blast
    with Inr show ?thesis
      by (cases "sbx_Status s")
        (simp_all add: stepScheduling_guarantee stepAssign_guarantee stepStartSandbox_guarantee
          split: option.split)
  qed simp
qed

subsection \<open>What an attempt's result means\<close>

definition job_post :: "string \<Rightarrow> job_result \<Rightarrow> db \<Rightarrow> bool" where
  "job_post i res d =
     (case res of
        JobDone \<Rightarrow>
          (case sandbox_row_of i d of None \<Rightarrow> False | Some r \<Rightarrow> sbx_Status r = StatusRunning)
      | JobCancelled _ \<Rightarrow>
          (case sandbox_row_of i d of None \<Rightarrow> True | Some r \<Rightarrow> sbx_Status r \<notin> in_flight)
      | JobError _ \<Rightarrow> True)"

definition posts :: "string \<Rightarrow> job_result \<times> 'r world \<Rightarrow> bool" where
  "posts i out \<longleftrightarrow> (wf_db (wdb (snd out)) \<longrightarrow> job_post i (fst out) (wdb (snd out)))"

lemma posts_pair: "job_post i res (wdb w) \<Longrightarrow> posts i (res, w)"
  by (simp add: posts_def)

lemma posts_error [simp]: "posts i (JobError e, w)"
  by (simp add: posts_def job_post_def)

lemma maybeCleanup_posts [simp]: "posts i (maybeCleanup i isFinal e w)"
proof -
  have "job_post i (JobCancelled (EExhausted i e)) (wdb w')"
    if ok: "db_call (maybe_cleanup_tx i) w = (Inr (), w')" for w'
  proof -
    obtain d where "maybe_cleanup_tx i d = (Inr (), wdb w')" using db_call_ok [OF ok] by blast
    then have "wdb w' = insert_jobs [default_cleanup i] (end_row i d)"
      by (simp add: maybe_cleanup_tx_run)
    then show ?thesis
      using end_row_not_in_flight by (auto simp: job_post_def split: option.split)
  qed
  then show ?thesis by (auto simp: maybeCleanup_def intro: posts_pair split: prod.split sum.split)
qed

lemma settled_posts:
  assumes "db_call (GetByID i) w = (Inr s, w')" and "settled s = Some res"
  shows "posts i (res, w')"
  using GetByID_ok [OF assms(1)] assms(2)
  by (auto simp: settled_def job_post_def posts_def split: Status.splits)

lemma movedUnder_posts [simp]: "posts i (movedUnder i st isFinal w)"
  by (auto simp: movedUnder_def dest: settled_posts split: prod.split sum.split option.split)

lemma set_running_posts:
  assumes "db_call (UpdateStatus i StatusRunning [StatusStarting]) w = (Inr (s, n), w')" and "n \<noteq> 0"
  shows "posts i (JobDone, w')"
proof -
  obtain d where d: "UpdateStatus i StatusRunning [StatusStarting] d = (Inr (s, n), wdb w')"
    using db_call_ok [OF assms(1)] by blast
  let ?hit = "\<lambda>r. ID r = i \<and> sbx_Status r \<in> set [StatusStarting]"
  have d': "wdb w' = update_sandboxes ?hit (\<lambda>r. r\<lparr>sbx_Status := StatusRunning\<rparr>) d"
    using UpdateStatus_db [of i StatusRunning "[StatusStarting]" d] d by simp
  have "returning ?hit (\<lambda>r. r\<lparr>sbx_Status := StatusRunning\<rparr>) (sandboxes d) \<noteq> []"
    using d assms(2) by (auto simp: UpdateStatus_def)
  then obtain r where r: "r \<in> set (sandboxes d)" "?hit r"
    by (auto simp: returning_def filter_empty_conv)
  have "job_post i JobDone (wdb w')" if "wf_db (wdb w')"
  proof -
    have "distinct (map ID (sandboxes d))"
      using wf_db_distinct [OF that] by (simp add: d' keys_upd_where)
    then have "sandbox_row_of i d = Some r" using r row_by_of_mem by fastforce
    with r show ?thesis by (simp add: job_post_def d' row_by_upd_where)
  qed
  then show ?thesis by (simp add: posts_def)
qed

lemma stepAcknowledge_posts [simp]: "posts i (stepAcknowledge i isFinal w)"
  by (auto simp: stepAcknowledge_def dest: settled_posts set_running_posts
      split: prod.split sum.split option.split)

lemma stepStartSandbox_posts: "ID s = i \<Longrightarrow> posts i (stepStartSandbox rpc s isFinal w)"
  by (auto simp: stepStartSandbox_def Let_def split: prod.split sum.split option.split)

lemma assign_loop_posts:
  "assign_loop draw i isFinal dropped cs w = (Inl res, w') \<Longrightarrow> posts i (res, w')"
proof (induction draw i isFinal dropped cs w rule: assign_loop.induct)
  case (1 draw i isFinal dropped cs w)
  have clean: "posts i (r, v)" if "maybeCleanup i f e u = (r, v)" for f e u r v
    using maybeCleanup_posts [of i f e u] unfolding that .
  show ?case
  proof (cases "ChooseLeastUsedWorker (draw (length cs)) cs")
    case (Inl e)
    with 1(2) clean show ?thesis
      by (cases e; cases dropped)
        (auto simp: assign_loop.simps [of draw i isFinal _ cs w] split: prod.splits)
  next
    case (Inr c)
    obtain x w1 where x: "db_call (AssignWorker i (wID (cand_Worker c))) w = (x, w1)" by fastforce
    show ?thesis
    proof (cases x)
      case (Inl e)
      show ?thesis
      proof (cases "e = ErrWorkerFull")
        case True
        with 1(2) Inr x Inl have "assign_loop draw i isFinal True (drop_worker c cs) w1 = (Inl res, w')"
          by (simp add: assign_loop.simps [of draw i isFinal dropped cs w])
        with 1(1) [OF Inr x [symmetric] Inl True] show ?thesis by blast
      next
        case False
        with 1(2) Inr x Inl clean show ?thesis
          by (cases e) (auto simp: assign_loop.simps [of draw i isFinal dropped cs w] split: prod.splits)
      qed
    next
      case R: (Inr a)
      with 1(2) Inr x show ?thesis
        by (simp add: assign_loop.simps [of draw i isFinal dropped cs w])
    qed
  qed
qed

lemma stepAssign_posts:
  assumes "ID s = i"
  shows "posts i (stepAssign rpc nowAt draw s isFinal w)"
proof -
  have "posts i (stepStartSandbox rpc a isFinal w')"
    if "assign_loop draw i isFinal False cs v = (Inr a, w')" "WorkerID a \<noteq> None" for a w' cs v
    using assign_loop_ID [OF that] by (rule stepStartSandbox_posts)
  with assms assign_loop_posts [of draw i] show ?thesis
    by (auto simp: stepAssign_def stepStartSandbox_posts split: prod.split sum.split)
qed

lemma stepScheduling_posts: "posts i (stepScheduling rpc nowAt draw i isFinal w)"
  by (auto simp: stepScheduling_def dest: GetByID_ok intro: stepAssign_posts
      split: prod.split sum.split)

lemma create_Work_posts: "posts i (create_Work rpc nowAt draw attempt maxAttempts i w)"
proof -
  obtain x w' where x: "db_call (GetByID i) w = (x, w')" by fastforce
  show ?thesis
  proof (cases x)
    case (Inl e)
    with x show ?thesis by (simp add: create_Work_def)
  next
    case (Inr s)
    with x have "ID s = i" and "\<And>res. settled s = Some res \<Longrightarrow> posts i (res, w')"
      using GetByID_ok settled_posts by blast+
    with x Inr show ?thesis
      by (cases "sbx_Status s")
        (auto simp: create_Work_def stepScheduling_posts stepAssign_posts stepStartSandbox_posts settled_def)
  qed
qed

subsection \<open>A quiet run\<close>

lemma choose_usable:
  assumes "\<forall>c \<in> set cs. \<forall>i. Info c = Some i \<longrightarrow> int32_info i" and "\<exists>c \<in> set cs. usable c"
  shows "\<exists>c. ChooseLeastUsedWorker u cs = Inr c \<and> c \<in> set cs \<and> usable c"
  using choose_outcome [OF assms(1), of u] assms(2)
  by (auto simp: usable_def split: sum.splits sched_error.splits option.splits)


text \<open>The row of the sandbox after a status update that hits it.\<close>

lemma quiet_update:
  assumes "hops w = []" and "wf_db (wdb w)" and "sandbox_row_of i (wdb w) = Some r"
    and "sbx_Status r \<in> set from"
  shows "db_call (UpdateStatus i st from) w =
      (Inr (scanSandbox (r\<lparr>sbx_Status := st\<rparr>), 1), w\<lparr>wdb := snd (UpdateStatus i st from (wdb w))\<rparr>)"
    and "sandbox_row_of i (snd (UpdateStatus i st from (wdb w))) = Some (r\<lparr>sbx_Status := st\<rparr>)"
proof -
  have "from \<noteq> []" using assms(4) by auto
  then show "db_call (UpdateStatus i st from) w =
      (Inr (scanSandbox (r\<lparr>sbx_Status := st\<rparr>), 1), w\<lparr>wdb := snd (UpdateStatus i st from (wdb w))\<rparr>)"
    using assms by (simp add: db_call_quiet UpdateStatus_outcome)
  show "sandbox_row_of i (snd (UpdateStatus i st from (wdb w))) = Some (r\<lparr>sbx_Status := st\<rparr>)"
    using assms(3,4) row_by_SomeD [OF assms(3)] by (simp add: UpdateStatus_row)
qed

lemma quiet_get:
  assumes "hops w = []" and "sandbox_row_of i (wdb w) = Some r"
  shows "db_call (GetByID i) w = (Inr (scanSandbox r), w)"
  using assms by (simp add: db_call_quiet GetByID_def)

definition brought_up :: "string \<Rightarrow> string \<Rightarrow> job_result \<times> 'r world \<Rightarrow> bool" where
  "brought_up i wid out \<longleftrightarrow> fst out = JobDone
     \<and> (case sandbox_row_of i (wdb (snd out)) of
          None \<Rightarrow> False | Some r \<Rightarrow> sbx_Status r = StatusRunning \<and> WorkerID r = Some wid)"

lemma quiet_acknowledge:
  assumes "hops w = []" and "wf_db (wdb w)" and "sandbox_row_of i (wdb w) = Some r"
    and "sbx_Status r = StatusStarting" and "WorkerID r = Some wid"
  shows "brought_up i wid (stepAcknowledge i isFinal w)"
  using assms quiet_update [of w i r "[StatusStarting]" StatusRunning]
  by (simp add: stepAcknowledge_def quiet_get settled_def brought_up_def)

lemma quiet_start:
  assumes "hops w = []" and "wf_db (wdb w)" and "sandbox_row_of i (wdb w) = Some r"
    and "sbx_Status r = StatusAssigned" and "WorkerID r = Some wid"
    and "worker_row_of wid (wdb w) = Some wr"
    and "dials rpc (normalizeWorkerAddress (wr_address wr) (to_int32 (wPort (scanWorker wr))))"
    and "\<And>rem. fst (call_CreateSandbox rpc
           (normalizeWorkerAddress (wr_address wr) (to_int32 (wPort (scanWorker wr))))
           (create_request (scanSandbox r)) rem) = Inr ()"
  shows "brought_up i wid (stepStartSandbox rpc (scanSandbox r) isFinal w)"
proof -
  have i: "ID r = i" using assms(3) by (auto dest: row_by_SomeD)
  have get: "db_call (wrk_Get wid) w = (Inr (scanWorker wr), w)"
    using assms(1,6) by (simp add: db_call_quiet wrk_Get_def)
  let ?f = "call_CreateSandbox rpc
      (normalizeWorkerAddress (wr_address wr) (to_int32 (wPort (scanWorker wr)))) (create_request (scanSandbox r))"
  obtain v where call: "remote_call ?f w = (Inr (), v)"
    using assms(8) [of "remote w"] by (cases "?f (remote w)") (simp add: remote_call_def)
  have v: "wdb v = wdb w" "hops v = []"
    using assms(1) remote_call_db [of ?f w] call by simp_all
  let ?u = "snd (UpdateStatus i StatusStarting [StatusAssigned] (wdb w))"
  have upd: "db_call (UpdateStatus i StatusStarting [StatusAssigned]) v =
      (Inr (scanSandbox (r\<lparr>sbx_Status := StatusStarting\<rparr>), 1), v\<lparr>wdb := ?u\<rparr>)"
    and row: "sandbox_row_of i ?u = Some (r\<lparr>sbx_Status := StatusStarting\<rparr>)"
    using v assms(2-4) quiet_update [of v i r "[StatusAssigned]" StatusStarting] by simp_all
  have "brought_up i wid (stepAcknowledge i isFinal (v\<lparr>wdb := ?u\<rparr>))"
    using v assms(5) row set_starting.keeps_wf [OF assms(2)] by (intro quiet_acknowledge [where r = "r\<lparr>sbx_Status := StatusStarting\<rparr>"]) simp_all
  moreover have "Address (scanWorker wr) = wr_address wr" by (simp add: scanWorker_def)
  ultimately show ?thesis
    using assms(5,7) get call upd i by (simp add: stepStartSandbox_def Let_def)
qed

lemma buildCandidates_mem:
  "c \<in> set (fst (buildCandidates rpc nowAt ws w)) \<Longrightarrow> cand_Worker c \<in> set ws \<and> Info c \<noteq> None"
  by (induction rpc nowAt ws w arbitrary: c rule: buildCandidates.induct)
    (auto simp: Let_def split: if_splits prod.splits sum.splits)

text \<open>A worker that can take the sandbox: a free slot, a client, and a \<^verbatim>\<open>CreateSandbox\<close> that succeeds.\<close>

definition can_take :: "'r rpc \<Rightarrow> CreateSandboxRequest \<Rightarrow> db \<Rightarrow> Worker \<Rightarrow> bool" where
  "can_take rpc req d x \<longleftrightarrow>
     int (occupancy (wID x) d) < Capacity x
     \<and> dials rpc (normalizeWorkerAddress (Address x) (to_int32 (wPort x)))
     \<and> (\<forall>rem. fst (call_CreateSandbox rpc (normalizeWorkerAddress (Address x) (to_int32 (wPort x))) req rem)
          = Inr ())"

lemma quiet_assign:
  assumes quiet: "hops w = []" and wf: "wf_db (wdb w)" and row: "sandbox_row_of i (wdb w) = Some r"
    and st: "sbx_Status r = StatusScheduling"
    and ws: "ws = map scanWorker (sort_key wr_id (workers (wdb w)))"
    and cs: "buildCandidates rpc nowAt ws w = (cs, v)"
    and int32: "\<forall>c \<in> set cs. \<forall>i. Info c = Some i \<longrightarrow> int32_info i"
    and some: "\<exists>c \<in> set cs. usable c"
    and take: "\<forall>c \<in> set cs. usable c \<longrightarrow>
        can_take rpc (create_request (scanSandbox r)) (wdb w) (cand_Worker c)"
  shows "\<exists>wid. brought_up i wid (stepAssign rpc nowAt draw (scanSandbox r) isFinal w)"
proof -
  have i: "ID r = i" and none: "WorkerID r = None"
    using row wf_db_row [OF wf] st by (auto dest!: row_by_SomeD simp: row_ok_def unassigned_def)
  have v: "wdb v = wdb w" "hops v = []"
    using quiet cs buildCandidates_db [of rpc nowAt ws w] by simp_all
  obtain c where c: "ChooseLeastUsedWorker (draw (length cs)) cs = Inr c" "c \<in> set cs" "usable c"
    using choose_usable [OF int32 some] by blast
  then have "cand_Worker c \<in> set ws" using buildCandidates_mem [of c rpc nowAt ws w] cs by simp
  then obtain wr where wr: "wr \<in> set (workers (wdb w))" "cand_Worker c = scanWorker wr"
    by (auto simp: ws)
  then have wrow: "worker_row_of (wr_id wr) (wdb w) = Some wr"
    using row_by_of_mem [OF wf_db_distinct_workers [OF wf]] by blast
  have wsel: "wID (scanWorker wr) = wr_id wr" "Capacity (scanWorker wr) = wr_capacity wr"
      "Address (scanWorker wr) = wr_address wr"
    by (simp_all add: scanWorker_def)
  have t: "can_take rpc (create_request (scanSandbox r)) (wdb w) (scanWorker wr)"
    using take c(2,3) wr(2) by auto
  let ?a = "assign_to (wr_id wr) (clock (wdb w)) r"
  let ?d = "update_sandboxes (\<lambda>x. ID x = i) (assign_to (wr_id wr) (clock (wdb w))) (wdb w)"
  have run: "AssignWorker i (wr_id wr) (wdb w) = (Inr (scanSandbox ?a), ?d)"
    using row st wrow t by (simp add: AssignWorker_outcome [OF wf] can_take_def wsel)
  have loop: "assign_loop draw i isFinal False cs v = (Inr (scanSandbox ?a), v\<lparr>wdb := ?d\<rparr>)"
    using c(1) wr(2) run v by (simp add: assign_loop.simps [of draw i] wsel db_call_quiet)
  have "brought_up i (wr_id wr) (stepStartSandbox rpc (scanSandbox ?a) isFinal (v\<lparr>wdb := ?d\<rparr>))"
  proof (rule quiet_start)
    show "wf_db (wdb (v\<lparr>wdb := ?d\<rparr>))"
      using assign_worker.keeps_wf [OF wf, of i "wr_id wr"] run by simp
    show "sandbox_row_of i (wdb (v\<lparr>wdb := ?d\<rparr>)) = Some ?a"
      using row i by (simp add: row_by_upd_where)
    show "worker_row_of (wr_id wr) (wdb (v\<lparr>wdb := ?d\<rparr>)) = Some wr" using wrow by simp
    have "create_request (scanSandbox ?a) = create_request (scanSandbox r)"
      by (simp add: create_request_def scanSandbox_def assign_to_def)
    with t show "fst (call_CreateSandbox rpc
           (normalizeWorkerAddress (wr_address wr) (to_int32 (wPort (scanWorker wr))))
           (create_request (scanSandbox ?a)) rem) = Inr ()" for rem
      by (simp add: can_take_def wsel)
  qed (use v t in \<open>simp_all add: can_take_def wsel\<close>)
  moreover have "db_call wrk_List w = (Inr ws, w)"
    using quiet by (simp add: db_call_quiet wrk_List_def ws)
  ultimately show ?thesis
    using none loop cs i by (auto simp: stepAssign_def)
qed

subsection \<open>Properties\<close>

text \<open>C2: what the end of a create job says about the sandbox, whatever the other processes do
  in between and whichever round trips fail.  A completed attempt (the only one the HTTP
  handler answers 201 to) leaves the sandbox running; a cancelled one leaves it out of every
  in-flight status, so nobody waits for it.\<close>

theorem create_Work_result:
  assumes "rely w" and "job_ctx i (wdb w)"
    and "create_Work rpc nowAt draw attempt maxAttempts i w = (res, w')"
  shows "case res of
      JobDone \<Rightarrow> \<exists>r. sandbox_row_of i (wdb w') = Some r \<and> sbx_Status r = StatusRunning
    | JobCancelled _ \<Rightarrow> \<exists>r. sandbox_row_of i (wdb w') = Some r
        \<and> sbx_Status r \<notin> {StatusPending, StatusScheduling, StatusAssigned, StatusStarting, StatusRunning}
    | JobError _ \<Rightarrow> True"
proof -
  have "job_ctx i (wdb w')"
    using create_Work_guarantee [of i w rpc nowAt draw attempt maxAttempts] assms
    by (simp add: guarantees_def)
  moreover have "posts i (res, w')"
    using create_Work_posts [of i rpc nowAt draw attempt maxAttempts w] assms(3) by simp
  ultimately show ?thesis
    by (auto simp: posts_def job_post_def job_ctx_def split: job_result.splits)
qed

definition sample_rpc :: "nat rpc" where
  "sample_rpc = \<lparr>dials = (\<lambda>a. a \<noteq> []),
     call_CreateSandbox = (\<lambda>a req n. (Inr (), Suc n)),
     call_RemoveSandbox = (\<lambda>a i n. (Inr (), n)),
     call_GetWorkerInfo = (\<lambda>a n. (Inr \<lparr>wi_Id = ''w1'', wi_Address = a, wi_Status = ''active'',
        wi_CpuBudget = 8, wi_MemBudget = 4096, wi_Capacity = 4, wi_CpuUsage = 20,
        wi_MemUsage = 1024, wi_LastHeartbeat = 0\<rparr>, n)),
     call_ListRunningSandboxes = (\<lambda>a n. (Inr [], n))\<rparr>"

text \<open>Before its first round trip a worker went silent; the second one is lost.\<close>

definition sample_world :: "nat world" where
  "sample_world = \<lparr>wdb = sample_db,
     hops = [\<lparr>before = (\<lambda>d. snd (MarkStaleInactive (5 * second) d)), outcome = TripOk\<rparr>,
             \<lparr>before = id, outcome = TripLost\<rparr>],
     remote = 0\<rparr>"

lemma sample_books: "books_ok sample_db"
  by (simp add: books_ok_def covered_def grounded_def tidy_def sample_simps)

lemma sample_world_ok: "rely sample_world \<and> job_ctx ''a'' (wdb sample_world)"
  using tx_mark_stale.sound [of _ "5 * second"] sample_wf sample_books
  by (simp add: rely_def sample_world_def job_ctx_def) (simp add: sample_simps)

theorem create_Work_result_witness:
  "case create_Work sample_rpc (\<lambda>_. 55 * second) (\<lambda>_. 1 / 2) 5 5 ''a'' sample_world of (res, w') \<Rightarrow>
     (case res of
        JobDone \<Rightarrow> \<exists>r. sandbox_row_of ''a'' (wdb w') = Some r \<and> sbx_Status r = StatusRunning
      | JobCancelled _ \<Rightarrow> \<exists>r. sandbox_row_of ''a'' (wdb w') = Some r
          \<and> sbx_Status r \<notin> {StatusPending, StatusScheduling, StatusAssigned, StatusStarting, StatusRunning}
      | JobError _ \<Rightarrow> True)"
proof -
  obtain res w' where run: "create_Work sample_rpc (\<lambda>_. 55 * second) (\<lambda>_. 1 / 2) 5 5 ''a'' sample_world
      = (res, w')" by fastforce
  with create_Work_result [OF conjunct1 [OF sample_world_ok] conjunct2 [OF sample_world_ok] run]
  show ?thesis by (simp only: prod.case)
qed

text \<open>C11: an attempt of the create job only makes legal transitions and keeps the books in order,
  under the same interference and faults: no sandbox goes back, changes worker or leaves a
  terminal status, and a sandbox it claims has its cleanup job.\<close>

theorem create_Work_sound:
  assumes "rely w" and "wf_db (wdb w)" and "books_ok (wdb w)"
    and "sandbox_row_of i (wdb w) \<noteq> None"
    and "create_Work rpc nowAt draw attempt maxAttempts i w = (res, w')"
  shows "legal_db (wdb w) (wdb w') \<and> wf_db (wdb w') \<and> books_ok (wdb w')"
  using create_Work_guarantee [of i w rpc nowAt draw attempt maxAttempts] assms
  by (simp add: guarantees_def job_ctx_def)

theorem create_Work_sound_witness:
  "books_ok (wdb (snd (create_Work sample_rpc (\<lambda>_. 55 * second) (\<lambda>_. 1 / 2) 5 5 ''a'' sample_world)))"
proof -
  obtain res w' where run: "create_Work sample_rpc (\<lambda>_. 55 * second) (\<lambda>_. 1 / 2) 5 5 ''a'' sample_world
      = (res, w')" by fastforce
  have "rely sample_world" "wf_db (wdb sample_world)" "books_ok (wdb sample_world)"
    "sandbox_row_of ''a'' (wdb sample_world) \<noteq> None"
    using sample_world_ok by (simp_all add: job_ctx_def)
  from create_Work_sound [OF this run] run show ?thesis by simp
qed


definition sample_pending_db :: db where
  "sample_pending_db = sample_db\<lparr>sandboxes := [sample_row ''p'' StatusPending None None],
     workers := [sample_worker ''w1'' 4]\<rparr>"

lemma sample_pending_wf: "wf_db sample_pending_db"
  by (simp add: sample_pending_db_def sample_simps wf_db_def row_ok_def worker_row_ok_def
      unassigned_def assigned_or_up_def)


end
