(* ===== verification/Cleanup_Jobs.thy ===== *)
theory Cleanup_Jobs
  imports Create_Job
begin

text \<open>
  The other jobs of the orchestrator: \<^verbatim>\<open>remove_sandbox.go\<close>, \<^verbatim>\<open>cleanup_sandbox_worker.go\<close>,
  \<^verbatim>\<open>remove_orphan_worker.go\<close>, \<^verbatim>\<open>reap_workers.go\<close>, \<^verbatim>\<open>reap_sandbox.go\<close> and \<^verbatim>\<open>retry_policy.go\<close>.
  A timeout of a remote call is one of the codes the call may return.
\<close>

subsection \<open>Definitions\<close>

definition removeSandboxOnWorker ::
    "'r rpc \<Rightarrow> string \<Rightarrow> string \<Rightarrow> 'r world \<Rightarrow> (job_error + unit) \<times> 'r world" where
  "removeSandboxOnWorker rpc wid i w =
     (case db_call (wrk_Get wid) w of
        (Inl e, w1) \<Rightarrow> (Inl (EGetWorker wid e), w1)
      | (Inr worker, w1) \<Rightarrow>
          (let address = normalizeWorkerAddress (Address worker) (to_int32 (wPort worker))
           in if \<not> dials rpc address then (Inl (EConnect wid), w1)
              else case remote_call (call_RemoveSandbox rpc address i) w1 of
                     (Inr _, w2) \<Rightarrow> (Inr (), w2)
                   | (Inl code, w2) \<Rightarrow>
                       if code = NotFound then (Inr (), w2) else (Inl (ERemoteRemove code), w2)))"

text \<open>The terminal transition, from whatever status is not terminal.\<close>

definition cleanup_finish :: "string \<Rightarrow> Status \<Rightarrow> 'r world \<Rightarrow> job_result \<times> 'r world" where
  "cleanup_finish i target w =
     (case db_call (UpdateStatus i target not_terminal_list) w of
        (Inl e, w') \<Rightarrow> (JobError (ESet target e), w')
      | (Inr _, w') \<Rightarrow> (JobDone, w'))"

definition cleanup_Work ::
    "'r rpc \<Rightarrow> int \<Rightarrow> int \<Rightarrow> string \<Rightarrow> string \<Rightarrow> 'r world \<Rightarrow> job_result \<times> 'r world" where
  "cleanup_Work rpc attempt maxAttempts i targetStatus w =
     (let isFinalAttempt = (attempt \<ge> maxAttempts)
      in case db_call (GetByID i) w of
           (Inl e, w1) \<Rightarrow> (JobError (EGetSandbox e), w1)
         | (Inr s, w1) \<Rightarrow>
             if sbx_Status s \<in> {StatusFailed, StatusStopped, StatusCleanedUp} then (JobDone, w1)
             else
               (let target = (if targetStatus \<noteq> [] then status_of_text targetStatus else StatusFailed)
                in case WorkerID s of
                     None \<Rightarrow> cleanup_finish i target w1
                   | Some wid \<Rightarrow>
                       (case removeSandboxOnWorker rpc wid i w1 of
                          (Inl e, w2) \<Rightarrow>
                            if \<not> isFinalAttempt then (JobError e, w2)
                            else (case db_call (ClearWorker i) w2 of
                                    (Inl e, w3) \<Rightarrow> (JobError (EClearWorker e), w3)
                                  | (Inr _, w3) \<Rightarrow> cleanup_finish i StatusFailed w3)
                        | (Inr _, w2) \<Rightarrow>
                            (case db_call (ClearWorker i) w2 of
                               (Inl e, w3) \<Rightarrow> (JobError (EClearWorker e), w3)
                             | (Inr _, w3) \<Rightarrow> cleanup_finish i target w3))))"

definition orphan_Work ::
    "'r rpc \<Rightarrow> string \<Rightarrow> string \<Rightarrow> 'r world \<Rightarrow> job_result \<times> 'r world" where
  "orphan_Work rpc wid i w =
     (case removeSandboxOnWorker rpc wid i w of
        (Inl e, w') \<Rightarrow> (JobError e, w')
      | (Inr _, w') \<Rightarrow> (JobDone, w'))"

definition reap_workers_Work :: "duration \<Rightarrow> 'r world \<Rightarrow> job_result \<times> 'r world" where
  "reap_workers_Work timeout w =
     (case db_call (MarkStaleInactive timeout) w of
        (Inl e, w') \<Rightarrow> (JobError (EReap e), w')
      | (Inr _, w') \<Rightarrow> (JobDone, w'))"

text \<open>The transaction of the sandbox reaper: three claims, then the jobs; an error rolls back.\<close>

definition reap_jobs :: "string list \<Rightarrow> string list \<Rightarrow> string list \<Rightarrow> job_insert list" where
  "reap_jobs expired dead stalled =
     map (\<lambda>i. cleanupParams i StatusStopped) expired
     @ map (\<lambda>i. cleanupParams i StatusFailed) dead
     @ map (\<lambda>i. cleanupParams i StatusFailed) stalled"

definition reap_sandbox_tx ::
    "duration \<Rightarrow> duration \<Rightarrow> duration \<Rightarrow> (string \<Rightarrow> bool) \<Rightarrow>
       (string list \<times> string list \<times> string list) dbop" where
  "reap_sandbox_tx livenessTimeout workerLostTimeout createTimeout locked d =
     (case ClaimTTLExpired locked d of
        (Inl e, _) \<Rightarrow> (Inl e, d)
      | (Inr expired, d1) \<Rightarrow>
          (case ClaimLivenessExpired livenessTimeout workerLostTimeout locked d1 of
             (Inl e, _) \<Rightarrow> (Inl e, d)
           | (Inr dead, d2) \<Rightarrow>
               (case (if createTimeout > 0 then ClaimStalledCreation createTimeout locked d2
                      else (Inr [], d2)) of
                  (Inl e, _) \<Rightarrow> (Inl e, d)
                | (Inr stalled, d3) \<Rightarrow>
                    if length expired + length dead + length stalled = 0 then (Inr ([], [], []), d)
                    else (Inr (expired, dead, stalled),
                          insert_jobs (reap_jobs expired dead stalled) d3))))"

definition reap_sandbox_Work ::
    "duration \<Rightarrow> duration \<Rightarrow> duration \<Rightarrow> (string \<Rightarrow> bool) \<Rightarrow> 'r world \<Rightarrow> job_result \<times> 'r world" where
  "reap_sandbox_Work livenessTimeout workerLostTimeout createTimeout locked w =
     (case db_call (reap_sandbox_tx livenessTimeout workerLostTimeout createTimeout locked) w of
        (Inl e, w') \<Rightarrow> (JobError (EReap e), w')
      | (Inr _, w') \<Rightarrow> (JobDone, w'))"

text \<open>The retry delay: \<^verbatim>\<open>1 << attempt\<close> on a 64-bit \<^verbatim>\<open>int\<close>, times a second, both wrapping.\<close>

definition NextRetry_backoff :: "nat \<Rightarrow> duration" where
  "NextRetry_backoff errors =
     (let attempt = errors + 1;
          backoff = wrap64 (wrap64 (2 ^ attempt) * second)
      in if backoff > 30 * second then 30 * second else backoff)"

definition NextRetry :: "time \<Rightarrow> nat \<Rightarrow> time" where
  "NextRetry now errors = now + NextRetry_backoff errors"

subsection \<open>The reaper's transaction\<close>

text \<open>A claim is an update of rows in flight; each of the three claims has this shape.\<close>

lemma claim_run:
  "claim_to_cleanup locked P d =
     (Inr (returning (\<lambda>r. P r \<and> \<not> locked (ID r)) ID (sandboxes d)),
      update_sandboxes (\<lambda>r. P r \<and> \<not> locked (ID r)) to_cleanup d)"
  by (simp add: claim_to_cleanup_def Let_def)

lemma cleanup_jobs_params:
  "t \<in> {StatusStopped, StatusFailed} \<Longrightarrow> cleanup_jobs_for ids (map (\<lambda>i. cleanupParams i t) ids)"
  by (auto simp: cleanup_jobs_for_def)

lemma claim_sound:
  assumes "\<And>r. P r \<Longrightarrow> sbx_Status r \<in> in_flight" and "t \<in> {StatusStopped, StatusFailed}"
    and "claim_to_cleanup locked P d = (Inr ids, d')"
  shows "sound_step d (insert_jobs (map (\<lambda>i. cleanupParams i t) ids) d')"
proof -
  let ?P = "\<lambda>r. P r \<and> \<not> locked (ID r)"
  have ids: "ids = returning ?P ID (sandboxes d)" and d': "d' = update_sandboxes ?P to_cleanup d"
    using assms(3) by (simp_all add: claim_run)
  show ?thesis
    unfolding d'
    by (rule sound_claim) (use assms(1,2) cleanup_jobs_params ids in auto)
qed

text \<open>Inserting the jobs of one claim does not change what the next claim sees.\<close>

lemma claim_after_jobs:
  "claim_to_cleanup locked P d = (Inr ids, d') \<Longrightarrow>
   claim_to_cleanup locked P (insert_jobs js d) = (Inr ids, insert_jobs js d')"
  by (auto simp: claim_run update_sandboxes_def insert_jobs_def)

lemma insert_jobs_append: "insert_jobs js (insert_jobs ks d) = insert_jobs (ks @ js) d"
  by (simp add: insert_jobs_def)

lemma liveness_expired_jobs [simp]:
  "liveness_expired lt wl (insert_jobs js d) = liveness_expired lt wl d"
  by (simp add: liveness_expired_def fun_eq_iff)

lemma reap_sandbox_tx_cases:
  obtains (failed) e where "reap_sandbox_tx lt wl ct locked d = (Inl e, d)"
  | (idle) "reap_sandbox_tx lt wl ct locked d = (Inr ([], [], []), d)"
  | (claimed) expired d1 dead d2 stalled d3 where
      "ClaimTTLExpired locked d = (Inr expired, d1)"
      "ClaimLivenessExpired lt wl locked d1 = (Inr dead, d2)"
      "(if ct > 0 then ClaimStalledCreation ct locked d2 else (Inr [], d2)) = (Inr stalled, d3)"
      "reap_sandbox_tx lt wl ct locked d =
         (Inr (expired, dead, stalled), insert_jobs (reap_jobs expired dead stalled) d3)"
proof -
  obtain x d1 where t: "ClaimTTLExpired locked d = (x, d1)" by fastforce
  obtain y d2 where l: "ClaimLivenessExpired lt wl locked d1 = (y, d2)" by fastforce
  obtain z d3 where s: "(if ct > 0 then ClaimStalledCreation ct locked d2 else (Inr [], d2)) = (z, d3)"
    by fastforce
  show thesis
  proof (cases "is_err x \<or> is_err y \<or> is_err z")
    case True
    with t l s have "\<exists>e. reap_sandbox_tx lt wl ct locked d = (Inl e, d)"
      by (cases x; cases y; cases z) (simp_all add: reap_sandbox_tx_def)
    then show thesis using failed by blast
  next
    case False
    then obtain a b c where abc: "x = Inr a" "y = Inr b" "z = Inr c" by (auto simp: not_is_err_iff)
    show thesis
    proof (cases "length a + length b + length c = 0")
      case True
      with t l s abc show thesis by (intro idle) (simp add: reap_sandbox_tx_def)
    next
      case False
      with t l s abc show thesis
        by (intro claimed [of a d1 b d2 c d3]) (auto simp: reap_sandbox_tx_def)
    qed
  qed
qed

text \<open>The three claims, each with its predicate; what a row is when the next claim looks at it.\<close>

lemma ttl_in_flight: "ttl_expired t r \<Longrightarrow> sbx_Status r \<in> in_flight"
  and liveness_in_flight: "liveness_expired lt wl d r \<Longrightarrow> sbx_Status r \<in> in_flight"
  and stalled_in_flight: "creation_stalled ct t r \<Longrightarrow> sbx_Status r \<in> in_flight"
  by (auto simp: ttl_expired_def liveness_expired_def creation_stalled_def)

lemma ClaimLiveness_claim:
  "ClaimLivenessExpired lt wl locked d = (Inr ids, d') \<Longrightarrow>
   claim_to_cleanup locked (liveness_expired lt wl d) d = (Inr ids, d')"
  by (simp add: ClaimLivenessExpired_def split: if_splits)

lemma ClaimStalled_claim:
  "ClaimStalledCreation ct locked d = (Inr ids, d') \<Longrightarrow>
   claim_to_cleanup locked (creation_stalled ct (clock d)) d = (Inr ids, d')"
  by (simp add: ClaimStalledCreation_def split: if_splits)

lemma reap_sandbox_tx_sound: "sound_step d (snd (reap_sandbox_tx lt wl ct locked d))"
proof (cases rule: reap_sandbox_tx_cases [of lt wl ct locked d])
  case (claimed expired d1 dead d2 stalled d3)
  let ?j1 = "map (\<lambda>i. cleanupParams i StatusStopped) expired"
  let ?j2 = "map (\<lambda>i. cleanupParams i StatusFailed) dead"
  let ?j3 = "map (\<lambda>i. cleanupParams i StatusFailed) stalled"
  have "sound_step d (insert_jobs ?j1 d1)"
    by (rule claim_sound [where P = "ttl_expired (clock d)"])
      (use claimed(1) ttl_in_flight in \<open>auto simp: ClaimTTLExpired_def\<close>)
  also have "sound_step \<dots> (insert_jobs ?j2 (insert_jobs ?j1 d2))"
    by (rule claim_sound [where P = "liveness_expired lt wl d1"])
      (use claim_after_jobs [OF ClaimLiveness_claim [OF claimed(2)]] liveness_in_flight in auto)
  also have "sound_step \<dots> (insert_jobs ?j3 (insert_jobs ?j2 (insert_jobs ?j1 d3)))"
  proof (cases "ct > 0")
    case True
    with claimed(3) have "claim_to_cleanup locked (creation_stalled ct (clock d2)) d2 = (Inr stalled, d3)"
      by (simp add: ClaimStalled_claim)
    then show ?thesis
      by (intro claim_sound [where P = "creation_stalled ct (clock d2)"] claim_after_jobs)
        (use stalled_in_flight in auto)
  next
    case False
    with claimed(3) show ?thesis by simp
  qed
  finally show ?thesis
    using claimed(4) by (simp add: reap_jobs_def insert_jobs_append)
qed simp_all

interpretation tx_reap: transaction "reap_sandbox_tx lt wl ct locked" for lt wl ct locked
  by unfold_locales (rule reap_sandbox_tx_sound)

lemma claim_row:
  assumes "distinct (map ID (sandboxes d))" and "claim_to_cleanup locked P d = (Inr ids, d')"
  shows "sandbox_row_of i d' = map_option (\<lambda>r. if i \<in> set ids then to_cleanup r else r) (sandbox_row_of i d)"
proof -
  let ?P = "\<lambda>r. P r \<and> \<not> locked (ID r)"
  have ids: "ids = returning ?P ID (sandboxes d)" and d': "d' = update_sandboxes ?P to_cleanup d"
    using assms(2) by (simp_all add: claim_run)
  show ?thesis
  proof (cases "sandbox_row_of i d")
    case None
    then show ?thesis by (simp add: d' row_by_upd_where to_cleanup_def)
  next
    case (Some r)
    then have "i \<in> set ids \<longleftrightarrow> ?P r"
      using row_by_unique [OF assms(1) Some] row_by_SomeD [OF Some] by (auto simp: ids mem_returning)
    with Some show ?thesis by (simp add: d' row_by_upd_where to_cleanup_def)
  qed
qed

lemma claim_ids:
  assumes "distinct (map ID (sandboxes d))" and "claim_to_cleanup locked P d = (Inr ids, d')"
    and "\<And>r. P r \<Longrightarrow> sbx_Status r \<in> in_flight"
  shows "distinct ids \<and> (\<forall>i \<in> set ids. \<exists>r. sandbox_row_of i d = Some r \<and> sbx_Status r \<in> in_flight)
    \<and> map ID (sandboxes d') = map ID (sandboxes d)"
proof -
  let ?P = "\<lambda>r. P r \<and> \<not> locked (ID r)"
  have ids: "ids = returning ?P ID (sandboxes d)" and d': "d' = update_sandboxes ?P to_cleanup d"
    using assms(2) by (simp_all add: claim_run)
  have "\<exists>r. sandbox_row_of i d = Some r \<and> sbx_Status r \<in> in_flight" if "i \<in> set ids" for i
  proof -
    from that obtain r where "r \<in> set (sandboxes d)" "?P r" "i = ID r" by (auto simp: ids mem_returning)
    then show ?thesis using row_by_of_mem [OF assms(1)] assms(3) by blast
  qed
  then show ?thesis
    using assms(1) by (auto simp: ids d' distinct_returning keys_upd_where to_cleanup_def)
qed

subsection \<open>The cleanup job\<close>

text \<open>What the cleanup job relies on: its sandbox is over; and, for its last step, that nothing
  links it to a worker any more.\<close>

definition over_ctx :: "string \<Rightarrow> db \<Rightarrow> bool" where
  "over_ctx i d \<longleftrightarrow> wf_db d \<and> books_ok d
     \<and> (case sandbox_row_of i d of None \<Rightarrow> False | Some r \<Rightarrow> ended (sbx_Status r))"

definition free_ctx :: "string \<Rightarrow> db \<Rightarrow> bool" where
  "free_ctx i d \<longleftrightarrow> over_ctx i d
     \<and> (case sandbox_row_of i d of None \<Rightarrow> False | Some r \<Rightarrow> WorkerID r = None)"

lemma over_ctx_stable [simp]: "stable (over_ctx i)"
  unfolding stable_def
proof (intro allI impI)
  fix d d' assume o: "over_ctx i d" and s: "sound_step d d'"
  then obtain r where r: "sandbox_row_of i d = Some r" "ended (sbx_Status r)"
    by (auto simp: over_ctx_def split: option.splits)
  from o s have l: "legal_db d d'" "wf_db d'" "books_ok d'"
    by (simp_all add: over_ctx_def sound_step_def)
  obtain r' where "sandbox_row_of i d' = Some r'" "row_step r r'"
    by (rule legal_db_rowD [OF l(1) r(1)])
  with r(2) l show "over_ctx i d' \<and> legal_db d d'"
    by (simp add: over_ctx_def row_step_ended)
qed

lemma row_step_free:
  "row_step r r' \<Longrightarrow> ended (sbx_Status r) \<Longrightarrow> WorkerID r = None \<Longrightarrow> WorkerID r' = None"
  using ended_not_unassigned by (auto simp: row_step_def worker_link_ok_def)

lemma free_ctx_stable [simp]: "stable (free_ctx i)"
  unfolding stable_def
proof (intro allI impI)
  fix d d' assume f: "free_ctx i d" and s: "sound_step d d'"
  then obtain r where r: "sandbox_row_of i d = Some r" "ended (sbx_Status r)" "WorkerID r = None"
    by (auto simp: over_ctx_def free_ctx_def split: option.splits)
  have l: "over_ctx i d'" "legal_db d d'"
    using f s stableD [OF over_ctx_stable] by (auto simp: free_ctx_def)
  obtain r' where "sandbox_row_of i d' = Some r'" "row_step r r'"
    by (rule legal_db_rowD [OF l(2) r(1)])
  with r l show "free_ctx i d' \<and> legal_db d d'"
    by (simp add: free_ctx_def row_step_free)
qed

lemma finish_sound:
  assumes "free_ctx i d" and "t \<in> {StatusStopped, StatusFailed}"
  shows "sound_step d (snd (UpdateStatus i t not_terminal_list d))"
proof -
  have safe: "safe_step d (snd (UpdateStatus i t not_terminal_list d))"
    by (rule safe_of_contract [OF set_terminal_contract [OF assms(2)]])
  obtain r where r: "sandbox_row_of i d = Some r" "WorkerID r = None" and wf: "wf_db d"
    using assms(1) by (auto simp: free_ctx_def over_ctx_def split: option.splits)
  have "sound_step d (insert_jobs [] (snd (UpdateStatus i t not_terminal_list d)))"
    unfolding UpdateStatus_db
  proof (rule sound_update)
    show "safe_step d (update_sandboxes (\<lambda>r. ID r = i \<and> sbx_Status r \<in> set not_terminal_list)
        (\<lambda>r. r\<lparr>sbx_Status := t\<rparr>) d)"
      using safe unfolding UpdateStatus_db .
    fix x assume "x \<in> set (sandboxes d)" "ID x = i \<and> sbx_Status x \<in> set not_terminal_list"
    then have "x = r" using row_by_unique [OF wf_db_distinct [OF wf] r(1)] by blast
    with r(2) show "WorkerID (x\<lparr>sbx_Status := t\<rparr>) = None" by simp
  qed (use assms(2) in auto)
  then show ?thesis by simp
qed

text \<open>The end of the cleanup: a terminal status, no worker.\<close>

definition cleaned :: "string \<Rightarrow> db \<Rightarrow> bool" where
  "cleaned i d \<longleftrightarrow>
     (case sandbox_row_of i d of None \<Rightarrow> False | Some r \<Rightarrow> sbx_Status r \<in> terminal \<and> WorkerID r = None)"

lemma finish_cleans:
  assumes "db_call (UpdateStatus i t not_terminal_list) w = (Inr x, w')"
    and "t \<in> {StatusStopped, StatusFailed}" and "free_ctx i (wdb w')"
  shows "cleaned i (wdb w')"
proof -
  obtain d where d: "UpdateStatus i t not_terminal_list d = (Inr x, wdb w')"
    using db_call_ok [OF assms(1)] by blast
  have d': "sandbox_row_of i (wdb w') = map_option (\<lambda>r. if ID r = i \<and> sbx_Status r \<in> set not_terminal_list
        then r\<lparr>sbx_Status := t\<rparr> else r) (sandbox_row_of i d)"
    using UpdateStatus_row [of i i t not_terminal_list d] d by simp
  obtain r where r: "sandbox_row_of i (wdb w') = Some r" "WorkerID r = None" "ended (sbx_Status r)"
    using assms(3) by (auto simp: free_ctx_def over_ctx_def split: option.splits)
  then obtain r0 where r0: "sandbox_row_of i d = Some r0"
    and "r = (if ID r0 = i \<and> sbx_Status r0 \<in> set not_terminal_list then r0\<lparr>sbx_Status := t\<rparr> else r0)"
    using d' by auto
  moreover have "ID r0 = i" using r0 by (auto dest: row_by_SomeD)
  ultimately have "sbx_Status r \<in> terminal"
    using r(3) assms(2) by (cases "sbx_Status r0 \<in> set not_terminal_list") (auto simp: ended_def)
  with r show ?thesis by (simp add: cleaned_def)
qed

lemma clear_frees:
  assumes "db_call (ClearWorker i) w = (Inr x, w')" and "over_ctx i (wdb w')"
  shows "free_ctx i (wdb w')"
proof -
  obtain d where d: "ClearWorker i d = (Inr x, wdb w')" using db_call_ok [OF assms(1)] by blast
  obtain r where r: "sandbox_row_of i (wdb w') = Some r" "ended (sbx_Status r)"
    using assms(2) by (auto simp: over_ctx_def split: option.splits)
  have "WorkerID r = None"
  proof (cases "sbx_Status r = StatusCleanupPending")
    case True
    have w': "wdb w' = update_sandboxes (\<lambda>r. ID r = i \<and> sbx_Status r = StatusCleanupPending)
        (\<lambda>r. r\<lparr>WorkerID := None\<rparr>) d"
      using d by (simp add: ClearWorker_def)
    have "sandbox_row_of i (wdb w') = map_option (\<lambda>r. if ID r = i \<and> sbx_Status r = StatusCleanupPending
        then r\<lparr>WorkerID := None\<rparr> else r) (sandbox_row_of i d)"
      by (simp add: w' row_by_upd_where)
    then obtain r0 where r0: "sandbox_row_of i d = Some r0"
      "r = (if ID r0 = i \<and> sbx_Status r0 = StatusCleanupPending then r0\<lparr>WorkerID := None\<rparr> else r0)"
      using r(1) by (cases "sandbox_row_of i d") simp_all
    moreover have "ID r0 = i" using r0(1) by (auto dest: row_by_SomeD)
    ultimately show ?thesis using True by (auto split: if_splits)
  next
    case False
    with r(2) have "sbx_Status r \<in> terminal" by (simp add: ended_def)
    with assms(2) r(1) show ?thesis
      by (auto simp: over_ctx_def books_ok_def tidy_def dest!: row_by_SomeD)
  qed
  with assms(2) r(1) show ?thesis by (simp add: free_ctx_def)
qed

lemma free_over: "free_ctx i d \<Longrightarrow> over_ctx i d"
  by (simp add: free_ctx_def)

definition cleanup_ok :: "string \<Rightarrow> 'r world \<Rightarrow> job_result \<times> 'r world \<Rightarrow> bool" where
  "cleanup_ok i w out \<longleftrightarrow>
     over_ctx i (wdb (snd out)) \<and> legal_db (wdb w) (wdb (snd out))
     \<and> (fst out = JobDone \<longrightarrow> cleaned i (wdb (snd out)))"

lemma cleanup_ok_trans:
  "legal_db (wdb w) (wdb v) \<Longrightarrow> cleanup_ok i v out \<Longrightarrow> cleanup_ok i w out"
  by (auto simp: cleanup_ok_def intro: legal_db_trans)

lemma cleanup_finish_ok:
  assumes "rely w" and "free_ctx i (wdb w)" and "t \<in> {StatusStopped, StatusFailed}"
  shows "cleanup_ok i w (cleanup_finish i t w)"
proof -
  obtain x w' where x: "db_call (UpdateStatus i t not_terminal_list) w = (x, w')" by fastforce
  have "guarantees (free_ctx i) w (snd (db_call (UpdateStatus i t not_terminal_list) w))"
    by (rule db_call_guarantees) (use finish_sound assms(3) in auto)
  with assms(1,2) x have g: "free_ctx i (wdb w')" "legal_db (wdb w) (wdb w')"
    by (simp_all add: guarantees_def)
  then show ?thesis
    using x finish_cleans [OF _ assms(3) g(1)] free_over
    by (cases x) (auto simp: cleanup_finish_def cleanup_ok_def)
qed

lemma clear_then_finish_ok:
  assumes "rely w" and "over_ctx i (wdb w)" and "t \<in> {StatusStopped, StatusFailed}"
  shows "cleanup_ok i w (case db_call (ClearWorker i) w of
      (Inl e, w3) \<Rightarrow> (JobError (EClearWorker e), w3) | (Inr _, w3) \<Rightarrow> cleanup_finish i t w3)"
proof -
  obtain x w' where x: "db_call (ClearWorker i) w = (x, w')" by fastforce
  have "guarantees (over_ctx i) w (snd (db_call (ClearWorker i) w))"
    by (rule db_call_guarantees) (use tx_clear.sound in auto)
  with assms(1,2) x have g: "rely w'" "over_ctx i (wdb w')" "legal_db (wdb w) (wdb w')"
    by (simp_all add: guarantees_def)
  show ?thesis
  proof (cases x)
    case (Inl e)
    with x g show ?thesis by (simp add: cleanup_ok_def)
  next
    case (Inr u)
    with x g clear_frees [of i w u w'] have "free_ctx i (wdb w')" by simp
    from cleanup_finish_ok [OF g(1) this assms(3)] g(3) x Inr show ?thesis
      by (simp add: cleanup_ok_trans)
  qed
qed

lemma removeSandboxOnWorker_guarantees:
  "guarantees (over_ctx i) w (snd (removeSandboxOnWorker rpc wid i w))"
  unfolding removeSandboxOnWorker_def Let_def
  by (rule guarantees_db) (auto simp: tx_wrk_get.sound intro!: guarantees_rpc split: sum.split)

lemma cleanup_Work_ok:
  assumes "rely w" and "over_ctx i (wdb w)" and "cleanup_target t \<in> {StatusStopped, StatusFailed}"
  shows "cleanup_ok i w (cleanup_Work rpc attempt maxAttempts i t w)"
proof -
  obtain x w1 where x: "db_call (GetByID i) w = (x, w1)" by fastforce
  have "guarantees (over_ctx i) w (snd (db_call (GetByID i) w))"
    by (rule db_call_guarantees) (use tx_get.sound in auto)
  with assms(1,2) x have g: "rely w1" "over_ctx i (wdb w1)" "legal_db (wdb w) (wdb w1)"
    by (simp_all add: guarantees_def)
  have tgt: "(if t \<noteq> [] then status_of_text t else StatusFailed) \<in> {StatusStopped, StatusFailed}"
    using assms(3) by (simp add: cleanup_target_def split: if_splits)
  show ?thesis
  proof (cases x)
    case (Inl e)
    with x g show ?thesis by (simp add: cleanup_Work_def cleanup_ok_def)
  next
    case (Inr s)
    with x obtain r where r: "sandbox_row_of i (wdb w1) = Some r" "s = scanSandbox r"
      using GetByID_ok by blast
    show ?thesis
    proof (cases "sbx_Status s \<in> terminal")
      case True
      then have "cleaned i (wdb w1)"
        using g(2) r by (auto simp: cleaned_def over_ctx_def books_ok_def tidy_def dest!: row_by_SomeD)
      moreover have "sbx_Status s \<in> {StatusFailed, StatusStopped, StatusCleanedUp}" using True by auto
      ultimately show ?thesis
        using x Inr g by (simp add: cleanup_Work_def cleanup_ok_def)
    next
      case False
      then have nt: "sbx_Status s \<notin> {StatusFailed, StatusStopped, StatusCleanedUp}" by auto
      show ?thesis
      proof (cases "WorkerID s")
        case None
        with g(2) r have "free_ctx i (wdb w1)" by (simp add: free_ctx_def)
        from cleanup_finish_ok [OF g(1) this tgt] show ?thesis
          using x Inr nt None cleanup_ok_trans [OF g(3)] by (simp add: cleanup_Work_def)
      next
        case (Some wid)
        obtain y w2 where y: "removeSandboxOnWorker rpc wid i w1 = (y, w2)" by fastforce
        with removeSandboxOnWorker_guarantees [of i w1 rpc wid] g(1,2)
        have g2: "rely w2" "over_ctx i (wdb w2)" "legal_db (wdb w1) (wdb w2)"
          by (simp_all add: guarantees_def)
        note l2 = legal_db_trans [OF g(3) g2(3)]
        have "cleanup_ok i w (JobError e, w2)" for e
          using g2(2) l2 by (simp add: cleanup_ok_def)
        moreover note cleanup_ok_trans [OF l2 clear_then_finish_ok [OF g2(1,2) tgt]]
          cleanup_ok_trans [OF l2 clear_then_finish_ok [OF g2(1,2), of StatusFailed]]
        ultimately show ?thesis
          using x Inr nt Some y by (cases y) (simp_all add: cleanup_Work_def)
      qed
    qed
  qed
qed

subsection \<open>Properties\<close>

text \<open>C16: a cleanup job that completes has cleaned up.  Whatever the other processes do in
  between and whichever round trips fail, an attempt on a sandbox that is over makes legal
  transitions only, keeps the books, and when it returns success the sandbox is in a terminal
  status and holds no worker.\<close>

theorem cleanup_Work_completes:
  assumes "rely w" and "wf_db (wdb w)" and "books_ok (wdb w)"
    and "(CleanupSandboxArgs i t, opts) \<in> set (jobs (wdb w))"
    and "cleanup_Work rpc attempt maxAttempts i t w = (res, w')"
  shows "legal_db (wdb w) (wdb w') \<and> wf_db (wdb w') \<and> books_ok (wdb w')
    \<and> (res = JobDone \<longrightarrow> (\<exists>r. sandbox_row_of i (wdb w') = Some r
          \<and> sbx_Status r \<in> {StatusStopped, StatusFailed, StatusCleanedUp} \<and> WorkerID r = None))"
proof -
  have "job_grounded (wdb w) (CleanupSandboxArgs i t)"
    using assms(3,4) by (fastforce simp: books_ok_def grounded_def)
  then obtain r where r: "sandbox_row_of i (wdb w) = Some r" "sbx_Status r \<notin> in_flight"
    and t: "cleanup_target t \<in> {StatusStopped, StatusFailed}"
    by (auto split: option.splits)
  have "known_status (sbx_Status r)"
    using wf_db_row [OF assms(2)] r(1) by (auto simp: row_ok_def dest!: row_by_SomeD)
  with r assms(2,3) have "over_ctx i (wdb w)"
    using known_ended by (simp add: over_ctx_def)
  from cleanup_Work_ok [OF assms(1) this t, of rpc attempt maxAttempts] assms(5)
  show ?thesis
    by (auto simp: cleanup_ok_def over_ctx_def cleaned_def split: option.splits)
qed

definition sample_cleanup_db :: db where
  "sample_cleanup_db = sample_db\<lparr>
     sandboxes := [sample_row ''q'' StatusCleanupPending (Some ''w1'') None],
     jobs := [cleanupParams ''q'' StatusStopped]\<rparr>"

lemma sample_cleanup_ok: "wf_db sample_cleanup_db" "books_ok sample_cleanup_db"
  by (simp_all add: sample_cleanup_db_def sample_simps wf_db_def row_ok_def worker_row_ok_def
      unassigned_def assigned_or_up_def books_ok_def covered_def grounded_def tidy_def
      cleanupParams_def cleanup_job_for_def)

definition sample_cleanup_world :: "nat world" where
  "sample_cleanup_world = \<lparr>wdb = sample_cleanup_db,
     hops = [\<lparr>before = id, outcome = TripOk\<rparr>,
             \<lparr>before = (\<lambda>d. snd (MarkStaleInactive (5 * second) d)), outcome = TripOk\<rparr>],
     remote = 0\<rparr>"

theorem cleanup_Work_completes_witness:
  "books_ok (wdb (snd (cleanup_Work sample_rpc 1 5 ''q'' ''stopped'' sample_cleanup_world)))"
proof -
  obtain res w' where run: "cleanup_Work sample_rpc 1 5 ''q'' ''stopped'' sample_cleanup_world = (res, w')"
    by fastforce
  have "rely sample_cleanup_world"
    using tx_mark_stale.sound [of _ "5 * second"] by (simp add: rely_def sample_cleanup_world_def)
  moreover have "wf_db (wdb sample_cleanup_world)" "books_ok (wdb sample_cleanup_world)"
    "(CleanupSandboxArgs ''q'' ''stopped'', Some \<lparr>Queue = ''cleanup'', ByArgs = False, ByState = []\<rparr>)
       \<in> set (jobs (wdb sample_cleanup_world))"
    using sample_cleanup_ok by (simp_all add: sample_cleanup_world_def)
      (simp add: sample_cleanup_db_def cleanupParams_def)
  ultimately show ?thesis using cleanup_Work_completes [OF _ _ _ _ run] run by simp
qed



text \<open>C17: the sandbox reaper claims every sandbox at most once and enqueues exactly its cleanup.
  The three lists it claims have no identifier in common; the jobs inserted are one per
  identifier, with target \<^verbatim>\<open>stopped\<close> for an expired TTL and \<^verbatim>\<open>failed\<close> otherwise; the rows claimed
  are \<^verbatim>\<open>cleanup_pending\<close> and every other row is as it was.\<close>

theorem reap_sandbox_claims_once:
  assumes "wf_db d"
    and "reap_sandbox_tx lt wl ct locked d = (Inr (expired, dead, stalled), d')"
  shows "distinct (expired @ dead @ stalled)
    \<and> jobs d' = jobs d @ map (\<lambda>i. cleanupParams i StatusStopped) expired
                       @ map (\<lambda>i. cleanupParams i StatusFailed) (dead @ stalled)
    \<and> (\<forall>i. sandbox_row_of i d' =
          map_option (\<lambda>r. if i \<in> set (expired @ dead @ stalled) then to_cleanup r else r) (sandbox_row_of i d))"
proof (cases rule: reap_sandbox_tx_cases [of lt wl ct locked d])
  case (failed e)
  with assms(2) show ?thesis by simp
next
  case idle
  with assms(2) show ?thesis by (auto simp: option.map_ident)
next
  case (claimed expired' d1 dead' d2 stalled' d3)
  with assms(2) have eq: "expired' = expired" "dead' = dead" "stalled' = stalled"
    and d': "d' = insert_jobs (reap_jobs expired dead stalled) d3" by auto
  note D0 = wf_db_distinct [OF assms(1)]
  have c1: "claim_to_cleanup locked (ttl_expired (clock d)) d = (Inr expired, d1)"
    using claimed(1) eq by (simp add: ClaimTTLExpired_def)
  note i1 = claim_ids [OF D0 c1 ttl_in_flight]
  then have D1: "distinct (map ID (sandboxes d1))" using D0 by simp
  have c2: "claim_to_cleanup locked (liveness_expired lt wl d1) d1 = (Inr dead, d2)"
    using ClaimLiveness_claim [OF claimed(2)] eq by simp
  have P2: "liveness_expired lt wl d1 r \<Longrightarrow> sbx_Status r \<in> in_flight" for r by (rule liveness_in_flight)
  note i2 = claim_ids [OF D1 c2 P2]
  then have D2: "distinct (map ID (sandboxes d2))" using D1 by simp
  define P3 where "P3 = (\<lambda>r :: sandbox_row. ct > 0 \<and> creation_stalled ct (clock d2) r)"
  have c3: "claim_to_cleanup locked P3 d2 = (Inr stalled, d3)"
    using claimed(3) eq
    by (auto simp: P3_def claim_run returning_def update_sandboxes_def upd_where_none ClaimStalledCreation_def
        split: if_splits)
  have P3: "P3 r \<Longrightarrow> sbx_Status r \<in> in_flight" for r using stalled_in_flight by (auto simp: P3_def)
  note i3 = claim_ids [OF D2 c3 P3]
  have r1: "sandbox_row_of i d1 = map_option (\<lambda>r. if i \<in> set expired then to_cleanup r else r) (sandbox_row_of i d)"
    and r2: "sandbox_row_of i d2 = map_option (\<lambda>r. if i \<in> set dead then to_cleanup r else r) (sandbox_row_of i d1)"
    and r3: "sandbox_row_of i d3 = map_option (\<lambda>r. if i \<in> set stalled then to_cleanup r else r) (sandbox_row_of i d2)" for i
    using claim_row [OF D0 c1] claim_row [OF D1 c2] claim_row [OF D2 c3] by blast+
  have st: "sbx_Status (to_cleanup r) \<notin> in_flight" for r by (simp add: to_cleanup_def)
  have idem: "to_cleanup (to_cleanup r) = to_cleanup r" for r by (simp add: to_cleanup_def)
  have x12: "set expired \<inter> set dead = {}"
  proof (intro equals0I, elim IntE)
    fix i assume "i \<in> set expired" "i \<in> set dead"
    with i2 obtain r where "sandbox_row_of i d1 = Some r" "sbx_Status r \<in> in_flight" by blast
    with \<open>i \<in> set expired\<close> r1 [of i] st show False by (cases "sandbox_row_of i d") auto
  qed
  have x3: "(set expired \<union> set dead) \<inter> set stalled = {}"
  proof (intro equals0I, elim IntE)
    fix i assume "i \<in> set expired \<union> set dead" "i \<in> set stalled"
    with i3 obtain r where "sandbox_row_of i d2 = Some r" "sbx_Status r \<in> in_flight" by blast
    with \<open>i \<in> set expired \<union> set dead\<close> r1 [of i] r2 [of i] st idem show False
      by (cases "sandbox_row_of i d") (auto split: if_splits)
  qed
  have "distinct (expired @ dead @ stalled)"
    using i1 i2 i3 x12 x3 by auto
  moreover have "jobs d3 = jobs d"
    using c1 c2 c3 by (auto simp: claim_run)
  moreover have "sandbox_row_of i d' =
      map_option (\<lambda>r. if i \<in> set (expired @ dead @ stalled) then to_cleanup r else r) (sandbox_row_of i d)" for i
    by (cases "sandbox_row_of i d") (auto simp: d' r1 [of i] r2 [of i] r3 [of i] idem)
  ultimately show ?thesis by (simp add: d' reap_jobs_def)
qed

theorem reap_sandbox_claims_once_witness:
  "let out = reap_sandbox_tx (30 * second) (60 * second) (50 * second) (\<lambda>_. False) sample_db
   in fst out = Inr ([], [], [''a'']) \<and> jobs (snd out) = [cleanupParams ''a'' StatusFailed]"
proof -
  let ?out = "reap_sandbox_tx (30 * second) (60 * second) (50 * second) (\<lambda>_. False) sample_db"
  have fst: "fst ?out = Inr ([], [], [''a''])"
    by (simp add: reap_sandbox_tx_def ClaimTTLExpired_def ClaimLivenessExpired_def ClaimStalledCreation_def
        claim_run returning_def ttl_expired_def liveness_expired_def not_vouched_for_def last_vouched_def
        creation_stalled_def sample_simps second_def upd_where_def)
  then have run: "?out = (Inr ([], [], [''a'']), snd ?out)" by (metis prod.collapse)
  have "jobs (snd ?out) = [cleanupParams ''a'' StatusFailed]"
    using reap_sandbox_claims_once [OF sample_wf run] by (simp add: sample_db_def)
  with fst show ?thesis by (simp only: Let_def simp_thms)
qed

text \<open>An outage of the orchestrator kills no sandbox.  All workers were active when it went
  down; it comes back at any later time \<open>t\<close>, having recorded nothing, and its worker reaper marks
  the silent workers inactive.  Until \<open>workerLostTimeout\<close> after that, the liveness claim takes
  exactly the sandboxes it would have taken before the outage.\<close>

lemma outage_claims_nothing:
  assumes "\<forall>w \<in> set (workers d). wr_status w = WorkerStatusActive"
    and "0 < workerLostTimeout" and "t' \<le> t + workerLostTimeout"
  shows "fst (ClaimLivenessExpired livenessTimeout workerLostTimeout locked
      ((snd (MarkStaleInactive heartbeatTimeout (d\<lparr>clock := t\<rparr>)))\<lparr>clock := t'\<rparr>))
    = fst (ClaimLivenessExpired livenessTimeout workerLostTimeout locked d)"
proof -
  let ?h = "if heartbeatTimeout \<le> 0 then defaultHeartbeatTimeout else heartbeatTimeout"
  let ?u = "\<lambda>r. if wrk_stale ?h t r then r\<lparr>wr_status := WorkerStatusInactive, wr_inactive_since := Some t\<rparr> else r"
  let ?d = "(snd (MarkStaleInactive heartbeatTimeout (d\<lparr>clock := t\<rparr>)))\<lparr>clock := t'\<rparr>"
  have ws: "workers ?d = map ?u (workers d)" and sb: "sandboxes ?d = sandboxes d" and cl: "clock ?d = t'"
    by (simp_all add: MarkStaleInactive_def Let_def upd_where_def)
  have "not_vouched_for livenessTimeout workerLostTimeout t' (?u w) r
      = not_vouched_for livenessTimeout workerLostTimeout (clock d) w r" if "w \<in> set (workers d)" for w r
    using assms that by (auto simp: not_vouched_for_def)
  then have "liveness_expired livenessTimeout workerLostTimeout ?d r
      = liveness_expired livenessTimeout workerLostTimeout d r" for r
    unfolding liveness_expired_def ws cl set_map bex_simps(7) if_distrib [where f = wr_id] by simp
  then show ?thesis
    using assms(2) by (simp add: ClaimLivenessExpired_def claim_run sb)
qed

text \<open>C36: the retry delay doubles from two seconds and is capped at thirty, never negative, for
  up to 32 prior errors (beyond, the 64-bit product wraps).  The four delays between the five
  attempts of a job add up to thirty seconds.\<close>

theorem NextRetry_backoff_bounds:
  assumes "errors \<le> 32"
  shows "NextRetry_backoff errors = min (2 ^ (errors + 1)) 30 * second
    \<and> 2 * second \<le> NextRetry_backoff errors \<and> NextRetry_backoff errors \<le> 30 * second
    \<and> sum_list (map NextRetry_backoff [0..<4]) = 30 * second"
proof -
  have exact: "NextRetry_backoff e = min (2 ^ (e + 1)) 30 * second" if "e \<le> 32" for e
  proof -
    have "wrap64 x = x \<and> wrap64 (x * second) = x * second" if "0 \<le> x" "x \<le> 2 ^ 33" for x
      using that by (auto intro!: wrap64_id simp: second_def int64_min_def int64_max_def)
    moreover have "(2 :: int) ^ (e + 1) \<le> 2 ^ 33" using that by (intro power_increasing) auto
    ultimately have "wrap64 (2 ^ (e + 1)) = 2 ^ (e + 1)" "wrap64 (2 ^ (e + 1) * second) = 2 ^ (e + 1) * second"
      by simp_all
    then show ?thesis by (simp add: NextRetry_backoff_def Let_def second_def min_def)
  qed
  have "(2 :: int) \<le> 2 ^ (errors + 1)" by simp
  then have "2 * second \<le> NextRetry_backoff errors" "NextRetry_backoff errors \<le> 30 * second"
    unfolding exact [OF assms] by (simp_all add: second_def min_def)
  moreover have "sum_list (map NextRetry_backoff [0..<4]) = 30 * second"
    by (simp add: upt_rec exact second_def)
  ultimately show ?thesis using exact [OF assms] by blast
qed

theorem NextRetry_backoff_bounds_witness: "NextRetry_backoff 4 = 30 * second"
  using NextRetry_backoff_bounds [of 4] by (simp add: second_def)

end
