(* ===== verification/Http_Api.thy ===== *)
theory Http_Api
  imports Auth Capacity Cleanup_Jobs
begin

text \<open>
  The sandbox API of \<^verbatim>\<open>orchestrator/http.go\<close>: \<^verbatim>\<open>createSandbox\<close> with its transaction and its wait
  for the create job, \<^verbatim>\<open>getSandboxByID\<close>, \<^verbatim>\<open>listSandboxes\<close> and \<^verbatim>\<open>deleteSandbox\<close>.  A handler takes the
  user \<^verbatim>\<open>UserFromContext\<close> finds and returns the response it writes, \<open>None\<close> when it ends without
  one or is still waiting.  A transaction is one round trip.  What the handler's \<^verbatim>\<open>select\<close> receives
  from the River subscription is the list of \<open>wait_item\<close>s; the clock, the identifiers and the job
  number are arguments.  \<^verbatim>\<open>listSandboxes\<close> asks the workers in parallel and puts the answers in
  worker order; the model asks them in that order.
\<close>

subsection \<open>Requests and events\<close>

record createSandboxRequest =
  body_Runtime :: string
  body_Image :: string
  body_Port :: int
  body_TTL :: int
  body_PreviewURL :: string
  body_VcpuCount :: int
  body_MemSizeMib :: int

definition defaultVcpuCount :: int where "defaultVcpuCount = SandboxVcpu"
definition defaultMemSizeMib :: int where "defaultMemSizeMib = SandboxMemMiB"

definition defaultImageForRuntime :: "string \<Rightarrow> string" where
  "defaultImageForRuntime runtime =
     (let r = ToLower (TrimSpace runtime)
      in if r \<in> {''node'', ''nodejs'', ''javascript'', ''typescript''} then ''node:20-alpine''
         else if r \<in> {''python'', ''py''} then ''python:3.12-alpine''
         else if r \<in> {''go'', ''golang''} then ''golang:1.23-alpine''
         else ''node:20-alpine'')"

text \<open>The argument is \<^verbatim>\<open>time.Now().UnixNano()\<close>.\<close>

definition defaultSandboxPort :: "int \<Rightarrow> int" where
  "defaultSandboxPort unixNano = to_int32 (10000 + go_rem unixNano 50000)"

record JobRow =
  job_ID :: int
  job_State :: JobState
  job_Errors :: "string list"

datatype EventKind = EventKindJobCompleted | EventKindJobFailed | EventKindJobCancelled

record river_event =
  event_Kind :: EventKind
  event_Job :: "JobRow option"

datatype wait_item =
    RequestDone
  | SubscriptionClosed
  | EventReceived "river_event option"

definition ErrClusterFull_text :: string where
  "ErrClusterFull_text = ''no worker capacity available''"

definition jobFailedClusterFull :: "JobRow option \<Rightarrow> bool" where
  "jobFailedClusterFull job =
     (case job of
        None \<Rightarrow> False
      | Some j \<Rightarrow> job_Errors j \<noteq> [] \<and> Contains (last (job_Errors j)) ErrClusterFull_text)"

subsection \<open>createSandbox\<close>

text \<open>The row a request asks for, every default applied.\<close>

definition new_sandbox :: "string \<Rightarrow> User \<Rightarrow> time \<Rightarrow> int \<Rightarrow> createSandboxRequest \<Rightarrow> Sandbox" where
  "new_sandbox sandboxID u now unixNano b =
     \<lparr>ID = sandboxID, Runtime = body_Runtime b, sbx_Status = StatusPending,
      TTL = (if body_TTL b \<le> 0 then 3600 else body_TTL b), CreatedAt = now,
      Port = (if body_Port b \<le> 0 then defaultSandboxPort unixNano else body_Port b),
      PreviewURL = body_PreviewURL b,
      Image = (if body_Image b = [] then defaultImageForRuntime (body_Runtime b) else body_Image b),
      WorkerID = None,
      VcpuCount = (if body_VcpuCount b \<le> 0 then defaultVcpuCount else body_VcpuCount b),
      MemSizeMib = (if body_MemSizeMib b \<le> 0 then defaultMemSizeMib else body_MemSizeMib b),
      UserID = Some (usr_ID u)\<rparr>"

definition create_tx :: "Sandbox \<Rightarrow> unit dbop" where
  "create_tx s d =
     (case sbx_Create s d of
        (Inl e, _) \<Rightarrow> (Inl e, d)
      | (Inr _, d') \<Rightarrow> (Inr (), insert_jobs [(CreateSandboxArgs (ID s), None)] d'))"

definition create_failed :: "int \<Rightarrow> http_response" where
  "create_failed c = http_Error ''failed to create sandbox'' c"

fun create_wait :: "string \<Rightarrow> int \<Rightarrow> wait_item list \<Rightarrow> 'r world \<Rightarrow> http_response option \<times> 'r world" where
  "create_wait sandboxID jobID [] w = (None, w)"
| "create_wait sandboxID jobID (RequestDone # rest) w = (None, w)"
| "create_wait sandboxID jobID (SubscriptionClosed # rest) w = (Some (create_failed 502), w)"
| "create_wait sandboxID jobID (EventReceived ev # rest) w =
     (case ev of
        None \<Rightarrow> create_wait sandboxID jobID rest w
      | Some e \<Rightarrow>
          (case event_Job e of
             None \<Rightarrow> create_wait sandboxID jobID rest w
           | Some j \<Rightarrow>
               if job_ID j \<noteq> jobID then create_wait sandboxID jobID rest w
               else (case event_Kind e of
                 EventKindJobCompleted \<Rightarrow>
                   (case db_call (GetByID sandboxID) w of
                      (Inl _, w1) \<Rightarrow> (Some (http_Error ''failed to fetch sandbox'' 500), w1)
                    | (Inr s, w1) \<Rightarrow>
                        (Some \<lparr>code = 201, retry_after = None, http_payload = SandboxJSON s\<rparr>, w1))
               | EventKindJobCancelled \<Rightarrow>
                   (if jobFailedClusterFull (Some j)
                    then (Some \<lparr>code = 503, retry_after = Some ''30'',
                            http_payload = PlainText ''no worker capacity available''\<rparr>, w)
                    else (Some (create_failed 502), w))
               | EventKindJobFailed \<Rightarrow>
                   if job_State j \<noteq> JobStateDiscarded then create_wait sandboxID jobID rest w
                   else (Some (create_failed 502), w))))"

definition createSandbox ::
    "bool \<Rightarrow> string \<Rightarrow> int \<Rightarrow> time \<Rightarrow> int \<Rightarrow> wait_item list \<Rightarrow> User option
       \<Rightarrow> createSandboxRequest option \<Rightarrow> 'r world \<Rightarrow> http_response option \<times> 'r world" where
  "createSandbox river sandboxID jobID now unixNano items user raw w =
     (case user of
        None \<Rightarrow> (Some (http_Error ''authentication required'' 401), w)
      | Some u \<Rightarrow>
     (case raw of
        None \<Rightarrow> (Some (http_Error ''invalid json'' 400), w)
      | Some b \<Rightarrow>
          if body_Runtime b = [] then (Some (http_Error ''runtime is required'' 400), w)
          else (case CheckSandboxSize (body_VcpuCount b) (body_MemSizeMib b) of
            Some e \<Rightarrow> (Some (http_Error (size_error_text e) 400), w)
          | None \<Rightarrow>
          if \<not> river then (Some (create_failed 500), w)
          else (case db_call wrk_List w of
             (Inl _, w1) \<Rightarrow> (Some (http_Error ''failed to list workers'' 500), w1)
           | (Inr ws, w1) \<Rightarrow>
               if ws = [] then (Some (http_Error ''no workers available'' 503), w1)
               else (case db_call (create_tx (new_sandbox sandboxID u now unixNano b)) w1 of
                  (Inl _, w2) \<Rightarrow> (Some (create_failed 500), w2)
                | (Inr _, w2) \<Rightarrow> create_wait sandboxID jobID items w2)))))"

subsection \<open>getSandboxByID, listSandboxes, deleteSandbox\<close>

text \<open>\<^verbatim>\<open>GetByID\<close> as the handlers report it: someone else's sandbox is not found.\<close>

definition fetch_own :: "User \<Rightarrow> string \<Rightarrow> 'r world \<Rightarrow> (http_response + Sandbox) \<times> 'r world" where
  "fetch_own u i w =
     (case db_call (GetByID i) w of
        (Inl e, w1) \<Rightarrow>
          (Inl (if e = ErrNotFound then http_Error ''not found'' 404
                else http_Error ''failed to fetch sandbox'' 500), w1)
      | (Inr s, w1) \<Rightarrow>
          if UserID s \<noteq> Some (usr_ID u) then (Inl (http_Error ''not found'' 404), w1)
          else (Inr s, w1))"

definition getSandboxByID ::
    "User option \<Rightarrow> string \<Rightarrow> 'r world \<Rightarrow> http_response option \<times> 'r world" where
  "getSandboxByID user i w =
     (case user of
        None \<Rightarrow> (Some (http_Error ''authentication required'' 401), w)
      | Some u \<Rightarrow>
          if i = [] then (Some (http_Error ''id is required'' 400), w)
          else (case fetch_own u i w of
                  (Inl resp, w1) \<Rightarrow> (Some resp, w1)
                | (Inr s, w1) \<Rightarrow>
                    (Some \<lparr>code = 200, retry_after = None, http_payload = SandboxJSON s\<rparr>, w1)))"

fun list_own :: "User \<Rightarrow> string list \<Rightarrow> 'r world \<Rightarrow> Sandbox list \<times> 'r world" where
  "list_own u [] w = ([], w)"
| "list_own u (i # is) w =
     (case db_call (GetByID i) w of
        (Inl _, w1) \<Rightarrow> list_own u is w1
      | (Inr s, w1) \<Rightarrow>
          (case list_own u is w1 of
             (ss, w2) \<Rightarrow> (if UserID s \<noteq> Some (usr_ID u) then ss else s # ss, w2)))"

fun list_workers :: "'r rpc \<Rightarrow> User \<Rightarrow> Worker list \<Rightarrow> 'r world \<Rightarrow> Sandbox list \<times> 'r world" where
  "list_workers rpc u [] w = ([], w)"
| "list_workers rpc u (wk # wks) w =
     (let address = normalizeWorkerAddress (Address wk) (to_int32 (wPort wk))
      in if \<not> dials rpc address then list_workers rpc u wks w
         else (case remote_call (call_ListRunningSandboxes rpc address) w of
                 (Inl _, w1) \<Rightarrow> list_workers rpc u wks w1
               | (Inr ids, w1) \<Rightarrow>
                   (case list_own u ids w1 of
                      (ss, w2) \<Rightarrow>
                        (case list_workers rpc u wks w2 of (ts, w3) \<Rightarrow> (ss @ ts, w3)))))"

definition listSandboxes ::
    "'r rpc \<Rightarrow> User option \<Rightarrow> 'r world \<Rightarrow> http_response option \<times> 'r world" where
  "listSandboxes rpc user w =
     (case user of
        None \<Rightarrow> (Some (http_Error ''authentication required'' 401), w)
      | Some u \<Rightarrow>
          (case db_call ListActive w of
             (Inl _, w1) \<Rightarrow> (Some (http_Error ''failed to list workers'' 500), w1)
           | (Inr wks, w1) \<Rightarrow>
               (case list_workers rpc u wks w1 of
                  (ss, w2) \<Rightarrow>
                    (Some \<lparr>code = 200, retry_after = None, http_payload = SandboxListJSON ss\<rparr>, w2))))"

definition delete_tx :: "string \<Rightarrow> int dbop" where
  "delete_tx i d =
     (case UpdateStatus i StatusCleanupPending in_flight_list d of
        (Inl e, _) \<Rightarrow> (Inl e, d)
      | (Inr (_, n), d') \<Rightarrow>
          if n = 0 then (Inr 0, d)
          else (Inr n, insert_jobs [cleanupParams i StatusStopped] d'))"

definition deleteSandbox ::
    "bool \<Rightarrow> User option \<Rightarrow> string \<Rightarrow> 'r world \<Rightarrow> http_response option \<times> 'r world" where
  "deleteSandbox river user i w =
     (case user of
        None \<Rightarrow> (Some (http_Error ''authentication required'' 401), w)
      | Some u \<Rightarrow>
          if i = [] then (Some (http_Error ''id is required'' 400), w)
          else (case fetch_own u i w of
             (Inl resp, w1) \<Rightarrow> (Some resp, w1)
           | (Inr s, w1) \<Rightarrow>
               if sbx_Status s \<in> {StatusStopped, StatusFailed, StatusCleanupPending, StatusCleanedUp}
               then (Some (write_status 204), w1)
               else if \<not> river then (Some (http_Error ''delete sandbox failed'' 500), w1)
               else (case db_call (delete_tx i) w1 of
                  (Inl _, w2) \<Rightarrow> (Some (http_Error ''delete sandbox failed'' 500), w2)
                | (Inr n, w2) \<Rightarrow>
                    (Some (if n = 0 then write_status 204 else write_status 202), w2))))"

subsection \<open>The transactions keep the books\<close>

lemma create_tx_run:
  "create_tx s d =
     (if ID s \<in> ID ` set (sandboxes d) then (Inl ErrUniqueViolation, d)
      else if (case WorkerID s of None \<Rightarrow> False | Some w \<Rightarrow> w \<notin> wr_id ` set (workers d))
              \<or> (case UserID s of None \<Rightarrow> False | Some u \<Rightarrow> u \<notin> usr_ID ` set (users d))
           then (Inl ErrForeignKeyViolation, d)
      else (Inr (), insert_jobs [(CreateSandboxArgs (ID s), None)]
              (d\<lparr>sandboxes := sandboxes d @ [Sandbox.extend s \<lparr>last_seen_at = None\<rparr>]\<rparr>)))"
  by (simp add: create_tx_def sbx_Create_def Let_def)

lemma create_tx_sound:
  assumes "sbx_Status s = StatusPending" and "WorkerID s = None"
  shows "sound_step d (snd (create_tx s d))"
proof (cases "ID s \<in> ID ` set (sandboxes d)
    \<or> (case UserID s of None \<Rightarrow> False | Some u \<Rightarrow> u \<notin> usr_ID ` set (users d))")
  case True
  then have "snd (create_tx s d) = d" using assms(2) by (auto simp: create_tx_run)
  then show ?thesis by simp
next
  case False
  let ?r = "Sandbox.extend s \<lparr>last_seen_at = None\<rparr>"
  let ?d = "d\<lparr>sandboxes := sandboxes d @ [?r]\<rparr>"
  let ?j = "[(CreateSandboxArgs (ID s), None)] :: job_insert list"
  have run: "snd (create_tx s d) = insert_jobs ?j ?d"
    using False assms(2) by (simp add: create_tx_run)
  have r: "ID ?r = ID s" "sbx_Status ?r = StatusPending" "WorkerID ?r = None"
    using assms by (simp_all add: Sandbox.defs)
  show ?thesis unfolding run
  proof (rule sound_stepI)
    assume wf: "wf_db d" and b: "books_ok d"
    have legal1: "legal_db d ?d"
      by (auto simp: legal_db_def row_by_append)
    then show legal: "legal_db d (insert_jobs ?j ?d)"
      using legal_insert_jobs by (rule legal_db_trans)
    show "wf_db (insert_jobs ?j ?d)"
      using wf False r by (auto simp: wf_db_def row_ok_def unassigned_def assigned_or_up_def)
    have "sandbox_row_of (ID s) ?d \<noteq> None"
      using False r by (auto simp: row_by_append row_by_None_iff split: option.split)
    then have "grounded (insert_jobs ?j ?d)"
      using b by (intro grounded_legal [OF legal]) (auto simp: books_ok_def insert_jobs_def)
    then show "books_ok (insert_jobs ?j ?d)"
      using b r by (auto simp: books_ok_def covered_def tidy_def)
  qed
qed

interpretation tx_create: transaction "create_tx (new_sandbox i u now nano b)" for i u now nano b
  by unfold_locales (rule create_tx_sound, simp_all add: new_sandbox_def)

lemma returning_Nil: "returning P f t = [] \<longleftrightarrow> \<not> (\<exists>r \<in> set t. P r)"
  by (auto simp: returning_def filter_empty_conv)

lemma returning_one:
  "\<exists>r \<in> set t. key r = i \<and> Q r \<Longrightarrow> set (returning (\<lambda>r. key r = i \<and> Q r) key t) = {i}"
  by (auto simp: returning_def)

lemma delete_tx_run:
  "delete_tx i d =
     (if \<exists>r \<in> set (sandboxes d). ID r = i \<and> sbx_Status r \<in> set in_flight_list
      then (Inr 1, insert_jobs [cleanupParams i StatusStopped] (end_row i d)) else (Inr 0, d))"
proof -
  let ?P = "\<lambda>r :: sandbox_row. ID r = i \<and> sbx_Status r \<in> set in_flight_list"
  have "in_flight_list \<noteq> []" by simp
  then show ?thesis
    unfolding delete_tx_def UpdateStatus_def Let_def end_row_def to_cleanup_fun
    using returning_Nil [of ?P to_cleanup "sandboxes d"]
    by (cases "returning ?P to_cleanup (sandboxes d)"; cases "\<exists>r \<in> set (sandboxes d). ?P r")
      (simp_all only: if_True if_False list.case prod.case sum.case simp_thms list.distinct
        zero_neq_one one_neq_zero)
qed

lemma delete_tx_sound: "sound_step d (snd (delete_tx i d))"
proof (cases "\<exists>r \<in> set (sandboxes d). ID r = i \<and> sbx_Status r \<in> set in_flight_list")
  case True
  then have "snd (delete_tx i d) = insert_jobs [cleanupParams i StatusStopped] (end_row i d)"
    unfolding delete_tx_run by (simp only: if_True snd_conv)
  also have "sound_step d \<dots>"
    unfolding end_row_def
  proof (rule sound_claim)
    show "cleanup_jobs_for (returning (\<lambda>r. ID r = i \<and> sbx_Status r \<in> set in_flight_list) ID (sandboxes d))
        [cleanupParams i StatusStopped]"
      using returning_one [OF True]
      by (simp add: cleanup_jobs_for_def cleanupParams_def cleanup_job_for_def cleanup_target_def)
  qed simp
  finally show ?thesis .
next
  case False
  then have "snd (delete_tx i d) = d" unfolding delete_tx_run by (simp only: if_False snd_conv)
  then show ?thesis by simp
qed

interpretation tx_delete: transaction "delete_tx i" for i
  by unfold_locales (rule delete_tx_sound)

subsection \<open>What a handler may show\<close>

fun only_own :: "User \<Rightarrow> http_body \<Rightarrow> bool" where
  "only_own u (SandboxJSON s) = (UserID s = Some (usr_ID u))"
| "only_own u (SandboxListJSON ss) = (\<forall>s \<in> set ss. UserID s = Some (usr_ID u))"
| "only_own u _ = True"

lemma list_own_own: "s \<in> set (fst (list_own u is w)) \<Longrightarrow> UserID s = Some (usr_ID u)"
  by (induction u "is" w rule: list_own.induct) (auto split: prod.splits sum.splits if_splits)

lemma list_workers_own: "s \<in> set (fst (list_workers rpc u wks w)) \<Longrightarrow> UserID s = Some (usr_ID u)"
proof (induction wks arbitrary: w)
  case (Cons wk wks)
  then show ?case
    by (auto simp: Let_def split: if_splits prod.splits sum.splits
        dest: list_own_own [of s u _ _, unfolded fst_def])
      (metis fst_conv list_own_own)+
qed simp

lemma fetch_own_owner: "fst (fetch_own u i w) = Inr s \<Longrightarrow> UserID s = Some (usr_ID u)"
  by (auto simp: fetch_own_def split: prod.splits sum.splits if_splits)

lemma fetch_own_db: "snd (fetch_own u i w) = snd (db_call (GetByID i) w)"
  by (auto simp: fetch_own_def split: prod.splits sum.splits)

text \<open>Reading a row under interference: the row seen is a later state of the row known.\<close>

lemma GetByID_later:
  assumes "rely w" and "wf_db (wdb w)" and "books_ok (wdb w)" and "sandbox_row_of i (wdb w) = Some r"
    and "db_call (GetByID i) w = (Inr s, w1)"
  shows "\<exists>r'. row_step r r' \<and> s = scanSandbox r' \<and> sandbox_row_of i (wdb w1) = Some r'"
proof -
  have "guarantees (job_ctx i) w w1"
    using db_call_guarantees [where C = "job_ctx i" and f = "GetByID i" and w = w] assms(5)
    by (simp add: tx_get.sound)
  then have "legal_db (wdb w) (wdb w1)"
    using assms(1-4) by (simp add: guarantees_def job_ctx_def)
  then obtain r' where "sandbox_row_of i (wdb w1) = Some r'" "row_step r r'"
    by (rule legal_db_rowD [OF _ assms(4)])
  moreover obtain d where "GetByID i d = (Inr s, wdb w1)" using db_call_ok [OF assms(5)] by blast
  ultimately show ?thesis by (auto simp: GetByID_def split: option.splits)
qed

lemma fetch_other:
  assumes "rely w" and "wf_db (wdb w)" and "books_ok (wdb w)" and "sandbox_row_of i (wdb w) = Some r"
    and "UserID r \<noteq> Some (usr_ID u)"
  shows "\<exists>msg c. fst (fetch_own u i w) = Inl (http_Error msg c) \<and> c \<in> {404, 500}"
proof -
  obtain x w1 where run: "db_call (GetByID i) w = (x, w1)" by fastforce
  show ?thesis
  proof (cases x)
    case (Inr s)
    with GetByID_later [OF assms(1-4)] run obtain r' where "row_step r r'" "s = scanSandbox r'" by blast
    with assms(5) have "UserID s \<noteq> Some (usr_ID u)"
      by (simp add: row_step_def same_identity_def)
    with run Inr have "fst (fetch_own u i w) = Inl (http_Error ''not found'' 404)"
      by (simp add: fetch_own_def)
    then show ?thesis by blast
  next
    case (Inl e)
    with run have "fst (fetch_own u i w) = Inl (if e = ErrNotFound then http_Error ''not found'' 404
        else http_Error ''failed to fetch sandbox'' 500)" by (simp add: fetch_own_def)
    then show ?thesis by (cases "e = ErrNotFound") (simp_all, blast+)
  qed
qed

subsection \<open>Properties\<close>


definition sample_user :: User where
  "sample_user = \<lparr>usr_ID = ''u'', Email = ''a@b'', PasswordHash = [], usr_CreatedAt = 0\<rparr>"


lemma sort_key_Nil: "sort_key f xs = [] \<longleftrightarrow> xs = []"
  using length_sort [of f xs] by (metis length_0_conv)

lemma create_wait_quiet:
  "hops w = [] \<Longrightarrow> wdb (snd (create_wait i jobID items w)) = wdb w"
  by (induction i jobID items w rule: create_wait.induct)
    (auto simp: db_call_quiet GetByID_def split: option.splits EventKind.split)

lemma new_row:
  assumes "r = Sandbox.extend (new_sandbox i u now unixNano b) \<lparr>last_seen_at = None\<rparr>"
    and "CheckSandboxSize (body_VcpuCount b) (body_MemSizeMib b) = None"
  shows "ID r = i" "sbx_Status r = StatusPending" "UserID r = Some (usr_ID u)" "WorkerID r = None"
    "VcpuCount r = 1" "0 < MemSizeMib r" "MemSizeMib r \<le> 256" "0 < TTL r"
  using assms(2) unfolding assms(1)
  by (auto simp: Sandbox.defs new_sandbox_def CheckSandboxSize_def sizing_constants
      defaultVcpuCount_def defaultMemSizeMib_def split: if_splits)


definition sample_create :: createSandboxRequest where
  "sample_create = \<lparr>body_Runtime = ''node'', body_Image = ''img'', body_Port = 80, body_TTL = 0,
     body_PreviewURL = [], body_VcpuCount = 0, body_MemSizeMib = 128\<rparr>"

definition sample_api_world :: "nat world" where
  "sample_api_world = \<lparr>wdb = sample_db\<lparr>users := [sample_user]\<rparr>, hops = [], remote = 0\<rparr>"


lemma reach_from_running:
  "status_reach StatusRunning t \<Longrightarrow> t \<in> {StatusRunning, StatusCleanupPending, StatusStopped, StatusFailed}"
proof (induction rule: rtranclp_induct)
  case (step s t)
  then show ?case by (auto elim: status_step.cases)
qed simp



end
