(* ===== verification/Worker_Startup.thy ===== *)
theory Worker_Startup
  imports Worker_Inventory Manager_Liveness Orchestrator_App
begin

text \<open>
  The worker command (\<^verbatim>\<open>src/cmd/worker/main.go\<close>): its settings, the lock on the base directory (\<^verbatim>\<open>sandboxmgr/lock.go\<close>) and
  the life of all the worker processes that are ever started on one machine, as steps that interleave with the
  steps of the sandbox manager of the process that holds the lock.  Then the smoke test of a machine
  (\<^verbatim>\<open>src/cmd/firecracker-smoke\<close>).
\<close>

subsection \<open>Settings\<close>

record worker_settings =
  ws_port :: string
  ws_orchestrator :: string
  ws_id :: string
  ws_advertised :: string
  ws_bind :: string
  ws_cpu :: int
  ws_mem :: int

text \<open>The host name is empty when it cannot be read; a budget that is not a number is 0.\<close>

definition worker_settings_from_env :: "(string \<Rightarrow> string) \<Rightarrow> string \<Rightarrow> string option \<Rightarrow> worker_settings" where
  "worker_settings_from_env env hostname tailscale =
     (let advertised = env ''WORKER_ADVERTISED_HOST'';
          advertised = (if advertised = [] then (case IPv4 tailscale of Some ip \<Rightarrow> ip | None \<Rightarrow> []) else advertised);
          bind = env ''WORKER_GRPC_BIND_HOST'';
          number = (\<lambda>name. case Atoi (env name) of None \<Rightarrow> 0 | Some n \<Rightarrow> n)
      in \<lparr>ws_port = (if env ''WORKER_PORT'' = [] then ''0'' else env ''WORKER_PORT''),
          ws_orchestrator = (if env ''ORCHESTRATOR_GRPC_ADDR'' = [] then ''127.0.0.1:7001'' else env ''ORCHESTRATOR_GRPC_ADDR''),
          ws_id = (if env ''WORKER_ID'' = [] then hostname else env ''WORKER_ID''),
          ws_advertised = advertised,
          ws_bind = (if bind = [] then advertised else bind),
          ws_cpu = number ''WORKER_CPU_BUDGET'', ws_mem = number ''WORKER_MEM_BUDGET''\<rparr>)"

text \<open>The service before the gRPC server starts, and the address that server listens on.\<close>

definition initial_service :: "worker_settings \<Rightarrow> WorkerService" where
  "initial_service ws = SetWorkerBudget (ws_cpu ws) (ws_mem ws) (SetWorkerIdentity (ws_id ws) (ws_advertised ws) NewWorkerService)"

definition listen_address :: "worker_settings \<Rightarrow> string" where
  "listen_address ws = ws_bind ws @ '':'' @ ws_port ws"

subsection \<open>The lock on the base directory\<close>

definition lockFileName :: string where "lockFileName = ''.fire2-worker.lock''"

datatype lock_error = LockMkdirFailed | LockOpenFailed | ErrBaseDirLocked string | LockFailed string

text \<open>\<open>holder\<close> is the process whose open file holds the kernel's lock on the file; a process takes it once.  The three
  flags say whether making the directory, opening the file and, on a free lock, \<^verbatim>\<open>flock\<close> succeed.\<close>

definition LockBaseDir :: "bool \<Rightarrow> bool \<Rightarrow> bool \<Rightarrow> string \<Rightarrow> nat \<Rightarrow> nat option \<Rightarrow> (lock_error + unit) \<times> nat option" where
  "LockBaseDir mkdir_ok open_ok flock_ok baseDir p holder =
     (if \<not> mkdir_ok then (Inl LockMkdirFailed, holder)
      else
        (let path = Join baseDir lockFileName
         in if \<not> open_ok then (Inl LockOpenFailed, holder)
            else
              (case holder of
                 Some q \<Rightarrow> (Inl (ErrBaseDirLocked path), holder)
               | None \<Rightarrow> if flock_ok then (Inr (), Some p) else (Inl (LockFailed path), holder))))"

text \<open>The reconciliation never takes the lock file for a sandbox.\<close>

lemma lock_file_is_no_sandbox: "\<not> IsSandboxID parse lockFileName"
  by (simp add: IsSandboxID_def lockFileName_def)

subsection \<open>The worker processes of one machine\<close>

text \<open>Where a process is: before the lock, with the lock, serving with its sandbox manager, after \<^verbatim>\<open>-reap-all\<close>, or gone.\<close>

datatype ('v, 'h) proc = Starting | Locked | Serving "('v, 'h) sys" | ReapedAll | Exited int

record ('v, 'h) box =
  flock :: "nat option"
  processes :: "('v, 'h) proc list"
  disk :: 'h

definition proc_at :: "('v, 'h) box \<Rightarrow> nat \<Rightarrow> ('v, 'h) proc \<Rightarrow> bool" where
  "proc_at b p s \<longleftrightarrow> p < length (processes b) \<and> processes b ! p = s"

definition set_proc :: "nat \<Rightarrow> ('v, 'h) proc \<Rightarrow> ('v, 'h) box \<Rightarrow> ('v, 'h) box" where
  "set_proc p s b = b\<lparr>processes := (processes b)[p := s]\<rparr>"

definition empty_box :: "'h \<Rightarrow> ('v, 'h) box" where
  "empty_box h = \<lparr>flock = None, processes = [], disk = h\<rparr>"

text \<open>
  A process may be started, and may die, at any moment; the kernel then drops its lock.  \<^verbatim>\<open>Recover\<close> runs before
  anything else is served.  The directory listing names each entry once.
\<close>

inductive box_step :: "(string \<Rightarrow> bool) \<Rightarrow> string \<Rightarrow> ('v, 'h) box \<Rightarrow> ('v, 'h) box \<Rightarrow> bool"
  for parse :: "string \<Rightarrow> bool" and baseDir :: string where
  starts: "box_step parse baseDir b (b\<lparr>processes := processes b @ [Starting]\<rparr>)"
| locks: "proc_at b p Starting \<Longrightarrow> LockBaseDir mkdir_ok open_ok flock_ok baseDir p (flock b) = (Inr (), l)
      \<Longrightarrow> box_step parse baseDir b (set_proc p Locked (b\<lparr>flock := l\<rparr>))"
| refused: "proc_at b p Starting \<Longrightarrow> LockBaseDir mkdir_ok open_ok flock_ok baseDir p (flock b) = (Inl e, l)
      \<Longrightarrow> box_step parse baseDir b (set_proc p (Exited 1) (b\<lparr>flock := l\<rparr>))"
| reaps_all: "proc_at b p Locked \<Longrightarrow> reapAll (disk b) = (ok :: bool, h)
      \<Longrightarrow> box_step parse baseDir b (set_proc p ReapedAll (b\<lparr>disk := h\<rparr>))"
| recovers: "proc_at b p Locked \<Longrightarrow> (\<And>ids. listDisk (disk b) = Inr ids \<Longrightarrow> distinct ids)
      \<Longrightarrow> Recover att reap query listDisk (init_sys (disk b)) = (r, x)
      \<Longrightarrow> box_step parse baseDir b (set_proc p (Serving x) (b\<lparr>disk := host x\<rparr>))"
| works: "proc_at b p (Serving x) \<Longrightarrow> mgr_step parse (x\<lparr>host := disk b\<rparr>) y
      \<Longrightarrow> box_step parse baseDir b (set_proc p (Serving y) (b\<lparr>disk := host y\<rparr>))"
| dies: "proc_at b p s \<Longrightarrow> (\<And>k. s \<noteq> Exited k)
      \<Longrightarrow> box_step parse baseDir b (set_proc p (Exited status) (b\<lparr>flock := (if flock b = Some p then None else flock b)\<rparr>))"

text \<open>A process past the lock and not gone holds it; its manager keeps the ownership invariant.\<close>

fun holds :: "('v, 'h) proc \<Rightarrow> bool" where
  "holds Locked \<longleftrightarrow> True"
| "holds (Serving x) \<longleftrightarrow> True"
| "holds ReapedAll \<longleftrightarrow> True"
| "holds _ \<longleftrightarrow> False"

fun proc_ok :: "('v, 'h) proc \<Rightarrow> bool" where
  "proc_ok (Serving x) \<longleftrightarrow> mgr_inv x"
| "proc_ok _ \<longleftrightarrow> True"

definition box_inv :: "('v, 'h) box \<Rightarrow> bool" where
  "box_inv b \<longleftrightarrow>
     (\<forall>p. (p < length (processes b) \<and> holds (processes b ! p)) = (flock b = Some p))
     \<and> (\<forall>s \<in> set (processes b). proc_ok s)"

lemma box_inv_set:
  assumes "box_inv b" and "p < length (processes b)" and "proc_ok s" and "holds s = (flock b' = Some p)"
    and "processes b' = (processes b)[p := s]"
    and "\<And>q. q \<noteq> p \<Longrightarrow> (flock b' = Some q) = (flock b = Some q)"
  shows "box_inv b'"
  unfolding box_inv_def
proof (intro conjI allI ballI)
  fix q show "(q < length (processes b') \<and> holds (processes b' ! q)) = (flock b' = Some q)"
    using assms by (cases "q = p") (auto simp: box_inv_def)
next
  fix s' assume "s' \<in> set (processes b')"
  with assms set_update_subset_insert [of "processes b" p s] show "proc_ok s'" by (auto simp: box_inv_def)
qed

lemma box_holder: "box_inv b \<Longrightarrow> proc_at b p s \<Longrightarrow> holds s = (flock b = Some p)"
  by (auto simp: box_inv_def proc_at_def)

lemma box_manager: "box_inv b \<Longrightarrow> proc_at b p (Serving x) \<Longrightarrow> mgr_inv x"
  using nth_mem by (fastforce simp: box_inv_def proc_at_def)

lemma LockBaseDir_taken: "LockBaseDir m f k dir p holder = (Inr (), l) \<Longrightarrow> holder = None \<and> l = Some p"
  by (auto simp: LockBaseDir_def Let_def split: if_splits option.splits)

lemma LockBaseDir_refused: "LockBaseDir m f k dir p holder = (Inl e, l) \<Longrightarrow> l = holder"
  by (auto simp: LockBaseDir_def Let_def split: if_splits option.splits)

lemma box_step_inv:
  assumes "box_step parse baseDir b b'" and inv: "box_inv b"
  shows "box_inv b'"
  using assms(1)
proof (cases rule: box_step.cases)
  case starts
  with inv show ?thesis by (auto simp: box_inv_def nth_append less_Suc_eq)
next
  case (locks p m f k l)
  show ?thesis
    by (rule box_inv_set [OF inv, of p Locked])
      (use locks box_holder [OF inv locks(2)] LockBaseDir_taken [OF locks(3)] in \<open>auto simp: set_proc_def proc_at_def\<close>)
next
  case (refused p m f k e l)
  show ?thesis
    by (rule box_inv_set [OF inv, of p "Exited 1"])
      (use refused box_holder [OF inv refused(2)] LockBaseDir_refused [OF refused(3)] in \<open>auto simp: set_proc_def proc_at_def\<close>)
next
  case (reaps_all p reapAll ok h)
  show ?thesis
    by (rule box_inv_set [OF inv, of p ReapedAll])
      (use reaps_all box_holder [OF inv reaps_all(2)] in \<open>auto simp: set_proc_def proc_at_def\<close>)
next
  case (recovers p listDisk att reap query r x)
  show ?thesis
    by (rule box_inv_set [OF inv, of p "Serving x"])
      (use recovers box_holder [OF inv recovers(2)] Recover_inv [OF recovers(4,3)] in \<open>auto simp: set_proc_def proc_at_def\<close>)
next
  case (works p x y)
  from box_manager [OF inv works(2)] have "mgr_inv y" using mgr_step_inv [OF works(3)] by (simp add: inv_facts)
  show ?thesis
    by (rule box_inv_set [OF inv, of p "Serving y"])
      (use works box_holder [OF inv works(2)] \<open>mgr_inv y\<close> in \<open>auto simp: set_proc_def proc_at_def\<close>)
next
  case (dies p s status)
  show ?thesis
    by (rule box_inv_set [OF inv, of p "Exited status"]) (use dies box_holder [OF inv dies(2)] in \<open>auto simp: set_proc_def proc_at_def\<close>)
qed

lemma box_run_inv: "(box_step parse baseDir)\<^sup>*\<^sup>* b b' \<Longrightarrow> box_inv b \<Longrightarrow> box_inv b'"
  by (induction rule: rtranclp_induct) (auto intro: box_step_inv)

lemma empty_box_inv: "box_inv (empty_box h)"
  by (simp add: box_inv_def empty_box_def)

lemma disk_changed_by_holder:
  assumes "box_step parse baseDir b b'" and "box_inv b" and "disk b' \<noteq> disk b"
  shows "\<exists>p s. flock b = Some p \<and> proc_at b p s \<and> holds s"
  using assms(1)
proof (cases rule: box_step.cases)
  case (reaps_all p reapAll ok h)
  with box_holder [OF assms(2) reaps_all(2)] show ?thesis by auto
next
  case (recovers p listDisk att reap query r x)
  with box_holder [OF assms(2) recovers(2)] show ?thesis by auto
next
  case (works p x y)
  with box_holder [OF assms(2) works(2)] show ?thesis by auto
qed (use assms(3) in \<open>auto simp: set_proc_def\<close>)



subsection \<open>A recovery that fails\<close>

text \<open>The command logs a failed \<^verbatim>\<open>Recover\<close> and goes on: nothing is tracked, and the first heartbeat still carries an inventory
  it calls complete, without the sandboxes that are running.\<close>

lemma failed_recovery_reports_empty:
  assumes "Recover att reap query (\<lambda>_. Inl ()) (init_sys h) = (r, x)" and "met_hostname met = Some hn"
    and "register_phase orc (s\<lparr>worker := refresh_worker met hn (worker s)\<rparr>) z = (Inr (hb, s'), z1)"
  shows "r = Inl () \<and> host x = h
    \<and> fst (snd (snd (UpdateWorker orc met (Snapshot (mgr x)) s z)))
      = snd (orc_Report orc (hb\<lparr>hb_Sandboxes := [], InventoryComplete := True\<rparr>) z1)"
proof -
  have x: "r = Inl ()" "host x = h" "Snapshot (mgr x) = []"
    using assms(1) by (auto simp: Recover_def init_sys_def newManager_def Snapshot_def)
  obtain answer z2 where "orc_Report orc (hb\<lparr>hb_Sandboxes := [], InventoryComplete := True\<rparr>) z1 = (answer, z2)" by fastforce
  with x assms(2,3) show ?thesis by (cases answer) (simp_all add: UpdateWorker_def)
qed

subsection \<open>The smoke test\<close>

datatype smoke_error =
    SmokeNoImageDir
  | SmokeStat string
  | SmokePool dm_error
  | SmokeClient "dm_error runtime_error"
  | SmokeVolume dm_error
  | SmokeSpawn "dm_error runtime_error"
  | SmokeBoot vm_error

text \<open>The deferred cleanup: its errors are logged.  The stop signals the shim and leaves files and volumes alone.\<close>

definition smoke_cleanup :: "'k vm_env \<Rightarrow> Pool \<Rightarrow> string \<Rightarrow> Client \<Rightarrow> 'k machine host \<Rightarrow> 'k machine host" where
  "smoke_cleanup env pool i client h =
     snd (RemoveAll (env_rm_ok env) (client_Dir client) (h\<lparr>volumes := snd (RemoveVolume (env_K env) pool i (volumes h))\<rparr>))"

text \<open>\<open>run\<close> with the environment variables, the files that can be read, a fresh UUID and the answers of the host; the
  answers to the polls of the VM are those of \<open>waitRunning\<close>, with a deadline of 30 seconds here.\<close>

definition smoke_run ::
    "'k vm_env \<Rightarrow> (string \<Rightarrow> string) \<Rightarrow> (string \<Rightarrow> bool) \<Rightarrow> string \<Rightarrow> 'k machine host \<Rightarrow> smoke_error option \<times> 'k machine host" where
  "smoke_run env getenv stat newUUID h =
     (let imageDir = getenv ''FIRECRACKER_IMAGE_DIR'';
          kpath = Join imageDir ''vmlinux'';
          rootfs = Join imageDir ''rootfs.ext4'';
          sandboxID = ''smoke-'' @ newUUID
      in if imageDir = [] then (Some SmokeNoImageDir, h)
         else if \<not> stat kpath then (Some (SmokeStat kpath), h)
         else if \<not> stat rootfs then (Some (SmokeStat rootfs), h)
         else
           (case LoadPool (host_files h) (envOr getenv ''FIRE2_THINPOOL_CONF'' DefaultConfPath) of
              Inl e \<Rightarrow> (Some (SmokePool e), h)
            | Inr pool \<Rightarrow>
                (case NewClient (env_parse env) (env_mkdir_ok env) (SandboxBaseDir (getenv ''FIRECRACKER_SANDBOX_DIR'')) sandboxID h of
                   (Inl e, h1) \<Rightarrow> (Some (SmokeClient e), h1)
                 | (Inr client, h1) \<Rightarrow>
                     (case CreateVolume (env_K env) (host_files h1) pool (env_draw env) sandboxID (volumes h1) of
                        (Inl e, m) \<Rightarrow> (Some (SmokeVolume e), smoke_cleanup env pool sandboxID client (h1\<lparr>volumes := m\<rparr>))
                      | (Inr rootDrive, m) \<Rightarrow>
                          (case client_Spawn (env_marshal env) (env_config_write env) (env_log_ok env) (env_remove_ok env)
                                  (env_start_pid env) (env_attempts env)
                                  \<lparr>ShimPath = envOr getenv ''FIRE2_SHIM_PATH'' ''/opt/fire2/fire2-shim'',
                                   FirecrackerPath = envOr getenv ''FIRECRACKER_BIN'' ''/usr/local/bin/firecracker'',
                                   KernelPath = kpath, RootDrivePath = rootDrive, spawn_VcpuCount = 1,
                                   spawn_MemSizeMib = 256, BootArgs = ''console=ttyS0 reboot=k panic=1 pci=off''\<rparr>
                                  client (h1\<lparr>volumes := m\<rparr>) of
                             ((Some e, client1), h2) \<Rightarrow> (Some (SmokeSpawn e), smoke_cleanup env pool sandboxID client1 h2)
                           | ((None, client1), h2) \<Rightarrow>
                               (case env_boot env of
                                  (answers, lastAnswer, ev) \<Rightarrow>
                                    (map_option SmokeBoot (waitRunning answers lastAnswer ev),
                                     smoke_cleanup env pool sandboxID client1 h2)))))))"

text \<open>The command cannot pass: its sandbox identifier is a UUID with a prefix, which the runtime refuses.\<close>

lemma smoke_never_passes:
  assumes "length newUUID = 36"
  shows "\<exists>e. smoke_run env getenv stat newUUID h = (Some e, h)"
proof -
  have "\<not> IsSandboxID (env_parse env) (''smoke-'' @ newUUID)" using assms by (simp add: IsSandboxID_def)
  then show ?thesis
    by (simp add: smoke_run_def Let_def NewClient_def CheckSandboxID_def split: sum.split)
qed

end
