(* ===== verification/Spec2Isabelle.thy ===== *)
theory Spec2Isabelle
  imports Worker_Startup
begin

text \<open>
  Verification of \<^bold>\<open>fire2\<close>, an orchestrator of Firecracker sandboxes.  File names below are relative to
  \<^verbatim>\<open>src/internal/packages\<close> unless they start with \<^verbatim>\<open>src/\<close>.

  \<^bold>\<open>The program.\<close>  An orchestrator process serves an HTTP API to users and a gRPC API to workers; its whole state
  is a PostgreSQL database, and River jobs, which are rows of that database too, do the slow work.  A worker
  process per machine hosts the sandboxes: it registers, sends a heartbeat with its inventory every five seconds,
  reports state changes, and executes creations and removals that the jobs ask for over gRPC.  On the worker a
  sandbox manager owns one actor per sandbox; an actor drives one VM, which is a thin volume of a device-mapper
  pool, a directory and a shim process that outlives the worker.

  \<^bold>\<open>Shared theories.\<close>
  \<^item> \<open>Prelude\<close>: time, Go's narrowing conversions, SQL statements on lists of rows, generic lemmas.
  \<^item> \<open>Go_Strings\<close>, \<open>Go_Paths\<close>: what the sources use of \<^verbatim>\<open>strings\<close>, \<^verbatim>\<open>strconv\<close> and \<^verbatim>\<open>path/filepath\<close>, on byte strings;
    \<open>Go_Time\<close>: \<^verbatim>\<open>time.ParseDuration\<close>.
  \<^item> \<open>Wire\<close>: the protocol messages and gRPC status codes both sides exchange.

  \<^bold>\<open>The orchestrator.\<close>
  \<^item> \<open>Schema\<close>: the tables and their well-formedness \<open>wf_db\<close>; \<open>db\<close> is the database.  \<open>Transitions\<close>: the state machine
    of sandbox rows, \<open>status_step\<close>, lifted to databases as \<open>legal_db\<close>; the locale \<open>db_operation\<close> is what every
    repository method promises (legal transitions, well-formedness kept).
  \<^item> \<open>Sandbox_Repository\<close> (\<^verbatim>\<open>sandbox/\<close>) and \<open>Worker_Repository\<close> (\<^verbatim>\<open>worker/repository.go\<close>, \<^verbatim>\<open>worker/model.go\<close>): one
    operation per method, each an interpretation of \<open>db_operation\<close>.  Properties: capacity is never exceeded by an
    assignment, the reconciliation of an inventory equals one pass over the table, what the reapers claim.
  \<^item> \<open>Ledger\<close>: the locale \<open>transaction\<close>, the contract of a whole transaction: besides legal transitions, every
    sandbox waiting for cleanup has its cleanup job.
  \<^item> \<open>Events\<close> (\<^verbatim>\<open>orchestrator/event_grpc.go\<close>, \<^verbatim>\<open>event_repository.go\<close>): registration, heartbeat and event handlers.
    Properties: fencing of superseded processes, a listed sandbox survives.
  \<^item> \<open>Scheduler\<close>, \<open>Job_World\<close>, \<open>Create_Job\<close>, \<open>Cleanup_Jobs\<close> (\<^verbatim>\<open>orchestrator/scheduler.go\<close>, \<^verbatim>\<open>create_sandbox_worker.go\<close>,
    \<^verbatim>\<open>cleanup_sandbox_worker.go\<close>, \<^verbatim>\<open>reap_*.go\<close>, \<^verbatim>\<open>remove_*.go\<close>, \<^verbatim>\<open>retry_policy.go\<close>): the jobs.  Each round trip of a job
    to the database is preceded by arbitrary legal steps of the other processes and may fail with or without its
    effect; the theorems hold for all of them.
  \<^item> \<open>Auth\<close> (\<^verbatim>\<open>auth/\<close>, \<^verbatim>\<open>orchestrator/auth_http.go\<close>) and \<open>Http_Api\<close> (\<^verbatim>\<open>orchestrator/http.go\<close>): accounts, sessions and
    the sandbox endpoints; tenants are isolated, a creation is all or nothing.
  \<^item> \<open>Orchestrator_App\<close> (\<^verbatim>\<open>src/internal/app/\<close>, \<^verbatim>\<open>tailscale/\<close>, \<^verbatim>\<open>orchestrator/grpc_client.go\<close>, \<^verbatim>\<open>src/cmd/devtoken\<close>,
    \<^verbatim>\<open>src/internal/logging\<close>): the settings, the River configuration and the direct calls to workers.  Whatever the
    environment says, an outage of the orchestrator costs no sandbox before the lost-worker timeout.

  \<^bold>\<open>The worker.\<close>
  \<^item> \<open>Thin_Dm\<close>, \<open>Thin_Pool\<close> (\<^verbatim>\<open>thin/\<close>): the ioctl buffers byte by byte and the volumes of the sandboxes; the kernel is
    an argument.  The base volume is never deleted.
  \<^item> \<open>Shim\<close> (\<^verbatim>\<open>shim/\<close>) and \<open>Runtime\<close> (\<^verbatim>\<open>runtime/\<close>): the shim protocol as a step relation \<open>shim_step\<close>, spawning, attaching
    and reaping; what the operating system answers is a record of arguments.
  \<^item> \<open>Sandbox_Service\<close> (\<^verbatim>\<open>sandboxmgr/service.go\<close>, \<^verbatim>\<open>vm.go\<close>): the actor of one sandbox over the operations of a VM, and
    the Firecracker VM composed from the theories above.
  \<^item> \<open>Sandbox_Manager\<close> (\<^verbatim>\<open>sandboxmgr/manager.go\<close>, \<^verbatim>\<open>audit.go\<close>): \<open>mgr_step\<close> interleaves callers, actors and audits, one
    section under the lock, channel operation or call to the host per step.  \<open>Manager_Ownership\<close>: at most one party
    touches a sandbox.  \<open>Manager_States\<close>: the locale \<open>simulation\<close>, and the refinement of an abstract life cycle.
    \<open>Manager_Liveness\<close>: the locale \<open>progress\<close>, and that every call can return from every reachable state.
  \<^item> \<open>Capacity\<close> (\<^verbatim>\<open>worker/monitoring.go\<close>): the size of a machine.  \<open>Worker_Agent\<close> (\<^verbatim>\<open>worker/\<close>): heartbeat, event
    reporter and gRPC server.  \<open>Worker_Protocol\<close> composes the agent with the handlers of \<open>Events\<close>;
    \<open>Worker_Inventory\<close> composes both with the sandbox manager.
  \<^item> \<open>Worker_Startup\<close> (\<^verbatim>\<open>src/cmd/worker\<close>, \<^verbatim>\<open>sandboxmgr/lock.go\<close>, \<^verbatim>\<open>src/cmd/firecracker-smoke\<close>): \<open>box_step\<close> is the life of
    all worker processes of one machine, around \<open>mgr_step\<close>; at most one of them changes the host.

  \<^bold>\<open>Bounds and termination.\<close>  No definition uses fuel: every loop of the sources that ends is a recursion HOL accepts, on a
  list or with a measure, and the retry loops count down the attempts the code allows.  Loops that run until a context
  is done (\<^verbatim>\<open>RunHeartbeat\<close>, the event reporter, the actors and the audit) take the finite list of what they receive
  before that, or are steps of a relation.  Integers are unbounded where the code cannot overflow them and
  converted by \<open>to_int32\<close> and its kin where it narrows; buffers are words.

  \<^bold>\<open>Not modelled.\<close>  The HTTP router, JSON and protobuf encodings and log lines carry no decision.  Generated code
  (\<^verbatim>\<open>src/gen\<close>) appears as the records of its messages.  The rounding of
  \<^verbatim>\<open>float64\<close> is left out in the scheduler, in \<^verbatim>\<open>readCPUUsagePercent\<close> and for fractions of a duration; \<^verbatim>\<open>strconv.ParseFloat\<close>
  is an argument.  \<^verbatim>\<open>src/cmd/api\<close> and \<^verbatim>\<open>src/internal/app/app.go\<close> start listeners and mount the handlers.  PostgreSQL
  runs each statement or transaction atomically, as the sources assume.  \<^verbatim>\<open>uuid.Parse\<close>, \<^verbatim>\<open>bcrypt\<close>, random bytes, clocks,
  system calls and the kernel are arguments.  Test helpers (\<^verbatim>\<open>src/internal/testutil\<close>, \<^verbatim>\<open>src/test\<close>), the deployment
  (\<^verbatim>\<open>src/ansible\<close>) and the web pages are not part of the running system.
\<close>

end
